(* ===== verification/Prelude.thy ===== *)
theory Prelude
  imports Main "HOL-Library.List_Lexorder" "HOL-Library.Char_ord"
begin

text \<open>
  Vocabulary and automation shared by every theory of the development.

  \<^item> \<open>time\<close> is a point in time or a duration in whole microseconds, the resolution of
    Python's \<open>datetime\<close> and \<open>timedelta\<close>; points count from the Unix epoch.
  \<^item> An operation that may raise returns a sum: \<open>Inl\<close> the exception, \<open>Inr\<close> the value.
    An operation with effects takes the state last and returns the pair of its result and
    the new state; the state that comes with an \<open>Inl\<close> is the one the exception leaves.
  \<^item> \<open>first\<close> is \<open>next(filter(...), None)\<close>, the way a single-row query reads a table;
    \<open>upd_where\<close> is an UPDATE over the rows that satisfy a condition.
\<close>

type_synonym time = int

abbreviation sec :: "time" where "sec \<equiv> 1000000"

text \<open>The points a \<open>datetime\<close> can hold: the years 1 to 9999.\<close>

definition datetime_ok :: "time \<Rightarrow> bool" where
  "datetime_ok t \<longleftrightarrow> -62135596800 * sec \<le> t \<and> t < 253402300800 * sec"

named_theorems frame \<open>what an operation leaves unchanged\<close>
named_theorems inv_pres \<open>operations preserve the data invariants\<close>
named_theorems model_simps \<open>branches of the operations, one equation per outcome\<close>

subsection \<open>Sums\<close>

definition is_ok :: "'e + 'a \<Rightarrow> bool" where
  "is_ok r = (case r of Inl _ \<Rightarrow> False | Inr _ \<Rightarrow> True)"

lemma is_ok_simps [simp]: "is_ok (Inr x)" "\<not> is_ok (Inl e)"
  by (simp_all add: is_ok_def)

lemma is_okE: "is_ok r \<Longrightarrow> (\<And>x. r = Inr x \<Longrightarrow> P) \<Longrightarrow> P"
  by (cases r) auto

text \<open>Sequencing of pure steps that may raise.\<close>

definition bind_sum :: "'e + 'a \<Rightarrow> ('a \<Rightarrow> 'e + 'b) \<Rightarrow> 'e + 'b" where
  "bind_sum r f = (case r of Inl e \<Rightarrow> Inl e | Inr x \<Rightarrow> f x)"

lemma bind_sum_simps [simp]:
  "bind_sum (Inl e) f = Inl e" "bind_sum (Inr x) f = f x"
  by (simp_all add: bind_sum_def)

lemma bind_sum_eq_Inr: "bind_sum r f = Inr y \<longleftrightarrow> (\<exists>x. r = Inr x \<and> f x = Inr y)"
  by (cases r) simp_all

lemma bind_sum_eq_Inl: "bind_sum r f = Inl e \<longleftrightarrow> r = Inl e \<or> (\<exists>x. r = Inr x \<and> f x = Inl e)"
  by (cases r) auto

subsection \<open>Reading rows\<close>

primrec first :: "('r \<Rightarrow> bool) \<Rightarrow> 'r list \<Rightarrow> 'r option" where
  "first p [] = None"
| "first p (r # rs) = (if p r then Some r else first p rs)"

lemma first_Some: "first p rs = Some r \<Longrightarrow> r \<in> set rs \<and> p r"
  by (induction rs) (auto split: if_splits)

lemma first_absent [simp]: "\<forall>r \<in> set rs. \<not> p r \<Longrightarrow> first p rs = None"
  by (induction rs) auto

lemma first_None: "first p rs = None \<longleftrightarrow> (\<forall>r \<in> set rs. \<not> p r)"
  by (induction rs) auto

lemma first_append:
  "first p (xs @ ys) = (case first p xs of Some r \<Rightarrow> Some r | None \<Rightarrow> first p ys)"
  by (induction xs) auto

lemma first_append_absent [simp]: "\<forall>r \<in> set xs. \<not> p r \<Longrightarrow> first p (xs @ ys) = first p ys"
  by (induction xs) auto

lemma first_append_present: "first p xs = Some r \<Longrightarrow> first p (xs @ ys) = Some r"
  by (simp add: first_append)

text \<open>When the rows' keys are distinct, a lookup by key finds exactly the row with it.\<close>

lemma first_key:
  "distinct (map k rs) \<Longrightarrow> r \<in> set rs \<Longrightarrow> first (\<lambda>x. k x = k r) rs = Some r"
  by (induction rs) (auto simp: image_iff)

lemma first_key_iff:
  assumes "distinct (map k rs)"
  shows "first (\<lambda>x. k x = v) rs = Some r \<longleftrightarrow> r \<in> set rs \<and> k r = v"
proof
  assume "first (\<lambda>x. k x = v) rs = Some r"
  then show "r \<in> set rs \<and> k r = v" by (rule first_Some)
next
  assume "r \<in> set rs \<and> k r = v"
  then show "first (\<lambda>x. k x = v) rs = Some r"
    using first_key [OF assms, of r] by auto
qed

lemma distinct_same_length:
  assumes "distinct (map k rs)" "\<And>r r'. r \<in> set rs \<Longrightarrow> r' \<in> set rs \<Longrightarrow> k r = k r'"
  shows "length rs \<le> 1"
proof (cases rs)
  case (Cons r rs')
  show ?thesis
  proof (cases rs')
    case (Cons r' rs'')
    with assms \<open>rs = r # rs'\<close> have "k r = k r'" "k r \<noteq> k r'" by auto
    then show ?thesis by simp
  qed (use \<open>rs = r # rs'\<close> in simp)
qed simp

subsection \<open>Updating rows\<close>

definition upd_where :: "('r \<Rightarrow> bool) \<Rightarrow> ('r \<Rightarrow> 'r) \<Rightarrow> 'r list \<Rightarrow> 'r list" where
  "upd_where p f rs = map (\<lambda>r. if p r then f r else r) rs"

lemma length_upd_where [simp]: "length (upd_where p f rs) = length rs"
  by (simp add: upd_where_def)

lemma upd_where_Nil [simp]: "upd_where p f [] = []"
  by (simp add: upd_where_def)

lemma upd_where_Cons [simp]:
  "upd_where p f (r # rs) = (if p r then f r else r) # upd_where p f rs"
  by (simp add: upd_where_def)

lemma set_upd_where: "set (upd_where p f rs) = (\<lambda>r. if p r then f r else r) ` set rs"
  by (simp add: upd_where_def)

lemma ball_upd_where:
  "(\<forall>r \<in> set (upd_where p f rs). P r) \<longleftrightarrow> (\<forall>r \<in> set rs. P (if p r then f r else r))"
  by (induction rs) auto

lemma ball_upd_where_same:
  assumes "\<And>r. P (f r) \<longleftrightarrow> P r"
  shows "(\<forall>r \<in> set (upd_where p f rs). P r) \<longleftrightarrow> (\<forall>r \<in> set rs. P r)"
  using assms by (induction rs) auto

lemma upd_where_append [simp]:
  "upd_where p f (xs @ ys) = upd_where p f xs @ upd_where p f ys"
  by (simp add: upd_where_def)

lemma map_upd_where:
  assumes "\<And>r. g (f r) = g r"
  shows "map g (upd_where p f rs) = map g rs"
  using assms by (induction rs) auto

lemma filter_upd_where_same:
  assumes "\<And>r. q (f r) = q r"
  shows "filter q (upd_where p f rs) = upd_where p f (filter q rs)"
  using assms by (induction rs) auto

lemma upd_where_id: "(\<And>r. r \<in> set rs \<Longrightarrow> \<not> p r) \<Longrightarrow> upd_where p f rs = rs"
  by (induction rs) auto

subsection \<open>Pages\<close>

text \<open>The slice \<open>xs[offset : offset + limit]\<close> for a non-negative offset and limit.\<close>

definition page :: "int \<Rightarrow> int \<Rightarrow> 'a list \<Rightarrow> 'a list" where
  "page offset limit xs = take (nat limit) (drop (nat offset) xs)"

lemma length_page: "length (page offset limit xs) \<le> nat limit"
  by (simp add: page_def)

lemma set_page: "set (page offset limit xs) \<subseteq> set xs"
  unfolding page_def by (meson set_drop_subset set_take_subset subset_trans)

lemma page_split:
  "0 \<le> offset \<Longrightarrow> 0 \<le> limit \<Longrightarrow>
    take (nat offset) xs @ page offset limit xs @ drop (nat (offset + limit)) xs = xs"
  by (simp add: page_def nat_add_distrib)
    (metis add.commute append_take_drop_id drop_drop)

end
