(* ===== verification/PyStr.thy ===== *)
theory PyStr
  imports Prelude
begin

text \<open>
  The parts of Python's \<open>str\<close> and \<open>int\<close> the program calls: \<open>lower\<close>, \<open>strip\<close>, \<open>split\<close> and
  \<open>partition\<close> on one separator character, \<open>join\<close>, \<open>str(n)\<close> and \<open>int(s)\<close>, UTF-8 encoding.
  A \<open>string\<close> is a list of \<open>char\<close>, read as the code points 0 to 255; code points above 255
  are outside the model. Within that range the definitions follow Python exactly (for
  example \<open>lower\<close> also maps the Latin-1 capitals, and \<open>strip\<close> removes the Latin-1 white
  space).
\<close>

abbreviation py_ord :: "char \<Rightarrow> nat" where "py_ord c \<equiv> (of_char c :: nat)"

subsection \<open>Case and white space\<close>

definition is_upper_char :: "char \<Rightarrow> bool" where
  "is_upper_char c = (let n = py_ord c in
     65 \<le> n \<and> n \<le> 90 \<or> 192 \<le> n \<and> n \<le> 222 \<and> n \<noteq> 215)"

definition lower_char :: "char \<Rightarrow> char" where
  "lower_char c = (if is_upper_char c then char_of (py_ord c + 32) else c)"

definition lower :: "string \<Rightarrow> string" where
  "lower s = map lower_char s"

definition is_space :: "char \<Rightarrow> bool" where
  "is_space c = (let n = py_ord c in
     9 \<le> n \<and> n \<le> 13 \<or> 28 \<le> n \<and> n \<le> 32 \<or> n = 133 \<or> n = 160)"

definition lstrip :: "string \<Rightarrow> string" where
  "lstrip s = dropWhile is_space s"

definition strip :: "string \<Rightarrow> string" where
  "strip s = rev (lstrip (rev (lstrip s)))"

lemma code_char_of [simp]: "n < 256 \<Longrightarrow> py_ord (char_of n) = n"
  by simp

lemma lower_char_idem [simp]: "lower_char (lower_char c) = lower_char c"
proof (cases "is_upper_char c")
  case True
  then have "py_ord c \<le> 222" "65 \<le> py_ord c" "py_ord c \<noteq> 215"
    "py_ord c \<le> 90 \<or> 192 \<le> py_ord c"
    by (auto simp: is_upper_char_def Let_def)
  then have "\<not> is_upper_char (char_of (py_ord c + 32))"
    by (auto simp: is_upper_char_def Let_def)
  with True show ?thesis by (simp add: lower_char_def)
next
  case False
  then show ?thesis by (simp add: lower_char_def)
qed

lemma lower_idem [simp]: "lower (lower s) = lower s"
  by (simp add: lower_def)

lemma lower_append [simp]: "lower (s @ t) = lower s @ lower t"
  by (simp add: lower_def)

lemma lower_Nil [simp]: "lower [] = []"
  by (simp add: lower_def)

lemma lower_eq_Nil [simp]: "lower s = [] \<longleftrightarrow> s = []"
  by (simp add: lower_def)

lemma length_lower [simp]: "length (lower s) = length s"
  by (simp add: lower_def)

lemma is_space_lower [simp]: "is_space (lower_char c) = is_space c"
  by (auto simp: lower_char_def is_space_def is_upper_char_def Let_def)

lemma lstrip_lower: "lstrip (lower s) = lower (lstrip s)"
  by (simp add: lstrip_def lower_def dropWhile_map comp_def)

lemma rev_lower: "rev (lower s) = lower (rev s)"
  by (simp add: lower_def rev_map)

lemma strip_lower: "strip (lower s) = lower (strip s)"
  by (simp add: strip_def lstrip_lower rev_lower)

subsection \<open>Splitting and joining\<close>

fun split_on :: "char \<Rightarrow> string \<Rightarrow> string list" where
  "split_on sep [] = [[]]"
| "split_on sep (c # cs) =
     (if c = sep then [] # split_on sep cs
      else (case split_on sep cs of [] \<Rightarrow> [[c]] | p # ps \<Rightarrow> (c # p) # ps))"

fun join :: "string \<Rightarrow> string list \<Rightarrow> string" where
  "join sep [] = []"
| "join sep [p] = p"
| "join sep (p # q # ps) = p @ sep @ join sep (q # ps)"

text \<open>\<open>s.partition(sep)\<close>: the part before, whether the separator was found, the part after.\<close>

fun partition_on :: "char \<Rightarrow> string \<Rightarrow> string \<times> bool \<times> string" where
  "partition_on sep [] = ([], False, [])"
| "partition_on sep (c # cs) =
     (if c = sep then ([], True, cs)
      else (case partition_on sep cs of (a, found, b) \<Rightarrow> (c # a, found, b)))"

lemma split_on_not_Nil [simp]: "split_on sep s \<noteq> []"
  by (induction s) (auto split: list.splits)

lemma split_on_no_sep: "sep \<notin> set s \<Longrightarrow> split_on sep s = [s]"
  by (induction s) auto

lemma split_on_append_sep:
  "sep \<notin> set p \<Longrightarrow> split_on sep (p @ sep # s) = p # split_on sep s"
  by (induction p) auto

lemma split_on_append:
  "split_on sep (a @ sep # b) = split_on sep a @ split_on sep b"
  by (induction a) (auto split: list.splits simp: split_on_append_sep [of sep "[]", simplified])

lemma join_split_on: "join [sep] (split_on sep s) = s"
proof (induction s)
  case Nil
  then show ?case by simp
next
  case (Cons c cs)
  obtain p ps where ps: "split_on sep cs = p # ps"
    by (cases "split_on sep cs") auto
  show ?case
  proof (cases "c = sep")
    case True
    with Cons ps show ?thesis by simp
  next
    case False
    with Cons ps show ?thesis by (cases ps) auto
  qed
qed

lemma split_on_join:
  "ps \<noteq> [] \<Longrightarrow> (\<forall>p \<in> set ps. sep \<notin> set p) \<Longrightarrow> split_on sep (join [sep] ps) = ps"
proof (induction "[sep]" ps rule: join.induct)
  case (3 p q ps)
  then show ?case by (simp add: split_on_append_sep)
qed (auto simp: split_on_no_sep)

lemma split_on_parts: "p \<in> set (split_on sep s) \<Longrightarrow> sep \<notin> set p"
proof (induction s arbitrary: p)
  case Nil
  then show ?case by simp
next
  case (Cons c cs)
  then show ?case
    by (cases "split_on sep cs") (auto split: if_splits)
qed

lemma partition_on_sep:
  "sep \<notin> set a \<Longrightarrow> partition_on sep (a @ sep # b) = (a, True, b)"
  by (induction a) auto

lemma partition_on_no_sep: "sep \<notin> set s \<Longrightarrow> partition_on sep s = (s, False, [])"
  by (induction s) auto

subsection \<open>Decimal integers\<close>

definition digit_char :: "nat \<Rightarrow> char" where
  "digit_char d = char_of (48 + d)"

definition is_digit :: "char \<Rightarrow> bool" where
  "is_digit c = (48 \<le> py_ord c \<and> py_ord c \<le> 57)"

definition digit_val :: "char \<Rightarrow> nat" where
  "digit_val c = py_ord c - 48"

fun str_of_nat :: "nat \<Rightarrow> string" where
  "str_of_nat n = (if n < 10 then [digit_char n]
     else str_of_nat (n div 10) @ [digit_char (n mod 10)])"

declare str_of_nat.simps [simp del]

definition str_of_int :: "int \<Rightarrow> string" where
  "str_of_int i = (if i < 0 then CHR ''-'' # str_of_nat (nat (- i)) else str_of_nat (nat i))"

definition nat_of_digits :: "string \<Rightarrow> nat" where
  "nat_of_digits s = foldl (\<lambda>n c. 10 * n + digit_val c) 0 s"

text \<open>
  \<open>int(s)\<close>: white space around, an optional sign, then digits with single underscores
  between them; more than 4300 digits are refused. \<open>None\<close> is ValueError.
\<close>

fun digit_groups :: "string \<Rightarrow> bool" where
  "digit_groups [] = False"
| "digit_groups [c] = is_digit c"
| "digit_groups (c # d # cs) =
     (is_digit c \<and> (if d = CHR ''_'' then digit_groups cs else digit_groups (d # cs)))"

definition max_str_digits :: nat where
  "max_str_digits = 4300"

definition int_of_str :: "string \<Rightarrow> int option" where
  "int_of_str s =
     (let t = strip s;
          neg = (case t of c # _ \<Rightarrow> c = CHR ''-'' | [] \<Rightarrow> False);
          body = (case t of c # cs \<Rightarrow> if c = CHR ''-'' \<or> c = CHR ''+'' then cs else t | [] \<Rightarrow> []);
          ds = filter is_digit body
      in if digit_groups body \<and> length ds \<le> max_str_digits
         then Some (if neg then - int (nat_of_digits ds) else int (nat_of_digits ds))
         else None)"

lemma code_digit_char [simp]: "d < 10 \<Longrightarrow> py_ord (digit_char d) = 48 + d"
  by (simp add: digit_char_def)

lemma is_digit_digit_char [simp]: "d < 10 \<Longrightarrow> is_digit (digit_char d)"
  by (simp add: is_digit_def)

lemma digit_val_digit_char [simp]: "d < 10 \<Longrightarrow> digit_val (digit_char d) = d"
  by (simp add: digit_val_def)

lemma str_of_nat_digits: "\<forall>c \<in> set (str_of_nat n). is_digit c"
proof (induction n rule: str_of_nat.induct)
  case (1 n)
  then show ?case by (subst str_of_nat.simps) auto
qed

lemma str_of_nat_not_Nil [simp]: "str_of_nat n \<noteq> []"
  by (subst str_of_nat.simps) simp

lemma nat_of_digits_snoc: "nat_of_digits (s @ [c]) = 10 * nat_of_digits s + digit_val c"
  by (simp add: nat_of_digits_def)

lemma nat_of_digits_str [simp]: "nat_of_digits (str_of_nat n) = n"
proof (induction n rule: str_of_nat.induct)
  case (1 n)
  show ?case
  proof (cases "n < 10")
    case True
    then show ?thesis by (subst str_of_nat.simps) (simp add: nat_of_digits_def)
  next
    case False
    with 1 show ?thesis
      by (subst str_of_nat.simps) (simp add: nat_of_digits_snoc)
  qed
qed

lemma digit_groups_digits: "s \<noteq> [] \<Longrightarrow> \<forall>c \<in> set s. is_digit c \<Longrightarrow> digit_groups s"
  by (induction s rule: digit_groups.induct) (auto simp: is_digit_def)

lemma is_digit_not_space: "is_digit c \<Longrightarrow> \<not> is_space c"
  by (auto simp: is_digit_def is_space_def Let_def)

lemma lstrip_id: "s = [] \<or> \<not> is_space (hd s) \<Longrightarrow> lstrip s = s"
  by (cases s) (auto simp: lstrip_def)

lemma strip_id: "s = [] \<or> \<not> is_space (hd s) \<and> \<not> is_space (last s) \<Longrightarrow> strip s = s"
  by (cases "s = []") (auto simp: strip_def lstrip_id hd_rev lstrip_id [of "rev s"])

lemma length_str_of_nat: "0 < k \<Longrightarrow> n < 10 ^ k \<Longrightarrow> length (str_of_nat n) \<le> k"
proof (induction n arbitrary: k rule: str_of_nat.induct)
  case (1 n)
  show ?case
  proof (cases "n < 10")
    case True
    with 1 show ?thesis by (subst str_of_nat.simps) simp
  next
    case False
    with "1.prems" obtain j where j: "k = Suc j" "0 < j"
      by (cases k; cases "k - 1") auto
    with "1.prems" have "n div 10 < 10 ^ j"
      by (simp add: div_less_iff_less_mult mult.commute)
    with False j "1.IH" [of j] show ?thesis
      by (subst str_of_nat.simps) simp
  qed
qed

lemma max_str_digits_pos: "0 < max_str_digits"
  by (simp add: max_str_digits_def)

text \<open>\<open>int(str(n)) == n\<close> for every integer of at most 4300 digits.\<close>

lemma int_of_str_str_of_nat:
  assumes "n < 10 ^ max_str_digits"
  shows "int_of_str (str_of_nat n) = Some (int n)"
proof -
  let ?s = "str_of_nat n"
  have dig: "\<forall>c \<in> set ?s. is_digit c" by (rule str_of_nat_digits)
  then have sp: "strip ?s = ?s"
    by (intro strip_id) (simp add: is_digit_not_space)
  have hd: "is_digit (hd ?s)" using dig by simp
  have len: "length ?s \<le> max_str_digits" using length_str_of_nat [of max_str_digits n] assms max_str_digits_pos by simp
  have flt: "filter is_digit ?s = ?s" using dig by (simp add: filter_id_conv)
  obtain c cs where s: "?s = c # cs" by (cases ?s) auto
  with hd have c: "c \<noteq> CHR ''-''" "c \<noteq> CHR ''+''" by (auto simp: is_digit_def)
  have g: "digit_groups ?s" using dig by (simp add: digit_groups_digits)
  show ?thesis
    unfolding int_of_str_def Let_def sp
    using s c flt g len nat_of_digits_str [of n] by simp
qed

lemma int_of_str_str_of_int:
  assumes "\<bar>i\<bar> < 10 ^ max_str_digits"
  shows "int_of_str (str_of_int i) = Some i"
proof (cases "i < 0")
  case False
  with assms have "nat i < 10 ^ max_str_digits" by (simp add: nat_less_iff)
  with False show ?thesis by (simp add: str_of_int_def int_of_str_str_of_nat)
next
  case True
  let ?s = "str_of_nat (nat (- i))"
  have dig: "\<forall>c \<in> set ?s. is_digit c" by (rule str_of_nat_digits)
  from True assms have "nat (- i) < 10 ^ max_str_digits" by (simp add: nat_less_iff)
  then have len: "length ?s \<le> max_str_digits" using length_str_of_nat [of max_str_digits] max_str_digits_pos by simp
  have flt: "filter is_digit ?s = ?s" using dig by (simp add: filter_id_conv)
  have "\<not> is_space (last (CHR ''-'' # ?s))" using dig by (simp add: is_digit_not_space)
  then have sp: "strip (CHR ''-'' # ?s) = CHR ''-'' # ?s"
    by (intro strip_id) (simp add: is_space_def)
  have "digit_groups ?s" using dig by (simp add: digit_groups_digits)
  with True flt len show ?thesis
    by (simp add: str_of_int_def int_of_str_def Let_def sp)
qed

text \<open>In particular for every integer of machine size.\<close>

lemma int_of_str_small: "\<bar>i\<bar> < 10 ^ 20 \<Longrightarrow> int_of_str (str_of_int i) = Some i"
proof (rule int_of_str_str_of_int)
  assume "\<bar>i\<bar> < 10 ^ 20"
  also have "(10::int) ^ 20 \<le> 10 ^ max_str_digits"
    by (rule power_increasing) (simp_all add: max_str_digits_def)
  finally show "\<bar>i\<bar> < 10 ^ max_str_digits" .
qed

lemma str_of_nat_inj: "str_of_nat m = str_of_nat n \<Longrightarrow> m = n"
  by (metis nat_of_digits_str)

lemma str_of_int_inj: "str_of_int i = str_of_int j \<Longrightarrow> i = j"
proof -
  assume eq: "str_of_int i = str_of_int j"
  have m: "CHR ''-'' # t \<noteq> str_of_nat n" for t n
    using str_of_nat_digits [of n] by (auto simp: is_digit_def dest: sym)
  show "i = j"
    using eq m str_of_nat_inj
    by (auto simp: str_of_int_def split: if_splits dest!: str_of_nat_inj) (metis m)+
qed

subsection \<open>UTF-8\<close>

text \<open>The bytes of \<open>s.encode("utf-8")\<close> for code points below 256.\<close>

definition utf8_char :: "char \<Rightarrow> nat list" where
  "utf8_char c = (let n = py_ord c in
     if n < 128 then [n] else [192 + n div 64, 128 + n mod 64])"

definition utf8 :: "string \<Rightarrow> nat list" where
  "utf8 s = concat (map utf8_char s)"

lemma utf8_char_bytes: "\<forall>b \<in> set (utf8_char c). b < 256"
proof -
  have "py_ord c div 64 < 4"
    using nat_of_char_less_256 [of c] by (simp add: less_mult_imp_div_less)
  moreover have "py_ord c mod 64 < 64" by simp
  ultimately show ?thesis by (simp add: utf8_char_def Let_def del: mod_less_divisor)
qed

lemma utf8_bytes: "\<forall>b \<in> set (utf8 s). b < 256"
  by (simp add: utf8_def utf8_char_bytes)

end
