(* ===== verification/Errors.thy ===== *)
theory Errors
  imports Prelude
begin

text \<open>
  The exceptions of \<open>apps/common/exceptions.py\<close>, the response envelope of
  \<open>apps/common/api/schemas.py\<close> and the error translation of \<open>config/api.py\<close>.

  A domain error is its class and its detail message. The exceptions that the database,
  the standard library and the code itself raise besides the domain errors are further
  constructors of \<open>exn\<close>, so that every raise of the source is a value.
\<close>

datatype domain_class =
    DomainError
  | InvalidCredentials
  | TokenReused
  | RefreshTokenBindingMismatch
  | InvalidToken
  | PermissionDenied
  | EmailAlreadyExists
  | ResourceNotFound

datatype exn =
    Domain domain_class string
  | IntegrityError
  | DataError
  | DatabaseUnavailable
  | RuntimeError string
  | ValueError string
  | KeyError string
  | TypeError string
  | InvalidTokenError
  | OverflowError
  | OSError
  | CommandError string
  | ImproperlyConfigured string
  | HttpError int
  | ValidationError

fun status_code :: "domain_class \<Rightarrow> int" where
  "status_code DomainError = 400"
| "status_code InvalidCredentials = 401"
| "status_code TokenReused = 401"
| "status_code RefreshTokenBindingMismatch = 401"
| "status_code InvalidToken = 401"
| "status_code PermissionDenied = 403"
| "status_code EmailAlreadyExists = 409"
| "status_code ResourceNotFound = 404"

fun error_code :: "domain_class \<Rightarrow> string" where
  "error_code DomainError = ''domain_error''"
| "error_code InvalidCredentials = ''invalid_credentials''"
| "error_code TokenReused = ''token_reused''"
| "error_code RefreshTokenBindingMismatch = ''refresh_token_binding_mismatch''"
| "error_code InvalidToken = ''invalid_token''"
| "error_code PermissionDenied = ''permission_denied''"
| "error_code EmailAlreadyExists = ''email_already_exists''"
| "error_code ResourceNotFound = ''not_found''"

fun default_detail :: "domain_class \<Rightarrow> string" where
  "default_detail DomainError = ''The request could not be completed.''"
| "default_detail InvalidCredentials = ''Invalid email or password.''"
| "default_detail TokenReused = ''This refresh token has already been used.''"
| "default_detail RefreshTokenBindingMismatch = ''The token is invalid or expired.''"
| "default_detail InvalidToken = ''The token is invalid or expired.''"
| "default_detail PermissionDenied = ''You do not have permission to perform this action.''"
| "default_detail EmailAlreadyExists = ''An account with this email already exists.''"
| "default_detail ResourceNotFound = ''The requested resource was not found.''"

text \<open>The constructor call \<open>Cls(detail)\<close>: \<open>detail or self.default_detail\<close>.\<close>

definition domain_error :: "domain_class \<Rightarrow> string option \<Rightarrow> exn" where
  "domain_error c detail = Domain c
     (case detail of Some d \<Rightarrow> if d = [] then default_detail c else d | None \<Rightarrow> default_detail c)"

abbreviation raise_domain :: "domain_class \<Rightarrow> exn" where
  "raise_domain c \<equiv> domain_error c None"

lemma domain_error_eq_iff [simp]:
  "domain_error c None = domain_error c' None \<longleftrightarrow> c = c'"
  by (auto simp: domain_error_def)

lemma domain_error_distinct [simp]:
  "domain_error c d \<noteq> IntegrityError" "domain_error c d \<noteq> DataError"
  "domain_error c d \<noteq> DatabaseUnavailable" "domain_error c d \<noteq> RuntimeError m"
  "IntegrityError \<noteq> domain_error c d" "DataError \<noteq> domain_error c d"
  "DatabaseUnavailable \<noteq> domain_error c d" "RuntimeError m \<noteq> domain_error c d"
  by (simp_all add: domain_error_def)

subsection \<open>The response envelope\<close>

record 'a build_response =
  success :: bool
  code :: int
  message :: string
  data :: "'a option"

definition success_response :: "'a option \<Rightarrow> int \<Rightarrow> string \<Rightarrow> 'a build_response" where
  "success_response d c m = \<lparr>success = True, code = c, message = m, data = d\<rparr>"

subsection \<open>Error translation\<close>

definition SAFE_ERROR_MESSAGES :: "(int \<times> string) list" where
  "SAFE_ERROR_MESSAGES =
    [(400, ''Request could not be completed.''),
     (401, ''Authentication failed.''),
     (403, ''Access denied.''),
     (404, ''Request could not be completed.''),
     (409, ''Request could not be completed.''),
     (422, ''Invalid request.''),
     (429, ''Too many requests.'')]"

definition safe_error_message :: "int \<Rightarrow> string" where
  "safe_error_message c = (case map_of SAFE_ERROR_MESSAGES c of
     Some m \<Rightarrow> m | None \<Rightarrow> ''Request could not be completed.'')"

text \<open>
  The three exception handlers: the HTTP status and the envelope. An exception that is none
  of the three is not handled by the API object (\<open>None\<close>): Django answers with its own
  status 500.
\<close>

definition handle_domain_error :: "domain_class \<Rightarrow> int \<times> 'a build_response" where
  "handle_domain_error c = (status_code c,
     \<lparr>success = False, code = status_code c, message = safe_error_message (status_code c),
      data = None\<rparr>)"

definition handle_http_error :: "int \<Rightarrow> int \<times> 'a build_response" where
  "handle_http_error c = (c,
     \<lparr>success = False, code = c, message = safe_error_message c, data = None\<rparr>)"

definition handle_validation_error :: "int \<times> 'a build_response" where
  "handle_validation_error = (422,
     \<lparr>success = False, code = 422, message = safe_error_message 422, data = None\<rparr>)"

fun error_response :: "exn \<Rightarrow> (int \<times> 'a build_response) option" where
  "error_response (Domain c d) = Some (handle_domain_error c)"
| "error_response (HttpError c) = Some (handle_http_error c)"
| "error_response ValidationError = Some handle_validation_error"
| "error_response _ = None"

lemmas handler_defs =
  handle_domain_error_def handle_http_error_def handle_validation_error_def

lemma error_response_envelope:
  "error_response e = Some (st, r) \<Longrightarrow>
    \<not> success r \<and> code r = st \<and> data r = None \<and> message r = safe_error_message st"
  by (cases e) (auto simp: handler_defs)

lemma error_response_detail_free:
  "error_response (Domain c d) = error_response (Domain c d')"
  by simp

end
