(* ===== verification/Db.thy ===== *)
theory Db
  imports PyStr Errors
begin

text \<open>
  The persistent state: the models of \<open>apps/accounts/models.py\<close>, \<open>apps/authz/models.py\<close> and
  \<open>apps/audit/models.py\<close> as rows of tables, and the ORM calls the repositories make on them.

  A table is its rows in insertion order and the next value of its id sequence. INSERT takes
  an id, checks the table's constraints and appends the row; a refused INSERT raises and
  leaves the rows as they were, but the sequence value is spent (PostgreSQL sequences are
  not transactional). GET, UPDATE and DELETE are written with the row conditions of the
  source's \<open>filter(...)\<close> calls. \<open>run_in_transaction\<close> restores the rows when the function it
  runs raises.
\<close>

subsection \<open>Tables\<close>

record 'r table =
  rows :: "'r list"
  next_id :: int

definition empty_table :: "'r table" where
  "empty_table = \<lparr>rows = [], next_id = 1\<rparr>"

definition tbl_insert ::
  "('r list \<Rightarrow> 'r \<Rightarrow> exn option) \<Rightarrow> (int \<Rightarrow> 'r) \<Rightarrow> 'r table \<Rightarrow> (exn + 'r) \<times> 'r table" where
  "tbl_insert check mk t =
     (let r = mk (next_id t); t' = t\<lparr>next_id := next_id t + 1\<rparr>
      in case check (rows t) r of
           Some e \<Rightarrow> (Inl e, t')
         | None \<Rightarrow> (Inr r, t'\<lparr>rows := rows t @ [r]\<rparr>))"

definition tbl_update ::
  "('r list \<Rightarrow> exn option) \<Rightarrow> ('r \<Rightarrow> bool) \<Rightarrow> ('r \<Rightarrow> 'r) \<Rightarrow> 'r table \<Rightarrow> (exn + nat) \<times> 'r table" where
  "tbl_update check p f t =
     (let rs = upd_where p f (rows t)
      in case check rs of
           Some e \<Rightarrow> (Inl e, t)
         | None \<Rightarrow> (Inr (length (filter p (rows t))), t\<lparr>rows := rs\<rparr>))"

definition tbl_delete :: "('r \<Rightarrow> bool) \<Rightarrow> 'r table \<Rightarrow> 'r table" where
  "tbl_delete p t = t\<lparr>rows := filter (\<lambda>r. \<not> p r) (rows t)\<rparr>"

text \<open>Every row has its own id, below the next value of the sequence.\<close>

definition ids_ok :: "('r \<Rightarrow> int) \<Rightarrow> 'r table \<Rightarrow> bool" where
  "ids_ok rid t \<longleftrightarrow> distinct (map rid (rows t)) \<and> (\<forall>r \<in> set (rows t). rid r < next_id t)"

lemma ids_ok_empty [simp]: "ids_ok rid empty_table"
  by (simp add: ids_ok_def empty_table_def)

lemma ids_ok_insert [inv_pres]:
  "ids_ok rid t \<Longrightarrow> (\<And>i. rid (mk i) = i) \<Longrightarrow> tbl_insert check mk t = (res, t') \<Longrightarrow> ids_ok rid t'"
  by (auto simp: ids_ok_def tbl_insert_def Let_def split: option.splits) force+

lemma ids_ok_update [inv_pres]:
  assumes "ids_ok rid t" "\<And>r. rid (f r) = rid r" "tbl_update check p f t = (res, t')"
  shows "ids_ok rid t'"
proof (cases "t' = t")
  case False
  with assms have t': "t' = t\<lparr>rows := upd_where p f (rows t)\<rparr>"
    by (auto simp: tbl_update_def Let_def split: option.splits)
  have "map rid (rows t') = map rid (rows t)"
    using assms(2) by (simp add: t' map_upd_where)
  with assms(1) show ?thesis
    by (auto simp: ids_ok_def t' set_upd_where assms(2))
qed (use assms in simp)

lemma ids_ok_delete [inv_pres]: "ids_ok rid t \<Longrightarrow> ids_ok rid (tbl_delete p t)"
  by (auto simp: ids_ok_def tbl_delete_def distinct_map inj_on_def)

lemma tbl_insert_cases:
  assumes "tbl_insert check mk t = (res, t')"
  obtains (refused) e where "res = Inl e" "rows t' = rows t" "next_id t' = next_id t + 1"
      "check (rows t) (mk (next_id t)) = Some e"
    | (inserted) "res = Inr (mk (next_id t))" "rows t' = rows t @ [mk (next_id t)]"
      "next_id t' = next_id t + 1" "check (rows t) (mk (next_id t)) = None"
  using assms by (auto simp: tbl_insert_def Let_def split: option.splits)

subsection \<open>Rows\<close>

text \<open>\<open>User\<close>: the columns the program reads or writes (not \<open>last_login\<close>).\<close>

record user_row =
  u_id :: int
  u_email :: string
  u_password :: string
  u_is_active :: bool
  u_is_staff :: bool
  u_is_superuser :: bool
  u_date_joined :: time

record permission_row =
  p_id :: int
  p_code :: string

record role_row =
  r_id :: int
  r_name :: string

record user_role_row =
  ur_id :: int
  ur_user_id :: int
  ur_role_id :: int

record role_permission_row =
  rp_id :: int
  rp_role_id :: int
  rp_permission_id :: int

record refresh_token_row =
  t_id :: int
  t_user_id :: int
  t_token_hash :: string
  t_family_id :: string
  t_parent_id :: "int option"
  t_device_hash :: "string option"
  t_issued_ip :: "string option"
  t_expires_at :: time
  t_revoked_at :: "time option"

text \<open>Values of a JSON column or a JWT payload: the Python objects the program builds.\<close>

datatype pyval =
    PNone
  | PBool bool
  | PInt int
  | PFloat string
  | PStr string
  | PDatetime time
  | PList "pyval list"
  | PTuple "pyval list"
  | PDict "(string \<times> pyval) list"

record audit_log_row =
  a_id :: int
  a_created_at :: time
  a_action :: string
  a_actor_id :: "int option"
  a_actor_email :: "string option"
  a_target_type :: "string option"
  a_target_id :: "string option"
  a_outcome :: string
  a_ip :: "string option"
  a_user_agent :: "string option"
  a_metadata :: "(string \<times> pyval) list"

record db =
  users :: "user_row table"
  permissions :: "permission_row table"
  roles :: "role_row table"
  user_roles :: "user_role_row table"
  role_permissions :: "role_permission_row table"
  refresh_tokens :: "refresh_token_row table"
  audit_logs :: "audit_log_row table"

definition empty_db :: db where
  "empty_db = \<lparr>users = empty_table, permissions = empty_table, roles = empty_table,
     user_roles = empty_table, role_permissions = empty_table, refresh_tokens = empty_table,
     audit_logs = empty_table\<rparr>"

subsection \<open>Constraints\<close>

text \<open>
  What a refused INSERT or UPDATE raises: a value longer than its \<open>varchar(n)\<close> column or not
  accepted by its \<open>inet\<close> column is a DataError; a duplicate of a unique key or a foreign key
  without its row is an IntegrityError. The e-mail address is unique up to letter case
  (\<open>UniqueConstraint(Lower("email"))\<close>, which contains \<open>unique=True\<close>).
\<close>

definition too_long :: "nat \<Rightarrow> string option \<Rightarrow> bool" where
  "too_long n v = (case v of Some t \<Rightarrow> n < length t | None \<Rightarrow> False)"

definition bad_inet :: "(string \<Rightarrow> bool) \<Rightarrow> string option \<Rightarrow> bool" where
  "bad_inet inet_ok v = (case v of Some t \<Rightarrow> \<not> inet_ok t | None \<Rightarrow> False)"

definition user_fits :: "user_row \<Rightarrow> bool" where
  "user_fits r \<longleftrightarrow> length (u_email r) \<le> 254 \<and> length (u_password r) \<le> 128"

abbreviation email_key :: "user_row \<Rightarrow> string" where
  "email_key r \<equiv> lower (u_email r)"

definition user_insert_check :: "user_row list \<Rightarrow> user_row \<Rightarrow> exn option" where
  "user_insert_check rs r =
     (if \<not> user_fits r then Some DataError
      else if email_key r \<in> set (map email_key rs) then Some IntegrityError
      else None)"

definition user_update_check :: "user_row list \<Rightarrow> exn option" where
  "user_update_check rs =
     (if \<not> list_all user_fits rs then Some DataError
      else if \<not> distinct (map email_key rs) then Some IntegrityError
      else None)"

definition role_fits :: "role_row \<Rightarrow> bool" where
  "role_fits r \<longleftrightarrow> length (r_name r) \<le> 50"

definition permission_fits :: "permission_row \<Rightarrow> bool" where
  "permission_fits r \<longleftrightarrow> length (p_code r) \<le> 100"

definition token_fits :: "refresh_token_row \<Rightarrow> bool" where
  "token_fits r \<longleftrightarrow> length (t_token_hash r) \<le> 64 \<and> \<not> too_long 64 (t_device_hash r)"

definition audit_fits :: "audit_log_row \<Rightarrow> bool" where
  "audit_fits r \<longleftrightarrow> length (a_action r) \<le> 64 \<and> \<not> too_long 254 (a_actor_email r) \<and>
     \<not> too_long 64 (a_target_type r) \<and> \<not> too_long 255 (a_target_id r) \<and>
     length (a_outcome r) \<le> 16 \<and> \<not> too_long 512 (a_user_agent r)"

definition role_insert_check :: "role_row list \<Rightarrow> role_row \<Rightarrow> exn option" where
  "role_insert_check rs r =
     (if 50 < length (r_name r) then Some DataError
      else if r_name r \<in> set (map r_name rs) then Some IntegrityError
      else None)"

definition permission_insert_check :: "permission_row list \<Rightarrow> permission_row \<Rightarrow> exn option" where
  "permission_insert_check rs r =
     (if 100 < length (p_code r) then Some DataError
      else if p_code r \<in> set (map p_code rs) then Some IntegrityError
      else None)"

abbreviation ur_pair :: "user_role_row \<Rightarrow> int \<times> int" where
  "ur_pair r \<equiv> (ur_user_id r, ur_role_id r)"

abbreviation rp_pair :: "role_permission_row \<Rightarrow> int \<times> int" where
  "rp_pair r \<equiv> (rp_role_id r, rp_permission_id r)"

definition user_role_insert_check ::
  "int list \<Rightarrow> int list \<Rightarrow> user_role_row list \<Rightarrow> user_role_row \<Rightarrow> exn option" where
  "user_role_insert_check uids rids rs r =
     (if ur_pair r \<in> set (map ur_pair rs) \<or> ur_user_id r \<notin> set uids \<or> ur_role_id r \<notin> set rids
      then Some IntegrityError else None)"

definition role_permission_insert_check ::
  "int list \<Rightarrow> int list \<Rightarrow> role_permission_row list \<Rightarrow> role_permission_row \<Rightarrow> exn option" where
  "role_permission_insert_check rids pids rs r =
     (if rp_pair r \<in> set (map rp_pair rs) \<or> rp_role_id r \<notin> set rids \<or>
         rp_permission_id r \<notin> set pids
      then Some IntegrityError else None)"

definition refresh_token_insert_check ::
  "(string \<Rightarrow> bool) \<Rightarrow> int list \<Rightarrow> refresh_token_row list \<Rightarrow> refresh_token_row \<Rightarrow> exn option" where
  "refresh_token_insert_check inet_ok uids rs r =
     (if 64 < length (t_token_hash r) \<or> too_long 64 (t_device_hash r) \<or>
         bad_inet inet_ok (t_issued_ip r)
      then Some DataError
      else if t_token_hash r \<in> set (map t_token_hash rs) \<or> t_user_id r \<notin> set uids \<or>
         (case t_parent_id r of Some p \<Rightarrow> p \<notin> set (map t_id rs) | None \<Rightarrow> False)
      then Some IntegrityError
      else None)"

definition audit_log_insert_check ::
  "(string \<Rightarrow> bool) \<Rightarrow> audit_log_row list \<Rightarrow> audit_log_row \<Rightarrow> exn option" where
  "audit_log_insert_check inet_ok rs r =
     (if 64 < length (a_action r) \<or> too_long 254 (a_actor_email r) \<or>
         too_long 64 (a_target_type r) \<or> too_long 255 (a_target_id r) \<or>
         16 < length (a_outcome r) \<or> bad_inet inet_ok (a_ip r) \<or>
         too_long 512 (a_user_agent r)
      then Some DataError else None)"

lemmas fits_defs = user_fits_def role_fits_def permission_fits_def token_fits_def audit_fits_def

lemmas check_defs =
  user_insert_check_def user_update_check_def role_insert_check_def
  permission_insert_check_def user_role_insert_check_def role_permission_insert_check_def
  refresh_token_insert_check_def audit_log_insert_check_def

subsection \<open>The ORM calls\<close>

text \<open>\<open>Model.objects.create(...)\<close>, one per model; the ids are the table's sequence values.\<close>

definition create_user ::
  "string \<Rightarrow> string \<Rightarrow> bool \<Rightarrow> bool \<Rightarrow> bool \<Rightarrow> time \<Rightarrow> 'z db_scheme \<Rightarrow> (exn + user_row) \<times> 'z db_scheme" where
  "create_user email pw active staff super now s =
     (case tbl_insert user_insert_check
        (\<lambda>i. \<lparr>u_id = i, u_email = email, u_password = pw, u_is_active = active,
             u_is_staff = staff, u_is_superuser = super, u_date_joined = now\<rparr>) (users s)
      of (r, t) \<Rightarrow> (r, s\<lparr>users := t\<rparr>))"

definition create_role :: "string \<Rightarrow> 'z db_scheme \<Rightarrow> (exn + role_row) \<times> 'z db_scheme" where
  "create_role name s =
     (case tbl_insert role_insert_check (\<lambda>i. \<lparr>r_id = i, r_name = name\<rparr>) (roles s)
      of (r, t) \<Rightarrow> (r, s\<lparr>roles := t\<rparr>))"

definition create_permission :: "string \<Rightarrow> 'z db_scheme \<Rightarrow> (exn + permission_row) \<times> 'z db_scheme" where
  "create_permission c s =
     (case tbl_insert permission_insert_check (\<lambda>i. \<lparr>p_id = i, p_code = c\<rparr>) (permissions s)
      of (r, t) \<Rightarrow> (r, s\<lparr>permissions := t\<rparr>))"

definition create_user_role :: "int \<Rightarrow> int \<Rightarrow> 'z db_scheme \<Rightarrow> (exn + user_role_row) \<times> 'z db_scheme" where
  "create_user_role uid rid s =
     (case tbl_insert (user_role_insert_check (map u_id (rows (users s))) (map r_id (rows (roles s))))
        (\<lambda>i. \<lparr>ur_id = i, ur_user_id = uid, ur_role_id = rid\<rparr>) (user_roles s)
      of (r, t) \<Rightarrow> (r, s\<lparr>user_roles := t\<rparr>))"

definition create_role_permission ::
  "int \<Rightarrow> int \<Rightarrow> 'z db_scheme \<Rightarrow> (exn + role_permission_row) \<times> 'z db_scheme" where
  "create_role_permission rid pid s =
     (case tbl_insert (role_permission_insert_check (map r_id (rows (roles s)))
          (map p_id (rows (permissions s))))
        (\<lambda>i. \<lparr>rp_id = i, rp_role_id = rid, rp_permission_id = pid\<rparr>) (role_permissions s)
      of (r, t) \<Rightarrow> (r, s\<lparr>role_permissions := t\<rparr>))"

definition create_refresh_token ::
  "(string \<Rightarrow> bool) \<Rightarrow> (int \<Rightarrow> refresh_token_row) \<Rightarrow> 'z db_scheme \<Rightarrow>
     (exn + refresh_token_row) \<times> 'z db_scheme" where
  "create_refresh_token inet_ok mk s =
     (case tbl_insert (refresh_token_insert_check inet_ok (map u_id (rows (users s)))) mk
        (refresh_tokens s)
      of (r, t) \<Rightarrow> (r, s\<lparr>refresh_tokens := t\<rparr>))"

definition create_audit_log ::
  "(string \<Rightarrow> bool) \<Rightarrow> (int \<Rightarrow> audit_log_row) \<Rightarrow> 'z db_scheme \<Rightarrow>
     (exn + audit_log_row) \<times> 'z db_scheme" where
  "create_audit_log inet_ok mk s =
     (case tbl_insert (audit_log_insert_check inet_ok) mk (audit_logs s)
      of (r, t) \<Rightarrow> (r, s\<lparr>audit_logs := t\<rparr>))"

text \<open>\<open>User.objects.filter(...).update(...)\<close> returns the number of rows matched.\<close>

definition update_users ::
  "(user_row \<Rightarrow> bool) \<Rightarrow> (user_row \<Rightarrow> user_row) \<Rightarrow> 'z db_scheme \<Rightarrow> (exn + nat) \<times> 'z db_scheme" where
  "update_users p f s =
     (case tbl_update user_update_check p f (users s) of (r, t) \<Rightarrow> (r, s\<lparr>users := t\<rparr>))"

text \<open>\<open>RefreshToken.objects.filter(...).update(revoked_at=...)\<close> touches no constrained column.\<close>

definition revoke_tokens ::
  "(refresh_token_row \<Rightarrow> bool) \<Rightarrow> time \<Rightarrow> 'z db_scheme \<Rightarrow> 'z db_scheme" where
  "revoke_tokens p at s =
     s\<lparr>refresh_tokens := (refresh_tokens s)
        \<lparr>rows := upd_where p (\<lambda>t. t\<lparr>t_revoked_at := Some at\<rparr>) (rows (refresh_tokens s))\<rparr>\<rparr>"

text \<open>
  \<open>User.objects.filter(...).delete()\<close> with the models' \<open>on_delete\<close> rules: role links and
  refresh tokens of the deleted users go with them (CASCADE), a remaining token whose parent
  went gets no parent (SET_NULL). Audit rows hold no foreign key and stay.
\<close>

definition clear_parent :: "int list \<Rightarrow> refresh_token_row \<Rightarrow> refresh_token_row" where
  "clear_parent gone t = (case t_parent_id t of
     Some p \<Rightarrow> if p \<in> set gone then t\<lparr>t_parent_id := None\<rparr> else t | None \<Rightarrow> t)"

definition delete_refresh_tokens ::
  "(refresh_token_row \<Rightarrow> bool) \<Rightarrow> 'z db_scheme \<Rightarrow> 'z db_scheme" where
  "delete_refresh_tokens p s =
     (let gone = map t_id (filter p (rows (refresh_tokens s)));
          t' = tbl_delete p (refresh_tokens s)
      in s\<lparr>refresh_tokens := t'\<lparr>rows := map (clear_parent gone) (rows t')\<rparr>\<rparr>)"

definition delete_users :: "(user_row \<Rightarrow> bool) \<Rightarrow> 'z db_scheme \<Rightarrow> nat \<times> 'z db_scheme" where
  "delete_users p s =
     (let gone = map u_id (filter p (rows (users s)));
          s1 = s\<lparr>user_roles := tbl_delete (\<lambda>l. ur_user_id l \<in> set gone) (user_roles s)\<rparr>;
          s2 = delete_refresh_tokens (\<lambda>t. t_user_id t \<in> set gone) s1
      in (length gone, s2\<lparr>users := tbl_delete p (users s2)\<rparr>))"

definition delete_roles :: "(role_row \<Rightarrow> bool) \<Rightarrow> 'z db_scheme \<Rightarrow> 'z db_scheme" where
  "delete_roles p s =
     (let gone = map r_id (filter p (rows (roles s)))
      in s\<lparr>roles := tbl_delete p (roles s),
           user_roles := tbl_delete (\<lambda>l. ur_role_id l \<in> set gone) (user_roles s),
           role_permissions := tbl_delete (\<lambda>l. rp_role_id l \<in> set gone) (role_permissions s)\<rparr>)"

definition delete_permissions :: "(permission_row \<Rightarrow> bool) \<Rightarrow> 'z db_scheme \<Rightarrow> 'z db_scheme" where
  "delete_permissions p s =
     (let gone = map p_id (filter p (rows (permissions s)))
      in s\<lparr>permissions := tbl_delete p (permissions s),
           role_permissions :=
             tbl_delete (\<lambda>l. rp_permission_id l \<in> set gone) (role_permissions s)\<rparr>)"

definition delete_role_permissions ::
  "(role_permission_row \<Rightarrow> bool) \<Rightarrow> 'z db_scheme \<Rightarrow> 'z db_scheme" where
  "delete_role_permissions p s = s\<lparr>role_permissions := tbl_delete p (role_permissions s)\<rparr>"

lemmas create_defs =
  create_user_def create_role_def create_permission_def create_user_role_def
  create_role_permission_def create_refresh_token_def create_audit_log_def

text \<open>
  A slice \<open>queryset[offset : offset + limit]\<close> becomes \<open>LIMIT limit OFFSET offset\<close>: PostgreSQL refuses an
  offset that is no 64-bit integer.
\<close>

definition sql_slice :: "int \<Rightarrow> int \<Rightarrow> 'r list \<Rightarrow> exn + 'r list" where
  "sql_slice offset limit rs = (if offset < 2 ^ 63 then Inr (page offset limit rs) else Inl DataError)"

subsection \<open>Transactions\<close>

definition restore_rows :: "'r table \<Rightarrow> 'r table \<Rightarrow> 'r table" where
  "restore_rows t t' = t'\<lparr>rows := rows t\<rparr>"

definition rollback :: "'z db_scheme \<Rightarrow> 'z db_scheme \<Rightarrow> 'z db_scheme" where
  "rollback s s' = s'\<lparr>
     users := restore_rows (users s) (users s'),
     permissions := restore_rows (permissions s) (permissions s'),
     roles := restore_rows (roles s) (roles s'),
     user_roles := restore_rows (user_roles s) (user_roles s'),
     role_permissions := restore_rows (role_permissions s) (role_permissions s'),
     refresh_tokens := restore_rows (refresh_tokens s) (refresh_tokens s'),
     audit_logs := restore_rows (audit_logs s) (audit_logs s')\<rparr>"

definition run_in_transaction ::
  "('z db_scheme \<Rightarrow> (exn + 'a) \<times> 'z db_scheme) \<Rightarrow> 'z db_scheme \<Rightarrow> (exn + 'a) \<times> 'z db_scheme" where
  "run_in_transaction fn s = (case fn s of
     (Inl e, s') \<Rightarrow> (Inl e, rollback s s')
   | (Inr x, s') \<Rightarrow> (Inr x, s'))"

text \<open>The rows of every table: what a reader of the database can see.\<close>

definition same_rows :: "'z db_scheme \<Rightarrow> 'z db_scheme \<Rightarrow> bool" where
  "same_rows s s' \<longleftrightarrow>
     rows (users s') = rows (users s) \<and> rows (permissions s') = rows (permissions s) \<and>
     rows (roles s') = rows (roles s) \<and> rows (user_roles s') = rows (user_roles s) \<and>
     rows (role_permissions s') = rows (role_permissions s) \<and>
     rows (refresh_tokens s') = rows (refresh_tokens s) \<and>
     rows (audit_logs s') = rows (audit_logs s)"

lemma same_rows_rollback: "same_rows s (rollback s s')"
  by (simp add: same_rows_def rollback_def restore_rows_def)

lemma run_in_transaction_atomic:
  "run_in_transaction fn s = (Inl e, s') \<Longrightarrow> same_rows s s'"
  by (auto simp: run_in_transaction_def same_rows_rollback split: prod.splits sum.splits)

lemma run_in_transaction_commit:
  "run_in_transaction fn s = (Inr x, s') \<longleftrightarrow> fn s = (Inr x, s')"
  by (auto simp: run_in_transaction_def split: prod.splits sum.splits)

end
