(* ===== verification/Integrity.thy ===== *)
theory Integrity
  imports Db
begin

text \<open>
  The data invariant \<open>db_ok\<close> the constraints of the models promise: ids and unique keys are
  distinct, texts fit their columns in every table, and every foreign key has its row. Every ORM call of
  the program keeps it, the refused ones and a rolled back transaction included.
\<close>

abbreviation user_ids :: "'z db_scheme \<Rightarrow> int set" where
  "user_ids s \<equiv> u_id ` set (rows (users s))"

abbreviation role_ids :: "'z db_scheme \<Rightarrow> int set" where
  "role_ids s \<equiv> r_id ` set (rows (roles s))"

abbreviation permission_ids :: "'z db_scheme \<Rightarrow> int set" where
  "permission_ids s \<equiv> p_id ` set (rows (permissions s))"

definition users_ok :: "'z db_scheme \<Rightarrow> bool" where
  "users_ok s \<longleftrightarrow> ids_ok u_id (users s) \<and> distinct (map email_key (rows (users s))) \<and>
     list_all user_fits (rows (users s))"

definition catalog_ok :: "'z db_scheme \<Rightarrow> bool" where
  "catalog_ok s \<longleftrightarrow> ids_ok p_id (permissions s) \<and> distinct (map p_code (rows (permissions s))) \<and>
     ids_ok r_id (roles s) \<and> distinct (map r_name (rows (roles s)))"

definition links_ok :: "'z db_scheme \<Rightarrow> bool" where
  "links_ok s \<longleftrightarrow> ids_ok ur_id (user_roles s) \<and> distinct (map ur_pair (rows (user_roles s))) \<and>
     (\<forall>l \<in> set (rows (user_roles s)). ur_user_id l \<in> user_ids s \<and> ur_role_id l \<in> role_ids s)"

definition grants_ok :: "'z db_scheme \<Rightarrow> bool" where
  "grants_ok s \<longleftrightarrow> ids_ok rp_id (role_permissions s) \<and>
     distinct (map rp_pair (rows (role_permissions s))) \<and>
     (\<forall>l \<in> set (rows (role_permissions s)).
        rp_role_id l \<in> role_ids s \<and> rp_permission_id l \<in> permission_ids s)"

definition token_links_ok :: "int set \<Rightarrow> refresh_token_row list \<Rightarrow> bool" where
  "token_links_ok uids rs \<longleftrightarrow> (\<forall>t \<in> set rs. t_user_id t \<in> uids \<and>
     (\<forall>p. t_parent_id t = Some p \<longrightarrow> p \<in> t_id ` set rs))"

definition tokens_ok :: "'z db_scheme \<Rightarrow> bool" where
  "tokens_ok s \<longleftrightarrow> ids_ok t_id (refresh_tokens s) \<and>
     distinct (map t_token_hash (rows (refresh_tokens s))) \<and>
     token_links_ok (user_ids s) (rows (refresh_tokens s))"

definition audit_ok :: "'z db_scheme \<Rightarrow> bool" where
  "audit_ok s \<longleftrightarrow> ids_ok a_id (audit_logs s)"

text \<open>The lengths of the texts in the other tables.\<close>

definition columns_ok :: "'z db_scheme \<Rightarrow> bool" where
  "columns_ok s \<longleftrightarrow> list_all role_fits (rows (roles s)) \<and>
     list_all permission_fits (rows (permissions s)) \<and>
     list_all token_fits (rows (refresh_tokens s)) \<and> list_all audit_fits (rows (audit_logs s))"

definition db_ok :: "'z db_scheme \<Rightarrow> bool" where
  "db_ok s \<longleftrightarrow> users_ok s \<and> catalog_ok s \<and> links_ok s \<and> grants_ok s \<and> tokens_ok s \<and> audit_ok s \<and>
     columns_ok s"

lemmas ok_defs =
  users_ok_def catalog_ok_def links_ok_def grants_ok_def tokens_ok_def audit_ok_def columns_ok_def

lemma db_ok_empty: "db_ok empty_db"
  by (simp add: db_ok_def ok_defs empty_db_def token_links_ok_def)
    (simp add: empty_table_def)

subsection \<open>Insertions\<close>

lemma distinct_insert:
  assumes "tbl_insert check mk t = (res, t')" "distinct (map k (rows t))"
    and "\<And>r. check (rows t) r = None \<Longrightarrow> k r \<notin> set (map k (rows t))"
  shows "distinct (map k (rows t'))"
  using assms(1) by (cases rule: tbl_insert_cases) (use assms in auto)

lemma list_all_insert:
  assumes "tbl_insert check mk t = (res, t')" "list_all P (rows t)"
    and "\<And>r. check (rows t) r = None \<Longrightarrow> P r"
  shows "list_all P (rows t')"
  using assms(1) by (cases rule: tbl_insert_cases) (use assms in auto)

lemma list_all_filter: "list_all P rs \<Longrightarrow> list_all P (filter p rs)"
  by (simp add: list_all_iff)

lemma list_all_upd_where: "(\<And>r. P (f r) = P r) \<Longrightarrow> list_all P (upd_where p f rs) = list_all P rs"
  by (simp add: list_all_iff ball_upd_where_same)

lemma set_rows_insert:
  assumes "tbl_insert check mk t = (res, t')"
  shows "set (rows t) \<subseteq> set (rows t')"
  using assms by (cases rule: tbl_insert_cases) auto

lemma db_ok_create_user [inv_pres]:
  assumes "db_ok s" "create_user e pw a st su now s = (res, s')"
  shows "db_ok s'"
proof -
  from assms(2) obtain t where t:
    "tbl_insert user_insert_check (\<lambda>i. \<lparr>u_id = i, u_email = e, u_password = pw, u_is_active = a,
       u_is_staff = st, u_is_superuser = su, u_date_joined = now\<rparr>) (users s) = (res, t)"
    and s': "s' = s\<lparr>users := t\<rparr>"
    by (auto simp: create_user_def split: prod.splits)
  have u: "users_ok s" using assms(1) by (simp add: db_ok_def)
  have "ids_ok u_id t"
    by (rule ids_ok_insert [OF _ _ t]) (use u in \<open>simp_all add: users_ok_def\<close>)
  moreover have "distinct (map email_key (rows t))"
    using u by (intro distinct_insert [OF t]) (auto simp: users_ok_def user_insert_check_def split: if_splits)
  moreover have "list_all user_fits (rows t)"
    using t u by (cases rule: tbl_insert_cases)
      (auto simp: users_ok_def user_insert_check_def split: if_splits)
  ultimately have "users_ok s'" by (simp add: users_ok_def s')
  moreover have "user_ids s \<subseteq> user_ids s'"
    using set_rows_insert [OF t] by (auto simp: s')
  ultimately show ?thesis
    using assms(1) by (auto simp: db_ok_def ok_defs token_links_ok_def s')
qed

lemma db_ok_create_role [inv_pres]:
  assumes "db_ok s" "create_role nm s = (res, s')"
  shows "db_ok s'"
proof -
  from assms(2) obtain t where t:
    "tbl_insert role_insert_check (\<lambda>i. \<lparr>r_id = i, r_name = nm\<rparr>) (roles s) = (res, t)"
    and s': "s' = s\<lparr>roles := t\<rparr>"
    by (auto simp: create_role_def split: prod.splits)
  have u: "catalog_ok s" using assms(1) by (simp add: db_ok_def)
  have "ids_ok r_id t"
    by (rule ids_ok_insert [OF _ _ t]) (use u in \<open>simp_all add: catalog_ok_def\<close>)
  moreover have "distinct (map r_name (rows t))"
    using u by (intro distinct_insert [OF t])
      (auto simp: catalog_ok_def role_insert_check_def split: if_splits)
  moreover have "list_all role_fits (rows t)"
    using assms(1) by (intro list_all_insert [OF t])
      (auto simp: db_ok_def columns_ok_def role_insert_check_def role_fits_def split: if_splits)
  moreover have "role_ids s \<subseteq> role_ids s'"
    using set_rows_insert [OF t] by (auto simp: s')
  ultimately show ?thesis
    using assms(1) by (auto simp: db_ok_def ok_defs s')
qed

lemma db_ok_create_permission [inv_pres]:
  assumes "db_ok s" "create_permission c s = (res, s')"
  shows "db_ok s'"
proof -
  from assms(2) obtain t where t:
    "tbl_insert permission_insert_check (\<lambda>i. \<lparr>p_id = i, p_code = c\<rparr>) (permissions s) = (res, t)"
    and s': "s' = s\<lparr>permissions := t\<rparr>"
    by (auto simp: create_permission_def split: prod.splits)
  have u: "catalog_ok s" using assms(1) by (simp add: db_ok_def)
  have "ids_ok p_id t"
    by (rule ids_ok_insert [OF _ _ t]) (use u in \<open>simp_all add: catalog_ok_def\<close>)
  moreover have "distinct (map p_code (rows t))"
    using u by (intro distinct_insert [OF t])
      (auto simp: catalog_ok_def permission_insert_check_def split: if_splits)
  moreover have "list_all permission_fits (rows t)"
    using assms(1) by (intro list_all_insert [OF t])
      (auto simp: db_ok_def columns_ok_def permission_insert_check_def permission_fits_def split: if_splits)
  moreover have "permission_ids s \<subseteq> permission_ids s'"
    using set_rows_insert [OF t] by (auto simp: s')
  ultimately show ?thesis
    using assms(1) by (auto simp: db_ok_def ok_defs s')
qed

lemma db_ok_create_user_role [inv_pres]:
  assumes "db_ok s" "create_user_role uid rid s = (res, s')"
  shows "db_ok s'"
proof -
  from assms(2) obtain t where t:
    "tbl_insert (user_role_insert_check (map u_id (rows (users s))) (map r_id (rows (roles s))))
       (\<lambda>i. \<lparr>ur_id = i, ur_user_id = uid, ur_role_id = rid\<rparr>) (user_roles s) = (res, t)"
    and s': "s' = s\<lparr>user_roles := t\<rparr>"
    by (auto simp: create_user_role_def split: prod.splits)
  have u: "links_ok s" using assms(1) by (simp add: db_ok_def)
  have "ids_ok ur_id t"
    by (rule ids_ok_insert [OF _ _ t]) (use u in \<open>simp_all add: links_ok_def\<close>)
  moreover have "distinct (map ur_pair (rows t))"
    using u by (intro distinct_insert [OF t])
      (auto simp: links_ok_def user_role_insert_check_def split: if_splits)
  moreover have "\<forall>l \<in> set (rows t). ur_user_id l \<in> user_ids s \<and> ur_role_id l \<in> role_ids s"
    using t u by (cases rule: tbl_insert_cases)
      (auto simp: links_ok_def user_role_insert_check_def split: if_splits)
  ultimately show ?thesis
    using assms(1) by (auto simp: db_ok_def ok_defs s')
qed

lemma db_ok_create_role_permission [inv_pres]:
  assumes "db_ok s" "create_role_permission rid pid s = (res, s')"
  shows "db_ok s'"
proof -
  from assms(2) obtain t where t:
    "tbl_insert (role_permission_insert_check (map r_id (rows (roles s)))
       (map p_id (rows (permissions s))))
       (\<lambda>i. \<lparr>rp_id = i, rp_role_id = rid, rp_permission_id = pid\<rparr>) (role_permissions s) = (res, t)"
    and s': "s' = s\<lparr>role_permissions := t\<rparr>"
    by (auto simp: create_role_permission_def split: prod.splits)
  have u: "grants_ok s" using assms(1) by (simp add: db_ok_def)
  have "ids_ok rp_id t"
    by (rule ids_ok_insert [OF _ _ t]) (use u in \<open>simp_all add: grants_ok_def\<close>)
  moreover have "distinct (map rp_pair (rows t))"
    using u by (intro distinct_insert [OF t])
      (auto simp: grants_ok_def role_permission_insert_check_def split: if_splits)
  moreover have "\<forall>l \<in> set (rows t). rp_role_id l \<in> role_ids s \<and> rp_permission_id l \<in> permission_ids s"
    using t u by (cases rule: tbl_insert_cases)
      (auto simp: grants_ok_def role_permission_insert_check_def split: if_splits)
  ultimately show ?thesis
    using assms(1) by (auto simp: db_ok_def ok_defs s')
qed

lemma db_ok_create_refresh_token [inv_pres]:
  assumes "db_ok s" "create_refresh_token inet_ok mk s = (res, s')" "\<And>i. t_id (mk i) = i"
  shows "db_ok s'"
proof -
  from assms(2) obtain t where t:
    "tbl_insert (refresh_token_insert_check inet_ok (map u_id (rows (users s)))) mk
       (refresh_tokens s) = (res, t)"
    and s': "s' = s\<lparr>refresh_tokens := t\<rparr>"
    by (auto simp: create_refresh_token_def split: prod.splits)
  have u: "tokens_ok s" using assms(1) by (simp add: db_ok_def)
  have "ids_ok t_id t"
    by (rule ids_ok_insert [OF _ _ t]) (use u assms(3) in \<open>simp_all add: tokens_ok_def\<close>)
  moreover have "distinct (map t_token_hash (rows t))"
    using u by (intro distinct_insert [OF t])
      (auto simp: tokens_ok_def refresh_token_insert_check_def split: if_splits)
  moreover have "list_all token_fits (rows t)"
    using assms(1) by (intro list_all_insert [OF t])
      (auto simp: db_ok_def columns_ok_def refresh_token_insert_check_def token_fits_def split: if_splits)
  moreover have "token_links_ok (user_ids s) (rows t)"
    using t u by (cases rule: tbl_insert_cases)
      (auto simp: tokens_ok_def token_links_ok_def refresh_token_insert_check_def
         split: if_splits option.splits)
  ultimately show ?thesis
    using assms(1) by (auto simp: db_ok_def ok_defs s')
qed

lemma db_ok_create_audit_log [inv_pres]:
  assumes "db_ok s" "create_audit_log inet_ok mk s = (res, s')" "\<And>i. a_id (mk i) = i"
  shows "db_ok s'"
proof -
  from assms(2) obtain t where t:
    "tbl_insert (audit_log_insert_check inet_ok) mk (audit_logs s) = (res, t)"
    and s': "s' = s\<lparr>audit_logs := t\<rparr>"
    by (auto simp: create_audit_log_def split: prod.splits)
  have "ids_ok a_id t"
    by (rule ids_ok_insert [OF _ _ t]) (use assms(1,3) in \<open>simp_all add: db_ok_def audit_ok_def\<close>)
  moreover have "list_all audit_fits (rows t)"
    using assms(1) by (intro list_all_insert [OF t])
      (auto simp: db_ok_def columns_ok_def audit_log_insert_check_def audit_fits_def split: if_splits)
  ultimately show ?thesis
    using assms(1) by (auto simp: db_ok_def ok_defs s')
qed

subsection \<open>Updates and deletions\<close>

lemma db_ok_update_users [inv_pres]:
  assumes "db_ok s" "update_users p f s = (res, s')" "\<And>r. u_id (f r) = u_id r"
  shows "db_ok s'"
proof -
  from assms(2) obtain t where t: "tbl_update user_update_check p f (users s) = (res, t)"
    and s': "s' = s\<lparr>users := t\<rparr>"
    by (auto simp: update_users_def split: prod.splits)
  have u: "users_ok s" using assms(1) by (simp add: db_ok_def)
  have ids: "map u_id (rows t) = map u_id (rows (users s))"
    using t by (auto simp: tbl_update_def Let_def map_upd_where assms(3) split: option.splits)
  have "ids_ok u_id t"
    by (rule ids_ok_update [OF _ _ t]) (use u assms(3) in \<open>simp_all add: users_ok_def\<close>)
  moreover have "distinct (map email_key (rows t)) \<and> list_all user_fits (rows t)"
    using t u by (auto simp: tbl_update_def Let_def users_ok_def user_update_check_def
        split: option.splits if_splits)
  ultimately have "users_ok s'" by (simp add: users_ok_def s')
  moreover have "user_ids s' = user_ids s"
    using arg_cong [OF ids, of set] by (simp add: s')
  ultimately show ?thesis
    using assms(1) by (auto simp: db_ok_def ok_defs token_links_ok_def s')
qed

lemma token_links_ok_upd:
  assumes "\<And>t. t_id (f t) = t_id t" "\<And>t. t_user_id (f t) = t_user_id t"
    "\<And>t. t_parent_id (f t) = t_parent_id t"
  shows "token_links_ok uids (upd_where p f rs) \<longleftrightarrow> token_links_ok uids rs"
proof -
  have "map t_id (upd_where p f rs) = map t_id rs" by (simp add: map_upd_where assms)
  then have "t_id ` set (upd_where p f rs) = t_id ` set rs" by (metis set_map)
  then show ?thesis unfolding token_links_ok_def by (simp add: ball_upd_where_same assms)
qed

lemma ids_ok_upd_rows:
  assumes "\<And>r. rid (f r) = rid r"
  shows "ids_ok rid (t\<lparr>rows := upd_where p f (rows t)\<rparr>) \<longleftrightarrow> ids_ok rid t"
  using assms by (simp add: ids_ok_def map_upd_where ball_upd_where_same)

lemma token_fits_revoked [simp]: "token_fits (t\<lparr>t_revoked_at := r\<rparr>) = token_fits t"
  by (simp add: token_fits_def)

lemma db_ok_revoke_tokens [inv_pres]: "db_ok s \<Longrightarrow> db_ok (revoke_tokens p at s)"
  by (simp add: db_ok_def ok_defs revoke_tokens_def ids_ok_upd_rows map_upd_where
      token_links_ok_upd list_all_upd_where)

lemma distinct_map_filter_mono: "distinct (map k rs) \<Longrightarrow> distinct (map k (filter p rs))"
  by (simp add: distinct_map inj_on_def)

lemma clear_parent_simps [simp]:
  "t_id (clear_parent g t) = t_id t" "t_user_id (clear_parent g t) = t_user_id t"
  "t_token_hash (clear_parent g t) = t_token_hash t"
  "t_family_id (clear_parent g t) = t_family_id t"
  "t_device_hash (clear_parent g t) = t_device_hash t"
  "t_issued_ip (clear_parent g t) = t_issued_ip t"
  "t_expires_at (clear_parent g t) = t_expires_at t"
  "t_revoked_at (clear_parent g t) = t_revoked_at t"
  by (auto simp: clear_parent_def split: option.splits)

lemma clear_parent_fits [simp]: "token_fits (clear_parent g t) = token_fits t"
  by (simp add: token_fits_def)

lemma clear_parent_Some:
  "t_parent_id (clear_parent g t) = Some p \<longleftrightarrow> t_parent_id t = Some p \<and> p \<notin> set g"
  by (auto simp: clear_parent_def split: option.splits)

lemma token_links_ok_delete:
  assumes "token_links_ok uids rs"
  shows "token_links_ok uids
    (map (clear_parent (map t_id (filter p rs))) (filter (\<lambda>t. \<not> p t) rs))"
  using assms by (fastforce simp: token_links_ok_def clear_parent_Some image_iff)

lemma tokens_ok_delete:
  assumes "tokens_ok s"
  shows "tokens_ok (delete_refresh_tokens p s)"
proof -
  let ?rs = "rows (refresh_tokens s)"
  have "map t_id (map (clear_parent g) rs) = map t_id rs" for g rs by simp
  moreover have "map t_token_hash (map (clear_parent g) rs) = map t_token_hash rs" for g rs
    by simp
  ultimately show ?thesis
    using assms token_links_ok_delete [of "user_ids s" ?rs p]
    by (auto simp: tokens_ok_def delete_refresh_tokens_def Let_def tbl_delete_def ids_ok_def
        distinct_map_filter_mono comp_def)
qed

lemma db_ok_delete_users [inv_pres]:
  assumes "db_ok s" "delete_users p s = (n, s')"
  shows "db_ok s'"
proof -
  let ?gone = "map u_id (filter p (rows (users s)))"
  let ?s1 = "s\<lparr>user_roles := tbl_delete (\<lambda>l. ur_user_id l \<in> set ?gone) (user_roles s)\<rparr>"
  let ?s2 = "delete_refresh_tokens (\<lambda>t. t_user_id t \<in> set ?gone) ?s1"
  have s': "s' = ?s2\<lparr>users := tbl_delete p (users s)\<rparr>"
    using assms(2) by (auto simp: delete_users_def Let_def delete_refresh_tokens_def)
  have ids: "user_ids s' = user_ids s - set ?gone"
    using assms(1)
    by (auto simp: s' tbl_delete_def db_ok_def users_ok_def ids_ok_def distinct_map
        dest: inj_onD)
  have "tokens_ok ?s2"
    using assms(1) by (intro tokens_ok_delete) (simp add: db_ok_def tokens_ok_def)
  moreover have "\<forall>t \<in> set (rows (refresh_tokens ?s2)). t_user_id t \<notin> set ?gone"
    by (auto simp: delete_refresh_tokens_def Let_def tbl_delete_def)
  moreover have "refresh_tokens s' = refresh_tokens ?s2" by (simp add: s')
  moreover have "user_ids ?s2 = user_ids s" by (simp add: delete_refresh_tokens_def Let_def)
  ultimately have "tokens_ok s'"
    unfolding tokens_ok_def token_links_ok_def ids by (metis DiffI)
  moreover have "users_ok s'"
    using assms(1) by (auto simp: db_ok_def users_ok_def s' ids_ok_def tbl_delete_def
        distinct_map_filter_mono list_all_iff)
  moreover have "columns_ok s'"
    using assms(1) by (auto simp: db_ok_def columns_ok_def s' delete_refresh_tokens_def Let_def
        tbl_delete_def list_all_iff)
  moreover have "links_ok s'"
    using assms(1) ids by (auto simp: db_ok_def links_ok_def s' ids_ok_def tbl_delete_def
        distinct_map_filter_mono delete_refresh_tokens_def Let_def)
  ultimately show ?thesis
    using assms(1) by (auto simp: db_ok_def catalog_ok_def grants_ok_def audit_ok_def s'
        delete_refresh_tokens_def Let_def)
qed

lemma ids_after_delete:
  "distinct (map k rs) \<Longrightarrow> k ` set (filter (\<lambda>r. \<not> p r) rs) = k ` set rs - k ` set (filter p rs)"
  by (auto simp: distinct_map dest: inj_onD)

lemma db_ok_delete_roles [inv_pres]:
  assumes "db_ok s"
  shows "db_ok (delete_roles p s)"
proof -
  have ids: "role_ids (delete_roles p s) = role_ids s - r_id ` set (filter p (rows (roles s)))"
    using assms ids_after_delete [of r_id "rows (roles s)" p]
    by (simp add: delete_roles_def Let_def tbl_delete_def db_ok_def catalog_ok_def ids_ok_def)
  show ?thesis
    using assms ids
    by (auto simp: db_ok_def ok_defs delete_roles_def Let_def tbl_delete_def ids_ok_def
        distinct_map_filter_mono list_all_filter)
qed

lemma db_ok_delete_permissions [inv_pres]:
  assumes "db_ok s"
  shows "db_ok (delete_permissions p s)"
proof -
  have ids: "permission_ids (delete_permissions p s) =
      permission_ids s - p_id ` set (filter p (rows (permissions s)))"
    using assms ids_after_delete [of p_id "rows (permissions s)" p]
    by (simp add: delete_permissions_def Let_def tbl_delete_def db_ok_def catalog_ok_def ids_ok_def)
  show ?thesis
    using assms ids
    by (auto simp: db_ok_def ok_defs delete_permissions_def Let_def tbl_delete_def ids_ok_def
        distinct_map_filter_mono list_all_filter)
qed

lemma db_ok_delete_role_permissions [inv_pres]:
  "db_ok s \<Longrightarrow> db_ok (delete_role_permissions p s)"
  by (auto simp: db_ok_def ok_defs delete_role_permissions_def tbl_delete_def ids_ok_def
      distinct_map_filter_mono list_all_filter)

subsection \<open>Transactions\<close>

text \<open>Sequences only move forward, so the restored rows still have ids below them.\<close>

definition seq_le :: "'z db_scheme \<Rightarrow> 'y db_scheme \<Rightarrow> bool" where
  "seq_le s s' \<longleftrightarrow>
     next_id (users s) \<le> next_id (users s') \<and>
     next_id (permissions s) \<le> next_id (permissions s') \<and>
     next_id (roles s) \<le> next_id (roles s') \<and>
     next_id (user_roles s) \<le> next_id (user_roles s') \<and>
     next_id (role_permissions s) \<le> next_id (role_permissions s') \<and>
     next_id (refresh_tokens s) \<le> next_id (refresh_tokens s') \<and>
     next_id (audit_logs s) \<le> next_id (audit_logs s')"

lemma seq_le_refl [simp]: "seq_le s s"
  by (simp add: seq_le_def)

lemma seq_le_trans: "seq_le s t \<Longrightarrow> seq_le t u \<Longrightarrow> seq_le s u"
  by (auto simp: seq_le_def)

lemma ids_ok_restore: "ids_ok k t \<Longrightarrow> next_id t \<le> next_id t' \<Longrightarrow> ids_ok k (restore_rows t t')"
  by (fastforce simp: ids_ok_def restore_rows_def)

lemma rows_restore [simp]: "rows (restore_rows t t') = rows t"
  by (simp add: restore_rows_def)

lemma db_ok_rollback:
  assumes "db_ok s" "seq_le s s'"
  shows "db_ok (rollback s s')"
  using assms by (auto simp: db_ok_def ok_defs rollback_def seq_le_def ids_ok_restore)

lemma next_id_insert: "tbl_insert check mk t = (res, t') \<Longrightarrow> next_id t' = next_id t + 1"
  by (erule tbl_insert_cases) auto

lemma seq_le_create [inv_pres]:
  "create_user e pw a st su now s = (r1, s') \<Longrightarrow> seq_le s s'"
  "create_user_role uid rid s = (r2, s') \<Longrightarrow> seq_le s s'"
  "create_refresh_token inet_ok mk s = (r3, s') \<Longrightarrow> seq_le s s'"
  by (auto simp: create_defs seq_le_def next_id_insert split: prod.splits)

lemma seq_le_revoke_tokens [simp]: "seq_le s (revoke_tokens p at s)"
  by (simp add: seq_le_def revoke_tokens_def)

lemma db_ok_run_in_transaction [inv_pres]:
  assumes "db_ok s" "run_in_transaction fn s = (res, s')"
    and "\<And>r t. fn s = (r, t) \<Longrightarrow> db_ok t \<and> seq_le s t"
  shows "db_ok s'"
  using assms by (auto simp: run_in_transaction_def db_ok_rollback split: prod.splits sum.splits)

end
