(* ===== verification/Jwt.thy ===== *)
theory Jwt
  imports Db
begin

text \<open>
  Access tokens: \<open>apps/authz/security/jwt.py\<close>, and the password helpers of
  \<open>apps/authz/security/passwords.py\<close>.

  PyJWT is a parameter: \<open>enc payload secret\<close> is \<open>jwt.encode\<close> with HS256, and
  \<open>dec now required token secret\<close> is \<open>jwt.decode\<close> at time \<open>now\<close>, with its exceptions as an
  \<open>Inl\<close>. \<open>jwt_law\<close> states what PyJWT documents of the two for one payload: a token decodes
  under its secret to its payload, with the dates as whole seconds, from the second it was
  issued until it expires, and is refused outside that time. Django's hashers are the
  parameters \<open>mkpw\<close> and \<open>check\<close>.
\<close>

type_synonym payload = "(string \<times> pyval) list"
type_synonym jwt_encode = "payload \<Rightarrow> string \<Rightarrow> string"
type_synonym jwt_decode = "time \<Rightarrow> string list \<Rightarrow> string \<Rightarrow> string \<Rightarrow> exn + payload"

definition numeric_dates :: "payload \<Rightarrow> payload" where
  "numeric_dates = map (\<lambda>(k, v). (k, case v of
     PDatetime t \<Rightarrow> if k \<in> {''exp'', ''iat'', ''nbf''} then PInt (t div sec) else v | _ \<Rightarrow> v))"

definition jwt_law :: "jwt_encode \<Rightarrow> jwt_decode \<Rightarrow> string \<Rightarrow> payload \<Rightarrow> bool" where
  "jwt_law enc dec secret p \<longleftrightarrow> (\<forall>now required iat exp.
     set required \<subseteq> fst ` set p \<and>
     map_of p ''iat'' = Some (PDatetime iat) \<and> map_of p ''exp'' = Some (PDatetime exp) \<longrightarrow>
     dec now required (enc p secret) secret =
       (if exp div sec * sec \<le> now \<or> now < iat div sec * sec
        then Inl InvalidTokenError else Inr (numeric_dates p)))"

subsection \<open>Claims\<close>

record access_token_claims =
  c_subject :: string
  c_expires_at :: time
  c_issued_at :: time
  c_token_id :: string
  c_roles :: "string set"
  c_permissions :: "string set"

datatype token_subject = SubjInt int | SubjStr string

primrec str_of_subject :: "token_subject \<Rightarrow> string" where
  "str_of_subject (SubjInt i) = str_of_int i"
| "str_of_subject (SubjStr s) = s"

text \<open>\<open>datetime + timedelta\<close>\<close>

definition add_timedelta :: "time \<Rightarrow> time \<Rightarrow> exn + time" where
  "add_timedelta t d = (if datetime_ok (t + d) then Inr (t + d) else Inl OverflowError)"

definition access_payload ::
  "string \<Rightarrow> time \<Rightarrow> time \<Rightarrow> string \<Rightarrow> string set \<Rightarrow> string set \<Rightarrow> payload" where
  "access_payload subject expires issued_at jti role_names perm_codes =
     [(''sub'', PStr subject), (''exp'', PDatetime expires), (''iat'', PDatetime issued_at),
      (''jti'', PStr jti), (''roles'', PList (map PStr (sorted_list_of_set role_names))),
      (''perms'', PList (map PStr (sorted_list_of_set perm_codes)))]"

text \<open>
  \<open>secret\<close>, \<open>lifetime\<close> and \<open>now\<close> are the optional arguments; a \<open>datetime\<close> is whether it is
  aware and its time. \<open>jti\<close> is the value \<open>uuid4()\<close> returns and \<open>clock\<close> the current time. A
  zero lifetime is false, so the setting is taken.
\<close>

definition encode_access_token ::
  "jwt_encode \<Rightarrow> string \<Rightarrow> time \<Rightarrow> time \<Rightarrow> string \<Rightarrow> token_subject \<Rightarrow> string set \<Rightarrow> string set \<Rightarrow>
     string option \<Rightarrow> time option \<Rightarrow> (bool \<times> time) option \<Rightarrow> exn + string" where
  "encode_access_token enc jwt_secret access_lifetime clock jti subject role_names perm_codes
       secret lifetime now =
     (let (aware, issued_at) = (case now of Some n \<Rightarrow> n | None \<Rightarrow> (True, clock));
          d = (case lifetime of Some l \<Rightarrow> if l = 0 then access_lifetime else l
               | None \<Rightarrow> access_lifetime);
          signing_secret = (case secret of Some k \<Rightarrow> k | None \<Rightarrow> jwt_secret)
      in if \<not> aware then Inl (ValueError ''now must be timezone-aware'')
         else case add_timedelta issued_at d of
           Inl e \<Rightarrow> Inl e
         | Inr expires \<Rightarrow> Inr (enc (access_payload (str_of_subject subject) expires issued_at jti
             role_names perm_codes) signing_secret))"

text \<open>\<open>datetime.fromtimestamp(n, UTC)\<close>, with the limits of the C library's \<open>gmtime\<close>.\<close>

definition fromtimestamp :: "int \<Rightarrow> exn + time" where
  "fromtimestamp n =
     (if n < - (2 ^ 63) \<or> 2 ^ 63 \<le> n then Inl OverflowError
      else if n < -67768040609740800 \<or> 67768036191676799 < n then Inl OSError
      else if datetime_ok (n * sec) then Inr (n * sec)
      else Inl (ValueError ''year is out of range''))"

text \<open>\<open>isinstance(v, int)\<close>: a \<open>bool\<close> is an \<open>int\<close>.\<close>

fun int_value :: "pyval \<Rightarrow> int option" where
  "int_value (PInt n) = Some n"
| "int_value (PBool b) = Some (if b then 1 else 0)"
| "int_value _ = None"

fun str_value :: "pyval \<Rightarrow> string option" where
  "str_value (PStr s) = Some s"
| "str_value _ = None"

fun str_list :: "pyval \<Rightarrow> string list option" where
  "str_list (PList vs) = those (map str_value vs)"
| "str_list _ = None"

definition parse_values ::
  "pyval \<Rightarrow> pyval \<Rightarrow> pyval \<Rightarrow> pyval \<Rightarrow> pyval \<Rightarrow> pyval \<Rightarrow> exn + access_token_claims" where
  "parse_values subject token_id role_names perm_codes issued_at expires_at =
     (case str_value subject of
        None \<Rightarrow> Inl (ValueError ''sub must be a non-empty string'')
      | Some s \<Rightarrow> if s = [] then Inl (ValueError ''sub must be a non-empty string'') else
     (case str_value token_id of
        None \<Rightarrow> Inl (ValueError ''jti must be a non-empty string'')
      | Some j \<Rightarrow> if j = [] then Inl (ValueError ''jti must be a non-empty string'') else
     (case str_list role_names of
        None \<Rightarrow> Inl (ValueError ''roles must be a list of strings'')
      | Some rs \<Rightarrow>
     (case str_list perm_codes of
        None \<Rightarrow> Inl (ValueError ''perms must be a list of strings'')
      | Some ps \<Rightarrow>
     (case (int_value issued_at, int_value expires_at) of
        (Some i, Some x) \<Rightarrow>
          (case fromtimestamp x of Inl e \<Rightarrow> Inl e | Inr xt \<Rightarrow>
          (case fromtimestamp i of Inl e \<Rightarrow> Inl e | Inr it \<Rightarrow>
             Inr \<lparr>c_subject = s, c_expires_at = xt, c_issued_at = it, c_token_id = j,
                  c_roles = set rs, c_permissions = set ps\<rparr>))
      | _ \<Rightarrow> Inl (ValueError ''iat and exp must be integer timestamps''))))))"

definition get_claim :: "string \<Rightarrow> payload \<Rightarrow> exn + pyval" where
  "get_claim k p = (case map_of p k of Some v \<Rightarrow> Inr v | None \<Rightarrow> Inl (KeyError k))"

definition parse_claims :: "payload \<Rightarrow> exn + access_token_claims" where
  "parse_claims p =
     bind_sum (get_claim ''sub'' p) (\<lambda>subject.
     bind_sum (get_claim ''jti'' p) (\<lambda>token_id.
     bind_sum (get_claim ''roles'' p) (\<lambda>role_names.
     bind_sum (get_claim ''perms'' p) (\<lambda>perm_codes.
     bind_sum (get_claim ''iat'' p) (\<lambda>issued_at.
     bind_sum (get_claim ''exp'' p) (\<lambda>expires_at.
       parse_values subject token_id role_names perm_codes issued_at expires_at))))))"

definition REQUIRED_CLAIMS :: "string list" where
  "REQUIRED_CLAIMS = [''sub'', ''exp'', ''iat'', ''jti'', ''roles'', ''perms'']"

fun decode_handler :: "exn \<Rightarrow> exn" where
  "decode_handler InvalidTokenError = raise_domain InvalidToken"
| "decode_handler (KeyError _) = raise_domain InvalidToken"
| "decode_handler (TypeError _) = raise_domain InvalidToken"
| "decode_handler (ValueError _) = raise_domain InvalidToken"
| "decode_handler e = e"

definition decode_access_token ::
  "jwt_decode \<Rightarrow> string \<Rightarrow> time \<Rightarrow> string \<Rightarrow> string option \<Rightarrow> exn + access_token_claims" where
  "decode_access_token dec jwt_secret now token secret =
     (let signing_secret = (case secret of Some k \<Rightarrow> k | None \<Rightarrow> jwt_secret)
      in case bind_sum (dec now REQUIRED_CLAIMS token signing_secret) parse_claims of
           Inl e \<Rightarrow> Inl (decode_handler e)
         | Inr c \<Rightarrow> Inr c)"

subsection \<open>Passwords\<close>

type_synonym make_password = "string \<Rightarrow> string option \<Rightarrow> string"
type_synonym check_password = "string \<Rightarrow> string \<Rightarrow> bool"

definition DUMMY_PASSWORD_HASH :: "make_password \<Rightarrow> string \<Rightarrow> string" where
  "DUMMY_PASSWORD_HASH mkpw import_salt = mkpw import_salt (Some ''not-a-real-password'')"

definition hash_password :: "make_password \<Rightarrow> string \<Rightarrow> string \<Rightarrow> string" where
  "hash_password mkpw salt password = mkpw salt (Some password)"

text \<open>The result, with the hash the hasher was run on: the same work for an unknown user.\<close>

definition verify_password ::
  "check_password \<Rightarrow> string \<Rightarrow> string \<Rightarrow> string option \<Rightarrow> bool \<times> string" where
  "verify_password check dummy password encoded =
     (let password_hash = (case encoded of Some h \<Rightarrow> if h = [] then dummy else h | None \<Rightarrow> dummy);
          is_valid = check password password_hash
      in (if encoded \<noteq> None \<and> encoded \<noteq> Some [] then is_valid else False, password_hash))"

subsection \<open>What decoding accepts\<close>

lemma str_value_eq: "str_value v = Some s \<longleftrightarrow> v = PStr s"
  by (cases v) auto

lemma str_list_PStr [simp]: "str_list (PList (map PStr xs)) = Some xs"
  by (induction xs) simp_all

lemma fromtimestamp_ok: "datetime_ok (n * sec) \<Longrightarrow> fromtimestamp n = Inr (n * sec)"
  by (simp add: fromtimestamp_def datetime_ok_def)

lemma fromtimestamp_Inr: "fromtimestamp n = Inr t \<longleftrightarrow> t = n * sec \<and> datetime_ok (n * sec)"
  by (auto simp: fromtimestamp_ok) (auto simp: fromtimestamp_def split: if_splits)

lemma fromtimestamp_Inl:
  "fromtimestamp n = Inl e \<Longrightarrow> e = OverflowError \<or> e = OSError \<or> (\<exists>m. e = ValueError m)"
  by (auto simp: fromtimestamp_def split: if_splits)

lemma datetime_floor: "datetime_ok t \<Longrightarrow> datetime_ok (t div sec * sec)"
  using zdiv_mono1 [of "-62135596800 * sec" t sec] zdiv_mono1 [of t "253402300800 * sec - 1" sec]
  by (simp add: datetime_ok_def)

lemma get_claim_cases:
  "get_claim k p = Inr v \<longleftrightarrow> map_of p k = Some v"
  "get_claim k p = Inl e \<longleftrightarrow> map_of p k = None \<and> e = KeyError k"
  by (auto simp: get_claim_def split: option.splits)

text \<open>The accepted payloads, exactly.\<close>

lemma parse_values_Inr:
  "parse_values sub jti rs ps iat exp = Inr c \<longleftrightarrow>
    (\<exists>s j rl pl i x. sub = PStr s \<and> s \<noteq> [] \<and> jti = PStr j \<and> j \<noteq> [] \<and>
       str_list rs = Some rl \<and> str_list ps = Some pl \<and>
       int_value iat = Some i \<and> int_value exp = Some x \<and>
       datetime_ok (i * sec) \<and> datetime_ok (x * sec) \<and>
       c = \<lparr>c_subject = s, c_expires_at = x * sec, c_issued_at = i * sec, c_token_id = j,
            c_roles = set rl, c_permissions = set pl\<rparr>)"
  by (auto simp: parse_values_def str_value_eq fromtimestamp_Inr fromtimestamp_ok
      split: option.splits sum.splits if_splits prod.splits)

lemma parse_values_Inl:
  "parse_values sub jti rs ps iat exp = Inl e \<Longrightarrow>
    e = OverflowError \<or> e = OSError \<or> (\<exists>m. e = ValueError m)"
  by (auto simp: parse_values_def dest: fromtimestamp_Inl
      split: option.splits sum.splits if_splits prod.splits)

lemma parse_claims_Inl:
  "parse_claims p = Inl e \<Longrightarrow>
    e = OverflowError \<or> e = OSError \<or> (\<exists>m. e = ValueError m \<or> e = KeyError m)"
  unfolding parse_claims_def
  by (auto simp: bind_sum_eq_Inl get_claim_cases dest: parse_values_Inl)

declare str_list.simps(1) [simp del]

lemma parse_access_payload:
  assumes "s \<noteq> []" "j \<noteq> []" "finite rs" "finite ps"
    and "datetime_ok x" "datetime_ok i"
  shows "parse_claims (numeric_dates (access_payload s x i j rs ps)) =
    Inr \<lparr>c_subject = s, c_expires_at = x div sec * sec, c_issued_at = i div sec * sec,
         c_token_id = j, c_roles = rs, c_permissions = ps\<rparr>"
  using assms
  by (simp add: parse_claims_def get_claim_def numeric_dates_def access_payload_def
      parse_values_def fromtimestamp_ok datetime_floor)

declare str_list.simps(1) [simp]

lemma encode_access_token_Inr:
  "encode_access_token enc jwt_secret d clock jti subject rs ps None None None = Inr tok \<longleftrightarrow>
    datetime_ok (clock + d) \<and>
    tok = enc (access_payload (str_of_subject subject) (clock + d) clock jti rs ps) jwt_secret"
  by (auto simp: encode_access_token_def add_timedelta_def split: if_splits)

lemma token_roundtrip:
  assumes "encode_access_token enc secret d clock jti subject rs ps None None None = Inr tok"
    and "jwt_law enc dec secret
      (access_payload (str_of_subject subject) (clock + d) clock jti rs ps)"
    and "str_of_subject subject \<noteq> []" "jti \<noteq> []" "finite rs" "finite ps" "datetime_ok clock"
  shows "decode_access_token dec secret now tok None =
    (if clock div sec * sec \<le> now \<and> now < (clock + d) div sec * sec
     then Inr \<lparr>c_subject = str_of_subject subject, c_expires_at = (clock + d) div sec * sec,
       c_issued_at = clock div sec * sec, c_token_id = jti, c_roles = rs, c_permissions = ps\<rparr>
     else Inl (raise_domain InvalidToken))"
proof -
  let ?p = "access_payload (str_of_subject subject) (clock + d) clock jti rs ps"
  have tok: "datetime_ok (clock + d)" "tok = enc ?p secret"
    using assms(1) by (simp_all add: encode_access_token_Inr)
  have "dec now REQUIRED_CLAIMS tok secret =
      (if (clock + d) div sec * sec \<le> now \<or> now < clock div sec * sec
       then Inl InvalidTokenError else Inr (numeric_dates ?p))"
    using assms(2) unfolding jwt_law_def tok(2)
    by (simp add: access_payload_def REQUIRED_CLAIMS_def)
  then show ?thesis
    using parse_access_payload [OF assms(3-6) tok(1) assms(7)]
    by (simp add: decode_access_token_def)
qed

subsection \<open>Properties\<close>

text \<open>A decoder that knows one payload: the parameter of the witnesses.\<close>

definition sample_payload :: payload where
  "sample_payload = access_payload ''1'' (1000 * sec) (100 * sec) ''jti1'' {''admin''} {''user.read''}"

definition sample_dec :: jwt_decode where
  "sample_dec now required token secret =
     (if token = ''tok'' \<and> 100 * sec \<le> now \<and> now < 1000 * sec
      then Inr (numeric_dates sample_payload) else Inl InvalidTokenError)"

lemma sample_jwt_law: "jwt_law (\<lambda>p k. ''tok'') sample_dec ''key'' sample_payload"
  by (auto simp: jwt_law_def sample_dec_def sample_payload_def access_payload_def)

text \<open>
  Access tokens round-trip: a token that \<open>encode_access_token\<close> issues is decoded, from the
  second of its issue until the second of its expiry, to claims with the subject, token id,
  roles and permissions it was issued for and its times rounded down to seconds; at any other
  time it is refused as an invalid token.
\<close>

theorem access_token_roundtrip:
  assumes "encode_access_token enc secret d clock jti subject rs ps None None None = Inr tok"
    and "jwt_law enc dec secret
      (access_payload (str_of_subject subject) (clock + d) clock jti rs ps)"
    and "str_of_subject subject \<noteq> []" "jti \<noteq> []" "finite rs" "finite ps" "datetime_ok clock"
  shows "decode_access_token dec secret now tok None =
    (if clock div sec * sec \<le> now \<and> now < (clock + d) div sec * sec
     then Inr \<lparr>c_subject = str_of_subject subject, c_expires_at = (clock + d) div sec * sec,
       c_issued_at = clock div sec * sec, c_token_id = jti, c_roles = rs, c_permissions = ps\<rparr>
     else Inl (raise_domain InvalidToken))"
  using assms by (rule token_roundtrip)

theorem access_token_roundtrip_witness:
  "decode_access_token sample_dec ''key'' (200 * sec) ''tok'' None =
    Inr \<lparr>c_subject = ''1'', c_expires_at = 1000 * sec, c_issued_at = 100 * sec,
      c_token_id = ''jti1'', c_roles = {''admin''}, c_permissions = {''user.read''}\<rparr>"
proof -
  have e: "encode_access_token (\<lambda>p k. ''tok'') ''key'' (900 * sec) (100 * sec) ''jti1'' (SubjStr ''1'')
      {''admin''} {''user.read''} None None None = Inr ''tok''"
    by (simp add: encode_access_token_def add_timedelta_def datetime_ok_def)
  have l: "jwt_law (\<lambda>p k. ''tok'') sample_dec ''key''
      (access_payload (str_of_subject (SubjStr ''1'')) (100 * sec + 900 * sec) (100 * sec) ''jti1''
        {''admin''} {''user.read''})"
    using sample_jwt_law by (simp add: sample_payload_def)
  show ?thesis
    using access_token_roundtrip [OF e l, of "200 * sec"] by (simp add: datetime_ok_def)
qed

text \<open>
  Decoding accepts exactly the well-typed tokens: it succeeds if and only if PyJWT accepts
  the token and all six claims are there with a non-empty string subject and token id, lists of
  strings as roles and permissions, and integer times a \<open>datetime\<close> can hold; the claims are
  then those values.
\<close>

theorem decode_accepts_iff:
  "decode_access_token dec secret now tok None = Inr c \<longleftrightarrow>
    (\<exists>p s j rs ps rl pl iv xv i x. dec now REQUIRED_CLAIMS tok secret = Inr p \<and>
       map_of p ''sub'' = Some (PStr s) \<and> s \<noteq> [] \<and> map_of p ''jti'' = Some (PStr j) \<and> j \<noteq> [] \<and>
       map_of p ''roles'' = Some rs \<and> str_list rs = Some rl \<and>
       map_of p ''perms'' = Some ps \<and> str_list ps = Some pl \<and>
       map_of p ''iat'' = Some iv \<and> int_value iv = Some i \<and> datetime_ok (i * sec) \<and>
       map_of p ''exp'' = Some xv \<and> int_value xv = Some x \<and> datetime_ok (x * sec) \<and>
       c = \<lparr>c_subject = s, c_expires_at = x * sec, c_issued_at = i * sec, c_token_id = j,
            c_roles = set rl, c_permissions = set pl\<rparr>)"
proof -
  have "decode_access_token dec secret now tok None = Inr c \<longleftrightarrow>
    (\<exists>p. dec now REQUIRED_CLAIMS tok secret = Inr p \<and> parse_claims p = Inr c)"
    by (auto simp: decode_access_token_def bind_sum_eq_Inr split: sum.splits)
  also have "\<dots> \<longleftrightarrow> (\<exists>p sv jv rs ps iv xv. dec now REQUIRED_CLAIMS tok secret = Inr p \<and>
      map_of p ''sub'' = Some sv \<and> map_of p ''jti'' = Some jv \<and> map_of p ''roles'' = Some rs \<and>
      map_of p ''perms'' = Some ps \<and> map_of p ''iat'' = Some iv \<and> map_of p ''exp'' = Some xv \<and>
      parse_values sv jv rs ps iv xv = Inr c)"
    by (simp add: parse_claims_def bind_sum_eq_Inr get_claim_cases)
  finally show ?thesis
    unfolding parse_values_Inr by blast
qed

text \<open>
  C28. How decoding fails: when PyJWT raises nothing but its own \<open>InvalidTokenError\<close>, a refused
  token is the domain error \<open>InvalidToken\<close>, except that a time stamp the C library cannot convert
  escapes as \<open>OverflowError\<close> or \<open>OSError\<close>.
\<close>

theorem decode_errors:
  assumes "\<And>e. dec now REQUIRED_CLAIMS tok secret = Inl e \<Longrightarrow> e = InvalidTokenError"
    and "decode_access_token dec secret now tok None = Inl e"
  shows "e = raise_domain InvalidToken \<or> e = OverflowError \<or> e = OSError"
proof -
  obtain e0 where e0: "e = decode_handler e0"
    "bind_sum (dec now REQUIRED_CLAIMS tok secret) parse_claims = Inl e0"
    using assms(2) by (auto simp: decode_access_token_def split: sum.splits)
  then have "e0 = InvalidTokenError \<or> e0 = OverflowError \<or> e0 = OSError \<or>
      (\<exists>m. e0 = ValueError m \<or> e0 = KeyError m)"
    using assms(1) parse_claims_Inl unfolding bind_sum_eq_Inl by blast
  with e0(1) show ?thesis by auto
qed

theorem decode_errors_witness:
  "decode_access_token sample_dec ''key'' (5 * sec) ''tok'' None = Inl (raise_domain InvalidToken)"
proof -
  have d: "sample_dec (5 * sec) REQUIRED_CLAIMS ''tok'' ''key'' = Inl InvalidTokenError"
    by (simp add: sample_dec_def)
  then have "decode_access_token sample_dec ''key'' (5 * sec) ''tok'' None =
      Inl (raise_domain InvalidToken)" by (simp add: decode_access_token_def)
  moreover from this have "raise_domain InvalidToken = raise_domain InvalidToken \<or>
      raise_domain InvalidToken = OverflowError \<or> raise_domain InvalidToken = OSError"
    using decode_errors [of sample_dec "5 * sec" "''tok''" "''key''"] d by simp
  ultimately show ?thesis by blast
qed

text \<open>A signed token may carry an expiry that only PyJWT's integer comparison accepts.\<close>

lemma decode_timestamp_escapes:
  "decode_access_token (\<lambda>_ _ _ _. Inr [(''sub'', PStr ''1''), (''exp'', PInt (10 ^ 20)),
     (''iat'', PInt 0), (''jti'', PStr ''j''), (''roles'', PList []), (''perms'', PList [])])
     secret now tok None = Inl OverflowError"
  by (simp add: decode_access_token_def parse_claims_def get_claim_def parse_values_def
      fromtimestamp_def)

end
