(* ===== verification/Users.thy ===== *)
theory Users
  imports Integrity Jwt
begin

text \<open>
  Users: the manager of \<open>apps/accounts/models.py\<close>, the value objects of
  \<open>apps/accounts/repositories/dtos.py\<close> and the repository of
  \<open>apps/accounts/repositories/users.py\<close>.

  Two things Django provides are parameters. \<open>dj\<close> is \<open>BaseUserManager.normalize_email\<close>, and
  \<open>make_password salt p\<close> is the encoded hash that \<open>make_password\<close> gives \<open>p\<close> with that salt
  (\<open>None\<close> is the absent password, whose hash no password matches).
\<close>



definition normalize_email :: "(string \<Rightarrow> string) \<Rightarrow> string \<Rightarrow> string" where
  "normalize_email dj email = lower (dj email)"

text \<open>Keyword arguments over the columns of \<open>User\<close>: \<open>None\<close> is an absent one.\<close>

record user_fields =
  f_email :: "string option"
  f_password :: "string option"
  f_is_active :: "bool option"
  f_is_staff :: "bool option"
  f_is_superuser :: "bool option"

definition no_fields :: user_fields where
  "no_fields = \<lparr>f_email = None, f_password = None, f_is_active = None, f_is_staff = None,
     f_is_superuser = None\<rparr>"

definition dflt :: "'a \<Rightarrow> 'a option \<Rightarrow> 'a" where
  "dflt d v = (case v of Some x \<Rightarrow> x | None \<Rightarrow> d)"

lemma dflt_simps [simp]: "dflt d None = d" "dflt d (Some x) = x"
  by (simp_all add: dflt_def)

subsection \<open>The manager\<close>

text \<open>\<open>UserManager.create_user\<close>: \<open>extra\<close> holds no e-mail and no password.\<close>

definition manager_create_user ::
  "(string \<Rightarrow> string) \<Rightarrow> make_password \<Rightarrow> string \<Rightarrow> time \<Rightarrow> string \<Rightarrow> string option \<Rightarrow> user_fields \<Rightarrow>
     'z db_scheme \<Rightarrow> (exn + user_row) \<times> 'z db_scheme" where
  "manager_create_user dj mkpw salt now email password extra s =
     (if email = [] then (Inl (ValueError ''The email address must be set''), s)
      else create_user (normalize_email dj email) (mkpw salt password)
             (dflt True (f_is_active extra)) (dflt False (f_is_staff extra))
             (dflt False (f_is_superuser extra)) now s)"

definition setdefault_true :: "bool option \<Rightarrow> bool option" where
  "setdefault_true v = (case v of None \<Rightarrow> Some True | Some b \<Rightarrow> Some b)"

definition manager_create_superuser ::
  "(string \<Rightarrow> string) \<Rightarrow> make_password \<Rightarrow> string \<Rightarrow> time \<Rightarrow> string \<Rightarrow> string option \<Rightarrow> user_fields \<Rightarrow>
     'z db_scheme \<Rightarrow> (exn + user_row) \<times> 'z db_scheme" where
  "manager_create_superuser dj mkpw salt now email password extra s =
     (let extra = extra\<lparr>f_is_staff := setdefault_true (f_is_staff extra),
                        f_is_superuser := setdefault_true (f_is_superuser extra)\<rparr>
      in if f_is_staff extra \<noteq> Some True
         then (Inl (ValueError ''Superuser must have is_staff=True.''), s)
         else if f_is_superuser extra \<noteq> Some True
         then (Inl (ValueError ''Superuser must have is_superuser=True.''), s)
         else manager_create_user dj mkpw salt now email password extra s)"

subsection \<open>Value objects\<close>

record user_dto =
  ud_id :: int
  ud_email :: string
  ud_is_active :: bool
  ud_is_staff :: bool
  ud_date_joined :: time

record credentials_dto =
  cd_id :: int
  cd_email :: string
  cd_password_hash :: string
  cd_is_active :: bool

definition user_dto_from_model :: "user_row \<Rightarrow> user_dto" where
  "user_dto_from_model u = \<lparr>ud_id = u_id u, ud_email = u_email u, ud_is_active = u_is_active u,
     ud_is_staff = u_is_staff u, ud_date_joined = u_date_joined u\<rparr>"

definition credentials_dto_from_model :: "user_row \<Rightarrow> credentials_dto" where
  "credentials_dto_from_model u = \<lparr>cd_id = u_id u, cd_email = u_email u,
     cd_password_hash = u_password u, cd_is_active = u_is_active u\<rparr>"

lemmas dto_defs = user_dto_from_model_def credentials_dto_from_model_def

subsection \<open>The repository\<close>

definition user_by_id :: "int \<Rightarrow> 'z db_scheme \<Rightarrow> user_row option" where
  "user_by_id uid s = first (\<lambda>u. u_id u = uid) (rows (users s))"

definition aget_credentials :: "(string \<Rightarrow> string) \<Rightarrow> string \<Rightarrow> 'z db_scheme \<Rightarrow> credentials_dto option" where
  "aget_credentials dj email s =
     map_option credentials_dto_from_model
       (first (\<lambda>u. u_email u = normalize_email dj email) (rows (users s)))"

definition acreate_user ::
  "(string \<Rightarrow> string) \<Rightarrow> time \<Rightarrow> string \<Rightarrow> string \<Rightarrow> 'z db_scheme \<Rightarrow> (exn + user_dto) \<times> 'z db_scheme" where
  "acreate_user dj now email password_hash s =
     (case create_user (normalize_email dj email) password_hash True False False now s of
        (Inl e, s') \<Rightarrow> (Inl e, s')
      | (Inr u, s') \<Rightarrow> (Inr (user_dto_from_model u), s'))"

definition normalize_fields :: "(string \<Rightarrow> string) \<Rightarrow> user_fields \<Rightarrow> user_fields" where
  "normalize_fields dj f = f\<lparr>f_email := map_option (normalize_email dj) (f_email f)\<rparr>"

definition user_acreate ::
  "(string \<Rightarrow> string) \<Rightarrow> time \<Rightarrow> user_fields \<Rightarrow> 'z db_scheme \<Rightarrow> (exn + user_dto) \<times> 'z db_scheme" where
  "user_acreate dj now flds s =
     (let f = normalize_fields dj flds
      in case create_user (dflt [] (f_email f)) (dflt [] (f_password f))
           (dflt True (f_is_active f)) (dflt False (f_is_staff f)) (dflt False (f_is_superuser f))
           now s of
        (Inl e, s') \<Rightarrow> (Inl e, s')
      | (Inr u, s') \<Rightarrow> (Inr (user_dto_from_model u), s'))"

definition aget_by_id :: "int \<Rightarrow> 'z db_scheme \<Rightarrow> user_dto option" where
  "aget_by_id uid s = map_option user_dto_from_model (user_by_id uid s)"

definition user_alist :: "int \<Rightarrow> int \<Rightarrow> 'z db_scheme \<Rightarrow> exn + user_dto list" where
  "user_alist offset limit s =
     bind_sum (sql_slice offset limit (sort_key u_id (rows (users s))))
       (\<lambda>us. Inr (map user_dto_from_model us))"

definition user_acount :: "'z db_scheme \<Rightarrow> int" where
  "user_acount s = int (length (rows (users s)))"

definition set_fields :: "user_fields \<Rightarrow> user_row \<Rightarrow> user_row" where
  "set_fields f u = u\<lparr>
     u_email := dflt (u_email u) (f_email f),
     u_password := dflt (u_password u) (f_password f),
     u_is_active := dflt (u_is_active u) (f_is_active f),
     u_is_staff := dflt (u_is_staff u) (f_is_staff f),
     u_is_superuser := dflt (u_is_superuser u) (f_is_superuser f)\<rparr>"

text \<open>\<open>update()\<close> without a column to set runs no statement and reports no row.\<close>

definition user_aupdate ::
  "(string \<Rightarrow> string) \<Rightarrow> int \<Rightarrow> user_fields \<Rightarrow> 'z db_scheme \<Rightarrow> (exn + user_dto option) \<times> 'z db_scheme" where
  "user_aupdate dj uid flds s =
     (let f = normalize_fields dj flds
      in if f = no_fields then (Inr None, s)
         else case update_users (\<lambda>u. u_id u = uid) (set_fields f) s of
           (Inl e, s') \<Rightarrow> (Inl e, s')
         | (Inr n, s') \<Rightarrow> (if n = 0 then (Inr None, s') else (Inr (aget_by_id uid s'), s')))"

definition user_adelete :: "int \<Rightarrow> 'z db_scheme \<Rightarrow> bool \<times> 'z db_scheme" where
  "user_adelete uid s =
     (case delete_users (\<lambda>u. u_id u = uid) s of (n, s') \<Rightarrow> (0 < n, s'))"

subsection \<open>The canonical e-mail address\<close>

lemma lower_normalize_email [simp]: "lower (normalize_email dj e) = normalize_email dj e"
  by (simp add: normalize_email_def)

text \<open>Every stored address is in lower case: the program writes normalized addresses only.\<close>

definition emails_canonical :: "'z db_scheme \<Rightarrow> bool" where
  "emails_canonical s \<longleftrightarrow> (\<forall>u \<in> set (rows (users s)). lower (u_email u) = u_email u)"

lemma create_user_cases:
  assumes "create_user e pw a st su now s = (res, s')"
  obtains (refused) ex where "res = Inl ex" "rows (users s') = rows (users s)"
      "user_insert_check (rows (users s)) \<lparr>u_id = next_id (users s), u_email = e, u_password = pw,
         u_is_active = a, u_is_staff = st, u_is_superuser = su, u_date_joined = now\<rparr> = Some ex"
    | (created) u where "res = Inr u" "rows (users s') = rows (users s) @ [u]"
      "u = \<lparr>u_id = next_id (users s), u_email = e, u_password = pw, u_is_active = a,
         u_is_staff = st, u_is_superuser = su, u_date_joined = now\<rparr>"
      "user_insert_check (rows (users s)) u = None"
  using assms
  by (auto simp: create_user_def split: prod.splits elim!: tbl_insert_cases)

text \<open>Creating a user writes the users table and nothing else.\<close>

lemma create_user_frame [frame]:
  "create_user e pw a st su now s = (res, s') \<Longrightarrow> \<exists>t. s' = s\<lparr>users := t\<rparr>"
  by (auto simp: create_user_def split: prod.splits)

lemma emails_canonical_create_user:
  "emails_canonical s \<Longrightarrow> lower e = e \<Longrightarrow> create_user e pw a st su now s = (res, s') \<Longrightarrow>
    emails_canonical s'"
  by (erule create_user_cases) (auto simp: emails_canonical_def)

lemma user_insert_check_dup:
  "user_insert_check rs u = Some IntegrityError \<longleftrightarrow>
     user_fits u \<and> email_key u \<in> set (map email_key rs)"
  by (auto simp: user_insert_check_def)

lemma create_user_duplicate:
  assumes "u \<in> set (rows (users s))" "lower (u_email u) = lower e"
    and "length e \<le> 254" "length pw \<le> 128"
  shows "\<exists>s'. create_user e pw a st su now s = (Inl IntegrityError, s') \<and>
    rows (users s') = rows (users s)"
proof -
  obtain res s' where c: "create_user e pw a st su now s = (res, s')"
    by (cases "create_user e pw a st su now s")
  then show ?thesis
  proof (cases rule: create_user_cases)
    case (refused ex)
    then have "ex = IntegrityError"
      using assms by (auto simp: user_insert_check_def user_fits_def split: if_splits)
    with c refused show ?thesis by simp
  next
    case (created v)
    have "lower e \<in> email_key ` set (rows (users s))"
      using assms(1,2) by force
    with created have False
      by (auto simp: user_insert_check_def split: if_splits)
    then show ?thesis ..
  qed
qed

subsection \<open>Lookups after writes\<close>

lemma user_by_id_Some: "user_by_id uid s = Some u \<Longrightarrow> u \<in> set (rows (users s)) \<and> u_id u = uid"
  by (auto simp: user_by_id_def dest: first_Some)

lemma user_by_id_iff:
  "users_ok s \<Longrightarrow> user_by_id uid s = Some u \<longleftrightarrow> u \<in> set (rows (users s)) \<and> u_id u = uid"
  by (simp add: user_by_id_def users_ok_def ids_ok_def first_key_iff)

lemma user_by_id_None [simp]: "user_by_id uid s = None \<longleftrightarrow> uid \<notin> user_ids s"
  by (auto simp: user_by_id_def first_None)

lemma aget_by_id_None [simp]: "aget_by_id uid s = None \<longleftrightarrow> uid \<notin> user_ids s"
  by (simp add: aget_by_id_def)

lemma aget_by_id_created:
  assumes "users_ok s" "create_user e pw a st su now s = (Inr u, s')"
  shows "aget_by_id (u_id u) s' = Some (user_dto_from_model u) \<and> u_id u \<notin> user_ids s"
proof -
  from assms(2) have r: "rows (users s') = rows (users s) @ [u]" "u_id u = next_id (users s)"
    by (auto elim!: create_user_cases)
  have "u_id u \<notin> user_ids s"
    using assms(1) r(2) by (auto simp: users_ok_def ids_ok_def)
  moreover from this have "\<forall>x \<in> set (rows (users s)). u_id x \<noteq> u_id u"
    by (auto simp: image_iff)
  ultimately show ?thesis
    by (simp add: aget_by_id_def user_by_id_def r(1))
qed

text \<open>Updating one user by id.\<close>

lemma set_fields_id [simp]: "u_id (set_fields f u) = u_id u"
  by (simp add: set_fields_def)

lemma db_ok_user_aupdate [inv_pres]:
  "db_ok s \<Longrightarrow> user_aupdate dj uid f s = (res, s') \<Longrightarrow> db_ok s'"
  by (auto simp: user_aupdate_def Let_def split: prod.splits sum.splits if_splits
      intro: db_ok_update_users)

lemma db_ok_user_adelete [inv_pres]:
  "db_ok s \<Longrightarrow> user_adelete uid s = (res, s') \<Longrightarrow> db_ok s'"
  by (auto simp: user_adelete_def split: prod.splits intro: db_ok_delete_users)

lemma db_ok_user_acreate [inv_pres]:
  "db_ok s \<Longrightarrow> user_acreate dj now f s = (res, s') \<Longrightarrow> db_ok s'"
  "db_ok s \<Longrightarrow> acreate_user dj now e pw s = (res, s') \<Longrightarrow> db_ok s'"
  by (auto simp: user_acreate_def acreate_user_def Let_def split: prod.splits sum.splits
      intro: db_ok_create_user)

lemma update_users_frame [frame]:
  "update_users p f s = (res, s') \<Longrightarrow> \<exists>t. s' = s\<lparr>users := t\<rparr>"
  by (auto simp: update_users_def split: prod.splits)

lemma user_aupdate_frame [frame]:
  "user_aupdate dj uid f s = (res, s') \<Longrightarrow> \<exists>t. s' = s\<lparr>users := t\<rparr>"
  by (auto simp: user_aupdate_def Let_def split: prod.splits sum.splits if_splits
      dest: update_users_frame intro: exI [of _ "users s"])

lemma user_adelete_found: "fst (user_adelete uid s) \<longleftrightarrow> uid \<in> user_ids s"
  by (auto simp: user_adelete_def delete_users_def Let_def filter_empty_conv)

lemma user_adelete_gone: "user_adelete uid s = (b, s') \<Longrightarrow> uid \<notin> user_ids s'"
  by (auto simp: user_adelete_def delete_users_def Let_def tbl_delete_def delete_refresh_tokens_def)

text \<open>A deleted user leaves no role link and no refresh token behind.\<close>

lemma user_adelete_cascade:
  assumes "db_ok s" "user_adelete uid s = (b, s')"
  shows "(\<forall>l \<in> set (rows (user_roles s')). ur_user_id l \<noteq> uid) \<and>
    (\<forall>t \<in> set (rows (refresh_tokens s')). t_user_id t \<noteq> uid)"
proof -
  have "db_ok s'" using assms by (rule db_ok_user_adelete)
  then show ?thesis
    using user_adelete_gone [OF assms(2)]
    by (auto simp: db_ok_def links_ok_def tokens_ok_def token_links_ok_def)
qed

lemma user_adelete_other:
  assumes "user_adelete uid s = (b, s')" "u_id u \<noteq> uid"
  shows "u \<in> set (rows (users s')) \<longleftrightarrow> u \<in> set (rows (users s))"
  using assms
  by (auto simp: user_adelete_def delete_users_def Let_def tbl_delete_def delete_refresh_tokens_def)

end
