(* ===== verification/Rbac.thy ===== *)
theory Rbac
  imports Users
begin

text \<open>
  Roles and permissions: the catalog of \<open>apps/authz/permissions.py\<close>, the value objects of
  \<open>apps/authz/repositories/dtos.py\<close> and the repository of \<open>apps/authz/repositories/rbac.py\<close>.
\<close>

subsection \<open>The catalog\<close>

datatype permission_code =
    USER_CREATE | USER_READ | USER_UPDATE | USER_DELETE
  | ROLE_ASSIGN | ROLE_READ | PERMISSION_READ | AUDIT_READ

fun permission_value :: "permission_code \<Rightarrow> string" where
  "permission_value USER_CREATE = ''user.create''"
| "permission_value USER_READ = ''user.read''"
| "permission_value USER_UPDATE = ''user.update''"
| "permission_value USER_DELETE = ''user.delete''"
| "permission_value ROLE_ASSIGN = ''role.assign''"
| "permission_value ROLE_READ = ''role.read''"
| "permission_value PERMISSION_READ = ''permission.read''"
| "permission_value AUDIT_READ = ''audit.read''"

datatype role_name = ADMIN | USER

fun role_value :: "role_name \<Rightarrow> string" where
  "role_value ADMIN = ''admin''"
| "role_value USER = ''user''"

definition PERMISSION_CATALOG :: "string list" where
  "PERMISSION_CATALOG = map permission_value
     [USER_CREATE, USER_READ, USER_UPDATE, USER_DELETE, ROLE_ASSIGN, ROLE_READ,
      PERMISSION_READ, AUDIT_READ]"

definition DEFAULT_ROLE_PERMISSIONS :: "(string \<times> string list) list" where
  "DEFAULT_ROLE_PERMISSIONS =
     [(role_value ADMIN, PERMISSION_CATALOG), (role_value USER, [])]"

lemma permission_value_inj: "permission_value a = permission_value b \<longleftrightarrow> a = b"
  by (cases a; cases b) simp_all

lemma permission_value_catalog: "permission_value a \<in> set PERMISSION_CATALOG"
  by (cases a) (simp_all add: PERMISSION_CATALOG_def)

subsection \<open>Value objects\<close>

record role_dto =
  rd_id :: int
  rd_name :: string

record permission_dto =
  pd_id :: int
  pd_code :: string

record user_role_dto =
  urd_user_id :: int
  urd_role_id :: int

record role_permission_dto =
  rpd_role_id :: int
  rpd_permission_id :: int

definition role_dto_of :: "role_row \<Rightarrow> role_dto" where
  "role_dto_of r = \<lparr>rd_id = r_id r, rd_name = r_name r\<rparr>"

definition permission_dto_of :: "permission_row \<Rightarrow> permission_dto" where
  "permission_dto_of p = \<lparr>pd_id = p_id p, pd_code = p_code p\<rparr>"

subsection \<open>The repository\<close>

definition create_user_with_role_body ::
  "(string \<Rightarrow> string) \<Rightarrow> time \<Rightarrow> string \<Rightarrow> string \<Rightarrow> int \<Rightarrow> 'z db_scheme \<Rightarrow>
     (exn + user_dto) \<times> 'z db_scheme" where
  "create_user_with_role_body dj now email password_hash role_id s =
     (case create_user (normalize_email dj email) password_hash True False False now s of
        (Inl e, s1) \<Rightarrow> (Inl e, s1)
      | (Inr u, s1) \<Rightarrow>
          (case create_user_role (u_id u) role_id s1 of
             (Inl e, s2) \<Rightarrow> (Inl e, s2)
           | (Inr _, s2) \<Rightarrow> (Inr (user_dto_from_model u), s2)))"

definition acreate_user_with_role ::
  "(string \<Rightarrow> string) \<Rightarrow> time \<Rightarrow> string \<Rightarrow> string \<Rightarrow> int \<Rightarrow> 'z db_scheme \<Rightarrow>
     (exn + user_dto) \<times> 'z db_scheme" where
  "acreate_user_with_role dj now email password_hash role_id s =
     run_in_transaction (create_user_with_role_body dj now email password_hash role_id) s"

definition aget_role_by_name :: "string \<Rightarrow> 'z db_scheme \<Rightarrow> role_dto option" where
  "aget_role_by_name name s = map_option role_dto_of (first (\<lambda>r. r_name r = name) (rows (roles s)))"

definition aget_role_by_id :: "int \<Rightarrow> 'z db_scheme \<Rightarrow> role_dto option" where
  "aget_role_by_id rid s = map_option role_dto_of (first (\<lambda>r. r_id r = rid) (rows (roles s)))"

definition alist_roles :: "int \<Rightarrow> int \<Rightarrow> 'z db_scheme \<Rightarrow> exn + role_dto list" where
  "alist_roles offset limit s =
     bind_sum (sql_slice offset limit (sort_key r_id (rows (roles s)))) (\<lambda>rs. Inr (map role_dto_of rs))"

definition acount_roles :: "'z db_scheme \<Rightarrow> int" where
  "acount_roles s = int (length (rows (roles s)))"

definition alist_permissions :: "int \<Rightarrow> int \<Rightarrow> 'z db_scheme \<Rightarrow> exn + permission_dto list" where
  "alist_permissions offset limit s =
     bind_sum (sql_slice offset limit (sort_key p_code (rows (permissions s))))
       (\<lambda>ps. Inr (map permission_dto_of ps))"

definition acount_permissions :: "'z db_scheme \<Rightarrow> int" where
  "acount_permissions s = int (length (rows (permissions s)))"

text \<open>
  The joins \<open>role_links__role__user_links__user_id=user_id\<close> and \<open>user_links__user_id=user_id\<close>:
  a permission is selected when some grant links it to a role that some link gives the user.
\<close>

definition has_role :: "'z db_scheme \<Rightarrow> int \<Rightarrow> role_row \<Rightarrow> bool" where
  "has_role s uid r \<longleftrightarrow> (\<exists>l \<in> set (rows (user_roles s)). ur_role_id l = r_id r \<and> ur_user_id l = uid)"

definition aget_user_permission_codes :: "int \<Rightarrow> 'z db_scheme \<Rightarrow> string set" where
  "aget_user_permission_codes uid s = set (map p_code (filter (\<lambda>p.
     \<exists>g \<in> set (rows (role_permissions s)). rp_permission_id g = p_id p \<and>
       (\<exists>r \<in> set (rows (roles s)). r_id r = rp_role_id g \<and> has_role s uid r))
     (rows (permissions s))))"

definition aget_user_role_names :: "int \<Rightarrow> 'z db_scheme \<Rightarrow> string set" where
  "aget_user_role_names uid s = set (map r_name (filter (has_role s uid) (rows (roles s))))"

definition aassign_role :: "int \<Rightarrow> int \<Rightarrow> 'z db_scheme \<Rightarrow> (exn + user_role_dto) \<times> 'z db_scheme" where
  "aassign_role uid rid s =
     (case first (\<lambda>l. ur_user_id l = uid \<and> ur_role_id l = rid) (rows (user_roles s)) of
        Some l \<Rightarrow> (Inr \<lparr>urd_user_id = ur_user_id l, urd_role_id = ur_role_id l\<rparr>, s)
      | None \<Rightarrow>
          (case create_user_role uid rid s of
             (Inl e, s') \<Rightarrow> (Inl e, s')
           | (Inr l, s') \<Rightarrow> (Inr \<lparr>urd_user_id = ur_user_id l, urd_role_id = ur_role_id l\<rparr>, s')))"

definition agrant_permission ::
  "int \<Rightarrow> int \<Rightarrow> 'z db_scheme \<Rightarrow> (exn + role_permission_dto) \<times> 'z db_scheme" where
  "agrant_permission rid pid s =
     (case first (\<lambda>g. rp_role_id g = rid \<and> rp_permission_id g = pid) (rows (role_permissions s)) of
        Some g \<Rightarrow> (Inr \<lparr>rpd_role_id = rp_role_id g, rpd_permission_id = rp_permission_id g\<rparr>, s)
      | None \<Rightarrow>
          (case create_role_permission rid pid s of
             (Inl e, s') \<Rightarrow> (Inl e, s')
           | (Inr g, s') \<Rightarrow>
               (Inr \<lparr>rpd_role_id = rp_role_id g, rpd_permission_id = rp_permission_id g\<rparr>, s')))"

subsection \<open>The rows behind the queries\<close>

text \<open>The permission codes a role carries.\<close>

definition role_codes :: "int \<Rightarrow> 'z db_scheme \<Rightarrow> string set" where
  "role_codes rid s = {p_code p |p g. p \<in> set (rows (permissions s)) \<and>
     g \<in> set (rows (role_permissions s)) \<and> rp_permission_id g = p_id p \<and> rp_role_id g = rid}"

definition user_role_ids :: "int \<Rightarrow> 'z db_scheme \<Rightarrow> int set" where
  "user_role_ids uid s = {ur_role_id l |l. l \<in> set (rows (user_roles s)) \<and> ur_user_id l = uid}"

lemma permission_codes_union:
  assumes "db_ok s"
  shows "aget_user_permission_codes uid s = (\<Union>rid \<in> user_role_ids uid s. role_codes rid s)"
proof (intro equalityI subsetI)
  fix c
  assume "c \<in> aget_user_permission_codes uid s"
  then show "c \<in> (\<Union>rid \<in> user_role_ids uid s. role_codes rid s)"
    by (fastforce simp: aget_user_permission_codes_def has_role_def role_codes_def user_role_ids_def)
next
  fix c
  assume "c \<in> (\<Union>rid \<in> user_role_ids uid s. role_codes rid s)"
  then obtain l p g where c: "c = p_code p" "l \<in> set (rows (user_roles s))" "ur_user_id l = uid"
    "p \<in> set (rows (permissions s))" "g \<in> set (rows (role_permissions s))"
    "rp_permission_id g = p_id p" "rp_role_id g = ur_role_id l"
    by (auto simp: role_codes_def user_role_ids_def)
  moreover obtain r where "r \<in> set (rows (roles s))" "r_id r = ur_role_id l"
    using assms c(2) by (auto simp: db_ok_def links_ok_def)
  ultimately show "c \<in> aget_user_permission_codes uid s"
    by (fastforce simp: aget_user_permission_codes_def has_role_def)
qed

lemma create_user_role_cases:
  assumes "create_user_role uid rid s = (res, s')"
  obtains (refused) e where "res = Inl e" "rows (user_roles s') = rows (user_roles s)"
      "uid \<notin> user_ids s \<or> rid \<notin> role_ids s \<or> (uid, rid) \<in> set (map ur_pair (rows (user_roles s)))"
      "e = IntegrityError"
    | (created) l where "res = Inr l" "rows (user_roles s') = rows (user_roles s) @ [l]"
      "ur_pair l = (uid, rid)" "uid \<in> user_ids s" "rid \<in> role_ids s"
      "(uid, rid) \<notin> set (map ur_pair (rows (user_roles s)))"
  using assms
  by (auto simp: create_user_role_def user_role_insert_check_def split: prod.splits if_splits
      elim!: tbl_insert_cases)

lemma create_user_role_frame [frame]:
  "create_user_role uid rid s = (res, s') \<Longrightarrow> \<exists>t. s' = s\<lparr>user_roles := t\<rparr>"
  by (auto simp: create_user_role_def split: prod.splits)

lemma aassign_role_frame [frame]:
  "aassign_role uid rid s = (res, s') \<Longrightarrow> \<exists>t. s' = s\<lparr>user_roles := t\<rparr>"
  by (auto simp: aassign_role_def split: option.splits prod.splits sum.splits
      dest: create_user_role_frame intro: exI [of _ "user_roles s"])

lemma db_ok_aassign_role [inv_pres]:
  "db_ok s \<Longrightarrow> aassign_role uid rid s = (res, s') \<Longrightarrow> db_ok s'"
  by (auto simp: aassign_role_def split: option.splits prod.splits sum.splits
      intro: db_ok_create_user_role)

lemma db_ok_agrant_permission [inv_pres]:
  "db_ok s \<Longrightarrow> agrant_permission rid pid s = (res, s') \<Longrightarrow> db_ok s'"
  by (auto simp: agrant_permission_def split: option.splits prod.splits sum.splits
      intro: db_ok_create_role_permission)

lemma db_ok_create_user_with_role [inv_pres]:
  assumes "db_ok s" "acreate_user_with_role dj now e pw rid s = (res, s')"
  shows "db_ok s'"
proof (rule db_ok_run_in_transaction [OF assms(1) assms(2) [unfolded acreate_user_with_role_def]])
  fix r t
  assume "create_user_with_role_body dj now e pw rid s = (r, t)"
  then show "db_ok t \<and> seq_le s t"
    using assms(1)
    by (auto simp: create_user_with_role_body_def split: prod.splits sum.splits
        intro: db_ok_create_user db_ok_create_user_role seq_le_create seq_le_trans)
qed

text \<open>Assigning a role an existing user may get: the link is there afterwards, once.\<close>

lemma aassign_role_ok:
  assumes "uid \<in> user_ids s" "rid \<in> role_ids s"
  obtains s' where "aassign_role uid rid s = (Inr \<lparr>urd_user_id = uid, urd_role_id = rid\<rparr>, s')"
    "user_role_ids uid s' = insert rid (user_role_ids uid s)"
    "\<And>u. u \<noteq> uid \<Longrightarrow> user_role_ids u s' = user_role_ids u s"
proof (cases "first (\<lambda>l. ur_user_id l = uid \<and> ur_role_id l = rid) (rows (user_roles s))")
  case (Some l)
  then have l: "l \<in> set (rows (user_roles s))" "ur_user_id l = uid" "ur_role_id l = rid"
    by (auto dest: first_Some)
  then have "rid \<in> user_role_ids uid s" by (auto simp: user_role_ids_def)
  with Some l show ?thesis by (intro that [of s]) (auto simp: aassign_role_def)
next
  case None
  obtain res s' where c: "create_user_role uid rid s = (res, s')"
    by (cases "create_user_role uid rid s")
  then show ?thesis
  proof (cases rule: create_user_role_cases)
    case refused
    with assms None show ?thesis by (auto simp: first_None)
  next
    case (created l)
    have l: "ur_user_id l = uid" "ur_role_id l = rid" using created(3) by auto
    have "aassign_role uid rid s = (Inr \<lparr>urd_user_id = uid, urd_role_id = rid\<rparr>, s')"
      using None c created(1) l by (simp add: aassign_role_def)
    moreover have "user_role_ids u s' = {r. r = rid \<and> u = uid} \<union> user_role_ids u s" for u
      using created(2) l by (auto simp: user_role_ids_def)
    ultimately show ?thesis by (intro that [of s']) auto
  qed
qed

end
