(* ===== verification/Binding.thy ===== *)
theory Binding
  imports PyStr
begin

text \<open>
  One-way digests: \<open>apps/authz/security/binding.py\<close> (\<open>device_hash\<close>) and \<open>_hash_refresh_token\<close>
  of \<open>apps/authz/services/auth.py\<close>. The digest itself, \<open>sha256(...).hexdigest()\<close> on a byte
  string, is the parameter \<open>sha\<close>; the program relies on its fixed size (\<open>digest_law\<close>) and,
  token by token, on two tokens having two digests.
\<close>

type_synonym digest = "nat list \<Rightarrow> string"

definition digest_law :: "digest \<Rightarrow> bool" where
  "digest_law sha \<longleftrightarrow> (\<forall>m. length (sha m) = 64)"

definition device_hash :: "digest \<Rightarrow> string option \<Rightarrow> string option" where
  "device_hash sha user_agent =
     (case user_agent of
        None \<Rightarrow> None
      | Some ua \<Rightarrow>
          if ua = [] then None
          else let normalized = lower (strip ua)
               in if normalized = [] then None else Some (sha (utf8 normalized)))"

definition hash_refresh_token :: "digest \<Rightarrow> string \<Rightarrow> string" where
  "hash_refresh_token sha raw = sha (utf8 raw)"

text \<open>Letter case and surrounding white space of the User-Agent do not matter.\<close>

lemma strip_append_space:
  assumes "list_all is_space a" "list_all is_space b"
  shows "strip (a @ s @ b) = strip s"
proof -
  have l: "lstrip (a @ t) = lstrip t" for t
    using assms(1) by (induction a) (auto simp: lstrip_def)
  have lb: "lstrip (rev b @ t) = lstrip t" for t
    using assms(2) by (induction b arbitrary: t) (auto simp: lstrip_def)
  show ?thesis
  proof (cases "lstrip s = []")
    case True
    then have sp: "list_all is_space s"
      by (simp add: lstrip_def list_all_iff)
    then have "lstrip (s @ b) = lstrip b"
      by (induction s) (auto simp: lstrip_def)
    moreover have "lstrip b = []" using assms(2) by (simp add: lstrip_def list_all_iff)
    ultimately show ?thesis using True by (simp add: strip_def l)
  next
    case False
    then have "lstrip (s @ b) = lstrip s @ b"
      by (induction s) (auto simp: lstrip_def)
    then show ?thesis by (simp add: strip_def l lb)
  qed
qed

lemma device_hash_normal:
  "device_hash sha (Some ua) =
     (if strip ua = [] then None else Some (sha (utf8 (lower (strip ua)))))"
  by (auto simp: device_hash_def Let_def strip_def lstrip_def)

lemma device_hash_insensitive:
  assumes "list_all is_space a" "list_all is_space b" "lower ua = lower ua'"
  shows "device_hash sha (Some (a @ ua @ b)) = device_hash sha (Some ua')"
proof -
  have s: "strip (a @ ua @ b) = strip ua" using assms(1,2) by (rule strip_append_space)
  have l: "lower (strip ua) = lower (strip ua')"
    using assms(3) by (metis strip_lower)
  then have "strip ua = [] \<longleftrightarrow> strip ua' = []" by (metis lower_eq_Nil)
  with s l show ?thesis by (simp add: device_hash_normal)
qed

lemma device_hash_fits:
  "digest_law sha \<Longrightarrow> device_hash sha ua = Some h \<Longrightarrow> length h = 64"
  by (auto simp: device_hash_def digest_law_def Let_def split: option.splits if_splits)

lemma length_hash_refresh_token [simp]:
  "digest_law sha \<Longrightarrow> length (hash_refresh_token sha raw) = 64"
  by (simp add: digest_law_def hash_refresh_token_def)

end
