(* ===== verification/RefreshTokens.thy ===== *)
theory RefreshTokens
  imports Rbac Binding
begin

text \<open>
  Refresh tokens: \<open>apps/authz/repositories/refresh_tokens.py\<close>. A token row belongs to a
  rotation family; presenting a live token consumes it and creates its replacement in the
  same family, presenting a revoked one revokes the whole family.
\<close>

subsection \<open>Value objects\<close>

record refresh_token_dto =
  rt_id :: int
  rt_user_id :: int
  rt_token_hash :: string
  rt_family_id :: string
  rt_parent_id :: "int option"
  rt_device_hash :: "string option"
  rt_issued_ip :: "string option"
  rt_expires_at :: time
  rt_revoked_at :: "time option"

definition refresh_token_dto_of :: "refresh_token_row \<Rightarrow> refresh_token_dto" where
  "refresh_token_dto_of t = \<lparr>rt_id = t_id t, rt_user_id = t_user_id t,
     rt_token_hash = t_token_hash t, rt_family_id = t_family_id t, rt_parent_id = t_parent_id t,
     rt_device_hash = t_device_hash t, rt_issued_ip = t_issued_ip t,
     rt_expires_at = t_expires_at t, rt_revoked_at = t_revoked_at t\<rparr>"

datatype rotation_outcome = Rotated | Missing | Expired | Reused | BindingMismatch

record rotation_result =
  outcome :: rotation_outcome
  result_token :: "refresh_token_dto option"
  previous_issued_ip :: "string option"

text \<open>The keyword arguments of \<open>arotate\<close>.\<close>

record rotation_request =
  rq_token_hash :: string
  rq_replacement_hash :: string
  rq_replacement_expires_at :: time
  rq_rotated_at :: time
  rq_device_hash :: "string option"
  rq_ip :: "string option"

abbreviation tokens :: "'z db_scheme \<Rightarrow> refresh_token_row list" where
  "tokens s \<equiv> rows (refresh_tokens s)"

abbreviation active :: "refresh_token_row \<Rightarrow> bool" where
  "active t \<equiv> t_revoked_at t = None"

subsection \<open>The repository\<close>

definition token_by_hash :: "string \<Rightarrow> 'z db_scheme \<Rightarrow> refresh_token_row option" where
  "token_by_hash h s = first (\<lambda>t. t_token_hash t = h) (tokens s)"

definition aget_by_hash :: "string \<Rightarrow> 'z db_scheme \<Rightarrow> refresh_token_dto option" where
  "aget_by_hash h s = map_option refresh_token_dto_of (token_by_hash h s)"

definition token_acreate ::
  "(string \<Rightarrow> bool) \<Rightarrow> int \<Rightarrow> string \<Rightarrow> string \<Rightarrow> int option \<Rightarrow> time \<Rightarrow> string option \<Rightarrow> string option \<Rightarrow>
     'z db_scheme \<Rightarrow> (exn + refresh_token_dto) \<times> 'z db_scheme" where
  "token_acreate inet_ok user_id token_hash family_id parent_id expires_at dev ip s =
     (case create_refresh_token inet_ok
        (\<lambda>i. \<lparr>t_id = i, t_user_id = user_id, t_token_hash = token_hash, t_family_id = family_id,
             t_parent_id = parent_id, t_device_hash = dev, t_issued_ip = ip,
             t_expires_at = expires_at, t_revoked_at = None\<rparr>) s of
        (Inl e, s') \<Rightarrow> (Inl e, s')
      | (Inr t, s') \<Rightarrow> (Inr (refresh_token_dto_of t), s'))"

definition arevoke :: "int \<Rightarrow> time \<Rightarrow> 'z db_scheme \<Rightarrow> 'z db_scheme" where
  "arevoke token_id at s = revoke_tokens (\<lambda>t. t_id t = token_id \<and> active t) at s"

definition arevoke_family :: "string \<Rightarrow> time \<Rightarrow> 'z db_scheme \<Rightarrow> 'z db_scheme" where
  "arevoke_family fam at s = revoke_tokens (\<lambda>t. t_family_id t = fam \<and> active t) at s"

definition arevoke_user :: "int \<Rightarrow> time \<Rightarrow> 'z db_scheme \<Rightarrow> 'z db_scheme" where
  "arevoke_user uid at s = revoke_tokens (\<lambda>t. t_user_id t = uid \<and> active t) at s"

text \<open>\<open>x or y\<close> on optional strings.\<close>

definition py_or :: "string option \<Rightarrow> string option \<Rightarrow> string option" where
  "py_or x y = (case x of Some v \<Rightarrow> if v = [] then y else x | None \<Rightarrow> y)"

definition rotate_body ::
  "bool \<Rightarrow> (string \<Rightarrow> bool) \<Rightarrow> rotation_request \<Rightarrow> 'z db_scheme \<Rightarrow> (exn + rotation_result) \<times> 'z db_scheme" where
  "rotate_body bind_device inet_ok rq s =
     (case token_by_hash (rq_token_hash rq) s of
        None \<Rightarrow> (Inr \<lparr>outcome = Missing, result_token = None, previous_issued_ip = None\<rparr>, s)
      | Some t \<Rightarrow>
          if t_revoked_at t \<noteq> None then
            (Inr \<lparr>outcome = Reused, result_token = Some (refresh_token_dto_of t),
                  previous_issued_ip = None\<rparr>,
             revoke_tokens (\<lambda>u. t_family_id u = t_family_id t \<and> active u) (rq_rotated_at rq) s)
          else if t_expires_at t \<le> rq_rotated_at rq then
            (Inr \<lparr>outcome = Expired, result_token = None, previous_issued_ip = None\<rparr>, s)
          else if bind_device \<and> t_device_hash t \<noteq> None \<and> t_device_hash t \<noteq> rq_device_hash rq then
            (Inr \<lparr>outcome = BindingMismatch, result_token = Some (refresh_token_dto_of t),
                  previous_issued_ip = None\<rparr>,
             revoke_tokens (\<lambda>u. t_family_id u = t_family_id t \<and> active u) (rq_rotated_at rq) s)
          else
            (let s1 = revoke_tokens (\<lambda>u. t_id u = t_id t) (rq_rotated_at rq) s
             in case create_refresh_token inet_ok
               (\<lambda>i. \<lparr>t_id = i, t_user_id = t_user_id t, t_token_hash = rq_replacement_hash rq,
                    t_family_id = t_family_id t, t_parent_id = Some (t_id t),
                    t_device_hash = py_or (t_device_hash t) (rq_device_hash rq),
                    t_issued_ip = rq_ip rq, t_expires_at = rq_replacement_expires_at rq,
                    t_revoked_at = None\<rparr>) s1 of
                 (Inl e, s2) \<Rightarrow> (Inl e, s2)
               | (Inr u, s2) \<Rightarrow>
                   (Inr \<lparr>outcome = Rotated, result_token = Some (refresh_token_dto_of u),
                         previous_issued_ip = t_issued_ip t\<rparr>, s2)))"

definition arotate ::
  "bool \<Rightarrow> (string \<Rightarrow> bool) \<Rightarrow> rotation_request \<Rightarrow> 'z db_scheme \<Rightarrow> (exn + rotation_result) \<times> 'z db_scheme" where
  "arotate bind_device inet_ok rq s = run_in_transaction (rotate_body bind_device inet_ok rq) s"

subsection \<open>Row-level effect\<close>

lemma tokens_revoke [simp]:
  "tokens (revoke_tokens p at s) = upd_where p (\<lambda>t. t\<lparr>t_revoked_at := Some at\<rparr>) (tokens s)"
  by (simp add: revoke_tokens_def)

lemma revoke_tokens_frame [simp]:
  "users (revoke_tokens p at s) = users s" "roles (revoke_tokens p at s) = roles s"
  "permissions (revoke_tokens p at s) = permissions s"
  "user_roles (revoke_tokens p at s) = user_roles s"
  "role_permissions (revoke_tokens p at s) = role_permissions s"
  "audit_logs (revoke_tokens p at s) = audit_logs s"
  by (simp_all add: revoke_tokens_def)

lemma create_refresh_token_cases:
  assumes "create_refresh_token inet_ok mk s = (res, s')"
  obtains (refused) e where "res = Inl e" "tokens s' = tokens s"
      "refresh_token_insert_check inet_ok (map u_id (rows (users s))) (tokens s)
         (mk (next_id (refresh_tokens s))) = Some e"
    | (created) "res = Inr (mk (next_id (refresh_tokens s)))"
      "tokens s' = tokens s @ [mk (next_id (refresh_tokens s))]"
      "refresh_token_insert_check inet_ok (map u_id (rows (users s))) (tokens s)
         (mk (next_id (refresh_tokens s))) = None"
  using assms
  by (auto simp: create_refresh_token_def split: prod.splits elim!: tbl_insert_cases)

lemma create_refresh_token_frame [frame]:
  "create_refresh_token inet_ok mk s = (res, s') \<Longrightarrow> \<exists>t. s' = s\<lparr>refresh_tokens := t\<rparr>"
  by (auto simp: create_refresh_token_def split: prod.splits)

lemma refresh_check_None:
  "refresh_token_insert_check inet_ok uids rs r = None \<Longrightarrow>
    t_token_hash r \<notin> set (map t_token_hash rs) \<and> t_user_id r \<in> set uids"
  by (auto simp: refresh_token_insert_check_def split: if_splits)

text \<open>
  The replacement row a rotation inserts, and the rows each outcome leaves: the five cases
  of \<open>_rotate\<close> and the refused insertion, which the transaction rolls back.
\<close>

definition replacement :: "refresh_token_row \<Rightarrow> rotation_request \<Rightarrow> int \<Rightarrow> refresh_token_row" where
  "replacement t rq i = \<lparr>t_id = i, t_user_id = t_user_id t, t_token_hash = rq_replacement_hash rq,
     t_family_id = t_family_id t, t_parent_id = Some (t_id t),
     t_device_hash = py_or (t_device_hash t) (rq_device_hash rq),
     t_issued_ip = rq_ip rq, t_expires_at = rq_replacement_expires_at rq, t_revoked_at = None\<rparr>"

definition revoke_family_rows :: "string \<Rightarrow> time \<Rightarrow> refresh_token_row list \<Rightarrow> refresh_token_row list" where
  "revoke_family_rows fam at =
     upd_where (\<lambda>u. t_family_id u = fam \<and> active u) (\<lambda>t. t\<lparr>t_revoked_at := Some at\<rparr>)"

definition consume_row :: "int \<Rightarrow> time \<Rightarrow> refresh_token_row list \<Rightarrow> refresh_token_row list" where
  "consume_row i at = upd_where (\<lambda>u. t_id u = i) (\<lambda>t. t\<lparr>t_revoked_at := Some at\<rparr>)"

definition wrong_device :: "bool \<Rightarrow> rotation_request \<Rightarrow> refresh_token_row \<Rightarrow> bool" where
  "wrong_device bind_device rq t \<longleftrightarrow>
     bind_device \<and> t_device_hash t \<noteq> None \<and> t_device_hash t \<noteq> rq_device_hash rq"

lemma arotate_missing [model_simps]:
  "token_by_hash (rq_token_hash rq) s = None \<Longrightarrow> arotate bind inet_ok rq s =
     (Inr \<lparr>outcome = Missing, result_token = None, previous_issued_ip = None\<rparr>, s)"
  by (simp add: arotate_def run_in_transaction_def rotate_body_def)

lemma arotate_reused [model_simps]:
  "token_by_hash (rq_token_hash rq) s = Some t \<Longrightarrow> \<not> active t \<Longrightarrow> arotate bind inet_ok rq s =
     (Inr \<lparr>outcome = Reused, result_token = Some (refresh_token_dto_of t),
        previous_issued_ip = None\<rparr>, arevoke_family (t_family_id t) (rq_rotated_at rq) s)"
  by (simp add: arotate_def run_in_transaction_def rotate_body_def arevoke_family_def)

lemma arotate_expired [model_simps]:
  "token_by_hash (rq_token_hash rq) s = Some t \<Longrightarrow> active t \<Longrightarrow>
   t_expires_at t \<le> rq_rotated_at rq \<Longrightarrow> arotate bind inet_ok rq s =
     (Inr \<lparr>outcome = Expired, result_token = None, previous_issued_ip = None\<rparr>, s)"
  by (simp add: arotate_def run_in_transaction_def rotate_body_def)

lemma arotate_mismatch [model_simps]:
  "token_by_hash (rq_token_hash rq) s = Some t \<Longrightarrow> active t \<Longrightarrow>
   rq_rotated_at rq < t_expires_at t \<Longrightarrow> wrong_device bind rq t \<Longrightarrow> arotate bind inet_ok rq s =
     (Inr \<lparr>outcome = BindingMismatch, result_token = Some (refresh_token_dto_of t),
        previous_issued_ip = None\<rparr>, arevoke_family (t_family_id t) (rq_rotated_at rq) s)"
  by (simp add: arotate_def run_in_transaction_def rotate_body_def arevoke_family_def
      wrong_device_def)

text \<open>The remaining case inserts the replacement; its insertion may still be refused.\<close>

definition consume ::
  "(string \<Rightarrow> bool) \<Rightarrow> rotation_request \<Rightarrow> refresh_token_row \<Rightarrow> 'z db_scheme \<Rightarrow>
     (exn + refresh_token_row) \<times> 'z db_scheme" where
  "consume inet_ok rq t s = create_refresh_token inet_ok (replacement t rq)
     (revoke_tokens (\<lambda>u. t_id u = t_id t) (rq_rotated_at rq) s)"

lemma replacement_eta:
  "(\<lambda>i. \<lparr>t_id = i, t_user_id = t_user_id t, t_token_hash = rq_replacement_hash rq,
     t_family_id = t_family_id t, t_parent_id = Some (t_id t),
     t_device_hash = py_or (t_device_hash t) (rq_device_hash rq), t_issued_ip = rq_ip rq,
     t_expires_at = rq_replacement_expires_at rq, t_revoked_at = None\<rparr>) = replacement t rq"
  by (rule ext) (simp add: replacement_def)

lemma arotate_live [model_simps]:
  "token_by_hash (rq_token_hash rq) s = Some t \<Longrightarrow> active t \<Longrightarrow>
   rq_rotated_at rq < t_expires_at t \<Longrightarrow> \<not> wrong_device bind rq t \<Longrightarrow> arotate bind inet_ok rq s =
     (case consume inet_ok rq t s of
        (Inl e, s2) \<Rightarrow> (Inl e, rollback s s2)
      | (Inr u, s2) \<Rightarrow> (Inr \<lparr>outcome = Rotated, result_token = Some (refresh_token_dto_of u),
          previous_issued_ip = t_issued_ip t\<rparr>, s2))"
  by (simp add: arotate_def run_in_transaction_def rotate_body_def wrong_device_def consume_def
      replacement_eta Let_def split: prod.split sum.split)

lemma consume_cases:
  assumes "consume inet_ok rq t s = (r, s2)"
  obtains (refused) e where "r = Inl e"
    | (created) "r = Inr (replacement t rq (next_id (refresh_tokens s)))"
      "tokens s2 = consume_row (t_id t) (rq_rotated_at rq) (tokens s) @
         [replacement t rq (next_id (refresh_tokens s))]"
      "rq_replacement_hash rq \<notin> set (map t_token_hash (tokens s))"
      "\<exists>tt. s2 = s\<lparr>refresh_tokens := tt\<rparr>"
proof -
  have nid: "next_id (refresh_tokens (revoke_tokens p at s)) = next_id (refresh_tokens s)" for p at
    by (simp add: revoke_tokens_def)
  note c = assms [unfolded consume_def]
  from c show thesis
  proof (cases rule: create_refresh_token_cases)
    case (refused e)
    from this(1) show thesis by (rule that(1))
  next
    case created
    have "rq_replacement_hash rq \<notin> set (map t_token_hash (tokens s))"
      using refresh_check_None [OF created(3)]
      by (simp add: map_upd_where replacement_def del: set_map)
    moreover have "\<exists>tt. s2 = s\<lparr>refresh_tokens := tt\<rparr>"
      using create_refresh_token_frame [OF c] by (auto simp: revoke_tokens_def)
    ultimately show thesis
      using created(1,2) by (intro that(2)) (simp_all add: nid consume_row_def)
  qed
qed

lemma arotate_cases:
  assumes "arotate bind inet_ok rq s = (res, s')"
  obtains
    (missing) "token_by_hash (rq_token_hash rq) s = None" "s' = s"
      "res = Inr \<lparr>outcome = Missing, result_token = None, previous_issued_ip = None\<rparr>"
  | (reused) t where "token_by_hash (rq_token_hash rq) s = Some t" "\<not> active t"
      "s' = arevoke_family (t_family_id t) (rq_rotated_at rq) s"
      "res = Inr \<lparr>outcome = Reused, result_token = Some (refresh_token_dto_of t),
         previous_issued_ip = None\<rparr>"
  | (expired) t where "token_by_hash (rq_token_hash rq) s = Some t" "active t"
      "t_expires_at t \<le> rq_rotated_at rq" "s' = s"
      "res = Inr \<lparr>outcome = Expired, result_token = None, previous_issued_ip = None\<rparr>"
  | (mismatch) t where "token_by_hash (rq_token_hash rq) s = Some t" "active t"
      "rq_rotated_at rq < t_expires_at t" "wrong_device bind rq t"
      "s' = arevoke_family (t_family_id t) (rq_rotated_at rq) s"
      "res = Inr \<lparr>outcome = BindingMismatch, result_token = Some (refresh_token_dto_of t),
         previous_issued_ip = None\<rparr>"
  | (rotated) t u where "token_by_hash (rq_token_hash rq) s = Some t" "active t"
      "rq_rotated_at rq < t_expires_at t" "\<not> wrong_device bind rq t"
      "u = replacement t rq (next_id (refresh_tokens s))"
      "tokens s' = consume_row (t_id t) (rq_rotated_at rq) (tokens s) @ [u]"
      "res = Inr \<lparr>outcome = Rotated, result_token = Some (refresh_token_dto_of u),
         previous_issued_ip = t_issued_ip t\<rparr>"
      "rq_replacement_hash rq \<notin> set (map t_token_hash (tokens s))"
      "\<exists>tt. s' = s\<lparr>refresh_tokens := tt\<rparr>"
  | (refused) t e where "token_by_hash (rq_token_hash rq) s = Some t" "active t"
      "res = Inl e" "same_rows s s'"
proof (cases "token_by_hash (rq_token_hash rq) s")
  case None
  from assms [unfolded arotate_missing [OF None]] None show thesis by (intro that(1)) auto
next
  case (Some t)
  consider (r) "\<not> active t" | (e) "active t" "t_expires_at t \<le> rq_rotated_at rq"
    | (m) "active t" "rq_rotated_at rq < t_expires_at t" "wrong_device bind rq t"
    | (n) "active t" "rq_rotated_at rq < t_expires_at t" "\<not> wrong_device bind rq t"
    by fastforce
  then show thesis
  proof cases
    case r
    from assms [unfolded arotate_reused [OF Some r]] Some r show thesis
      by (intro that(2)) auto
  next
    case e
    from assms [unfolded arotate_expired [OF Some e]] Some e show thesis
      by (intro that(3)) auto
  next
    case m
    from assms [unfolded arotate_mismatch [OF Some m]] Some m show thesis
      by (intro that(4)) auto
  next
    case n
    obtain r2 s2 where c: "consume inet_ok rq t s = (r2, s2)"
      by (cases "consume inet_ok rq t s")
    note a = assms [unfolded arotate_live [OF Some n] c]
    from c show thesis
    proof (cases rule: consume_cases)
      case (refused e)
      with a have "res = Inl e" "same_rows s s'" by (auto simp: same_rows_rollback)
      with Some n(1) show thesis by (rule that(6))
    next
      case created
      with a have "s' = s2" "res = Inr \<lparr>outcome = Rotated, result_token =
          Some (refresh_token_dto_of (replacement t rq (next_id (refresh_tokens s)))),
          previous_issued_ip = t_issued_ip t\<rparr>"
        by auto
      with Some n created show thesis by (intro that(5)) auto
    qed
  qed
qed

end
