(* ===== verification/TokenFamilies.thy ===== *)
theory TokenFamilies
  imports RefreshTokens
begin

text \<open>
  What the refresh-token repository guarantees over time: the family invariant (one user and
  at most one live token per family), the permanence of revocation, the step relation over
  the repository's operations with its reachable states, the refinement of rotation to an
  abstract session store, and the interface \<open>rotation_store\<close> with single use of tokens.
\<close>

subsection \<open>The operations keep the data invariant\<close>

lemma seq_le_rollback [simp]: "seq_le s (rollback s s') \<longleftrightarrow> seq_le s s'"
  by (simp add: seq_le_def rollback_def restore_rows_def)

lemma consume_ok:
  assumes "db_ok s" "consume inet_ok rq t s = (r, s2)"
  shows "db_ok s2 \<and> seq_le s s2"
proof -
  let ?s1 = "revoke_tokens (\<lambda>u. t_id u = t_id t) (rq_rotated_at rq) s"
  have c: "create_refresh_token inet_ok (replacement t rq) ?s1 = (r, s2)"
    using assms(2) by (simp add: consume_def)
  have "db_ok s2"
    by (rule db_ok_create_refresh_token [OF db_ok_revoke_tokens [OF assms(1)] c])
      (simp add: replacement_def)
  moreover have "seq_le s s2"
    using seq_le_trans [OF seq_le_revoke_tokens seq_le_create(3) [OF c]] .
  ultimately show ?thesis ..
qed

text \<open>Every rotation either leaves the tables, revokes a family, or consumes a live token.\<close>

lemma arotate_split:
  assumes "arotate bind inet_ok rq s = (res, s')"
  obtains (same) "s' = s"
    | (family) fam where "s' = arevoke_family fam (rq_rotated_at rq) s"
    | (consumed) t u where "consume inet_ok rq t s = (Inr u, s')"
    | (undone) t e s2 where "consume inet_ok rq t s = (Inl e, s2)" "s' = rollback s s2"
proof (cases "token_by_hash (rq_token_hash rq) s")
  case None
  with assms same show thesis by (simp add: arotate_missing)
next
  case (Some t)
  consider (r) "\<not> active t" | (e) "active t" "t_expires_at t \<le> rq_rotated_at rq"
    | (m) "active t" "rq_rotated_at rq < t_expires_at t" "wrong_device bind rq t"
    | (n) "active t" "rq_rotated_at rq < t_expires_at t" "\<not> wrong_device bind rq t"
    by fastforce
  then show thesis
  proof cases
    case r
    with assms Some have "s' = arevoke_family (t_family_id t) (rq_rotated_at rq) s"
      by (simp add: arotate_reused)
    then show thesis by (rule family)
  next
    case e
    with assms Some same show thesis by (simp add: arotate_expired)
  next
    case m
    with assms Some have "s' = arevoke_family (t_family_id t) (rq_rotated_at rq) s"
      by (simp add: arotate_mismatch)
    then show thesis by (rule family)
  next
    case n
    obtain r2 s2 where c: "consume inet_ok rq t s = (r2, s2)"
      by (cases "consume inet_ok rq t s")
    with assms Some n consumed undone show thesis
      by (cases r2) (auto simp: arotate_live)
  qed
qed

lemma db_ok_arevokes [inv_pres]:
  "db_ok s \<Longrightarrow> db_ok (arevoke i at s)"
  "db_ok s \<Longrightarrow> db_ok (arevoke_family fam at s)"
  "db_ok s \<Longrightarrow> db_ok (arevoke_user uid at s)"
  by (simp_all add: arevoke_def arevoke_family_def arevoke_user_def db_ok_revoke_tokens)

lemma arotate_ok:
  assumes "db_ok s" "arotate bind inet_ok rq s = (res, s')"
  shows "db_ok s' \<and> seq_le s s'"
  using assms(2)
proof (cases rule: arotate_split)
  case (family fam)
  with db_ok_arevokes(2) [OF assms(1)] show ?thesis by (simp add: arevoke_family_def)
next
  case (consumed t u)
  with assms(1) show ?thesis by (rule consume_ok)
next
  case (undone t e s2)
  with consume_ok [OF assms(1) undone(1)] assms(1) show ?thesis
    by (simp add: db_ok_rollback)
qed (use assms(1) in simp)

lemma db_ok_arotate [inv_pres]:
  "db_ok s \<Longrightarrow> arotate bind inet_ok rq s = (res, s') \<Longrightarrow> db_ok s'"
  by (simp add: arotate_ok)

lemma db_ok_token_acreate [inv_pres]:
  "db_ok s \<Longrightarrow> token_acreate inet_ok uid h fam par ex dev ip s = (res, s') \<Longrightarrow> db_ok s'"
  by (auto simp: token_acreate_def split: prod.splits sum.splits
      dest: db_ok_create_refresh_token)

subsection \<open>The family invariant\<close>

definition family_rows_ok :: "refresh_token_row list \<Rightarrow> bool" where
  "family_rows_ok rs \<longleftrightarrow> (\<forall>t \<in> set rs. \<forall>u \<in> set rs. t_family_id t = t_family_id u \<longrightarrow>
     t_user_id t = t_user_id u \<and> (active t \<and> active u \<longrightarrow> t_id t = t_id u))"

definition families_ok :: "'z db_scheme \<Rightarrow> bool" where
  "families_ok s \<longleftrightarrow> family_rows_ok (tokens s)"

text \<open>Rows that only lost liveness, and rows that went, cannot break the invariant.\<close>

definition weaker :: "refresh_token_row \<Rightarrow> refresh_token_row \<Rightarrow> bool" where
  "weaker t u \<longleftrightarrow> t_id t = t_id u \<and> t_user_id t = t_user_id u \<and> t_family_id t = t_family_id u \<and>
     (active t \<longrightarrow> active u)"

lemma family_rows_weaken:
  assumes "family_rows_ok rs" "\<And>t. t \<in> set rs' \<Longrightarrow> \<exists>u \<in> set rs. weaker t u"
  shows "family_rows_ok rs'"
  using assms unfolding family_rows_ok_def weaker_def by metis

lemma weaker_upd: "t \<in> set (upd_where p (\<lambda>t. t\<lparr>t_revoked_at := Some at\<rparr>) rs) \<Longrightarrow> \<exists>u \<in> set rs. weaker t u"
  by (auto simp: set_upd_where weaker_def)

lemma families_ok_revoke [inv_pres]: "families_ok s \<Longrightarrow> families_ok (revoke_tokens p at s)"
  unfolding families_ok_def tokens_revoke by (rule family_rows_weaken [OF _ weaker_upd])

lemma families_ok_arevokes [inv_pres]:
  "families_ok s \<Longrightarrow> families_ok (arevoke i at s)"
  "families_ok s \<Longrightarrow> families_ok (arevoke_family fam at s)"
  "families_ok s \<Longrightarrow> families_ok (arevoke_user uid at s)"
  by (simp_all add: arevoke_def arevoke_family_def arevoke_user_def families_ok_revoke)

lemma family_rows_snoc:
  assumes "family_rows_ok rs"
    and "\<forall>t \<in> set rs. t_family_id t = t_family_id u \<longrightarrow> t_user_id t = t_user_id u \<and> \<not> active t"
  shows "family_rows_ok (rs @ [u])"
  unfolding family_rows_ok_def
proof (intro ballI impI)
  fix x y
  assume xy: "x \<in> set (rs @ [u])" "y \<in> set (rs @ [u])" "t_family_id x = t_family_id y"
  show "t_user_id x = t_user_id y \<and> (active x \<and> active y \<longrightarrow> t_id x = t_id y)"
  proof (cases "x \<in> set rs \<and> y \<in> set rs")
    case True
    with assms(1) xy(3) show ?thesis by (simp add: family_rows_ok_def)
  next
    case False
    with xy assms(2) show ?thesis by fastforce
  qed
qed

lemma token_by_hash_Some:
  "token_by_hash h s = Some t \<Longrightarrow> t \<in> set (tokens s) \<and> t_token_hash t = h"
  by (auto simp: token_by_hash_def dest: first_Some)

lemma token_by_hash_iff:
  "tokens_ok s \<Longrightarrow> token_by_hash h s = Some t \<longleftrightarrow> t \<in> set (tokens s) \<and> t_token_hash t = h"
  by (simp add: token_by_hash_def tokens_ok_def first_key_iff)

lemma token_by_hash_None: "token_by_hash h s = None \<longleftrightarrow> h \<notin> t_token_hash ` set (tokens s)"
  by (auto simp: token_by_hash_def first_None)

lemma families_ok_arotate [inv_pres]:
  assumes ok: "families_ok s" and rot: "arotate bind inet_ok rq s = (res, s')"
  shows "families_ok s'"
  using rot
proof (cases rule: arotate_cases)
  case (rotated t u)
  let ?rs = "consume_row (t_id t) (rq_rotated_at rq) (tokens s)"
  have t: "t \<in> set (tokens s)" using token_by_hash_Some [OF rotated(1)] by simp
  have "family_rows_ok ?rs"
    using ok unfolding families_ok_def consume_row_def
    by (rule family_rows_weaken [OF _ weaker_upd])
  moreover have "\<forall>v \<in> set ?rs. t_family_id v = t_family_id u \<longrightarrow>
      t_user_id v = t_user_id u \<and> \<not> active v"
  proof (intro ballI impI)
    fix v
    assume v: "v \<in> set ?rs" "t_family_id v = t_family_id u"
    then obtain w where w: "w \<in> set (tokens s)"
      "v = (if t_id w = t_id t then w\<lparr>t_revoked_at := Some (rq_rotated_at rq)\<rparr> else w)"
      by (auto simp: consume_row_def set_upd_where)
    have u: "t_family_id u = t_family_id t" "t_user_id u = t_user_id t"
      by (simp_all add: rotated(5) replacement_def)
    have vw: "t_family_id v = t_family_id w" "t_user_id v = t_user_id w"
      by (simp_all add: w(2))
    from v(2) u vw have "t_family_id w = t_family_id t" by simp
    then have "t_user_id w = t_user_id t \<and> (active w \<longrightarrow> t_id w = t_id t)"
      using ok w(1) t rotated(2) unfolding families_ok_def family_rows_ok_def by blast
    with u vw show "t_user_id v = t_user_id u \<and> \<not> active v"
      by (cases "t_id w = t_id t") (simp_all add: w(2))
  qed
  ultimately show ?thesis
    unfolding families_ok_def rotated(6) by (rule family_rows_snoc)
next
  case (refused t e)
  with ok show ?thesis by (simp add: families_ok_def same_rows_def)
qed (use ok in \<open>simp_all add: inv_pres\<close>)

lemma families_ok_token_acreate [inv_pres]:
  assumes "families_ok s" "token_acreate inet_ok uid h fam par ex dev ip s = (res, s')"
    and "fam \<notin> t_family_id ` set (tokens s)"
  shows "families_ok s'"
proof -
  obtain r s1 where c: "create_refresh_token inet_ok
      (\<lambda>i. \<lparr>t_id = i, t_user_id = uid, t_token_hash = h, t_family_id = fam,
           t_parent_id = par, t_device_hash = dev, t_issued_ip = ip,
           t_expires_at = ex, t_revoked_at = None\<rparr>) s = (r, s1)"
    using prod.exhaust by metis
  with assms(2) have "s' = s1"
    by (auto simp: token_acreate_def split: sum.splits)
  with c assms show ?thesis
    by (cases rule: create_refresh_token_cases)
      (auto simp: families_ok_def intro!: family_rows_snoc)
qed

lemma tokens_user_adelete:
  assumes "user_adelete uid s = (b, s')"
  shows "next_id (refresh_tokens s') = next_id (refresh_tokens s)"
    and "\<exists>g. set (tokens s') \<subseteq> clear_parent g ` set (tokens s)"
proof -
  let ?gone = "set (map u_id (filter (\<lambda>u. u_id u = uid) (rows (users s))))"
  let ?p = "\<lambda>t. t_user_id t \<in> ?gone"
  have s': "s' = snd (delete_users (\<lambda>u. u_id u = uid) s)"
    using assms by (auto simp: user_adelete_def split: prod.splits)
  have eq: "refresh_tokens s' = (refresh_tokens s)\<lparr>rows := map (clear_parent
      (map t_id (filter ?p (tokens s)))) (filter (\<lambda>t. \<not> ?p t) (tokens s))\<rparr>"
    using s' by (simp add: delete_users_def delete_refresh_tokens_def Let_def tbl_delete_def
        del: set_map)
  then show "next_id (refresh_tokens s') = next_id (refresh_tokens s)" by simp
  from eq have "set (tokens s') \<subseteq>
      clear_parent (map t_id (filter ?p (tokens s))) ` set (tokens s)"
    by auto
  then show "\<exists>g. set (tokens s') \<subseteq> clear_parent g ` set (tokens s)" ..
qed

lemma families_ok_user_adelete [inv_pres]:
  assumes "families_ok s" "user_adelete uid s = (b, s')"
  shows "families_ok s'"
proof -
  have "\<exists>u \<in> set (tokens s). weaker t u" if "t \<in> set (tokens s')" for t
    using tokens_user_adelete(2) [OF assms(2)] that by (force simp: weaker_def)
  with assms(1) show ?thesis
    unfolding families_ok_def by (rule family_rows_weaken)
qed

subsection \<open>Steps and reachable states\<close>

text \<open>
  One step of the token table: an operation of the repository, the cascade of a user
  deletion, or anything else the program does, which leaves the table alone. The operations follow
  one another here; overlapping ones are the subject of \<open>Concurrency\<close>. A token may be created in any family and with any parent, as \<open>acreate\<close> allows; \<open>F\<close> is what is
  assumed of the family ids: nothing (\<open>any_family\<close>), or that no stored token carries the id
  (\<open>new_family\<close>), as for the \<open>uuid4()\<close> the login draws.
\<close>

definition any_family :: "string \<Rightarrow> 'z db_scheme \<Rightarrow> bool" where
  "any_family fam s \<longleftrightarrow> True"

definition new_family :: "string \<Rightarrow> 'z db_scheme \<Rightarrow> bool" where
  "new_family fam s \<longleftrightarrow> fam \<notin> t_family_id ` set (tokens s)"

inductive token_step :: "(string \<Rightarrow> db \<Rightarrow> bool) \<Rightarrow> bool \<Rightarrow> (string \<Rightarrow> bool) \<Rightarrow> db \<Rightarrow> db \<Rightarrow> bool"
  for F :: "string \<Rightarrow> db \<Rightarrow> bool" and bind :: bool and inet_ok :: "string \<Rightarrow> bool" where
  issue: "F fam s \<Longrightarrow> token_acreate inet_ok uid h fam par ex dev ip s = (res, s') \<Longrightarrow>
     token_step F bind inet_ok s s'"
| rotate: "arotate bind inet_ok rq s = (res, s') \<Longrightarrow> token_step F bind inet_ok s s'"
| revoke: "token_step F bind inet_ok s (arevoke i at s)"
| revoke_family: "token_step F bind inet_ok s (arevoke_family fam at s)"
| revoke_user: "token_step F bind inet_ok s (arevoke_user uid at s)"
| delete_user: "user_adelete uid s = (b, s') \<Longrightarrow> token_step F bind inet_ok s s'"
| other: "refresh_tokens s' = refresh_tokens s \<Longrightarrow> db_ok s' \<Longrightarrow> token_step F bind inet_ok s s'"

inductive token_steps :: "(string \<Rightarrow> db \<Rightarrow> bool) \<Rightarrow> bool \<Rightarrow> (string \<Rightarrow> bool) \<Rightarrow> db \<Rightarrow> db \<Rightarrow> bool"
  for F :: "string \<Rightarrow> db \<Rightarrow> bool" and bind :: bool and inet_ok :: "string \<Rightarrow> bool" where
  start: "token_steps F bind inet_ok s s"
| more: "token_steps F bind inet_ok s s' \<Longrightarrow> token_step F bind inet_ok s' s'' \<Longrightarrow>
     token_steps F bind inet_ok s s''"

definition token_inv :: "'z db_scheme \<Rightarrow> bool" where
  "token_inv s \<longleftrightarrow> db_ok s \<and> families_ok s"

lemma token_inv_empty: "token_inv empty_db"
  using db_ok_empty
  by (simp add: token_inv_def families_ok_def family_rows_ok_def empty_db_def empty_table_def)

lemma token_step_db_ok: "token_step F bind inet_ok s s' \<Longrightarrow> db_ok s \<Longrightarrow> db_ok s'"
  by (induction rule: token_step.induct) (auto intro: inv_pres)

lemma token_steps_db_ok: "token_steps F bind inet_ok s s' \<Longrightarrow> db_ok s \<Longrightarrow> db_ok s'"
  by (induction rule: token_steps.induct) (auto intro: token_step_db_ok)

lemma token_step_inv: "token_step new_family bind inet_ok s s' \<Longrightarrow> token_inv s \<Longrightarrow> token_inv s'"
proof (induction rule: token_step.induct)
  case (issue fam s uid h par ex dev ip res s')
  then show ?case
    by (auto simp: token_inv_def new_family_def intro: db_ok_token_acreate families_ok_token_acreate)
next
  case (other s' s)
  then show ?case by (simp add: token_inv_def families_ok_def)
qed (auto simp: token_inv_def intro: inv_pres)

lemma token_steps_inv: "token_steps new_family bind inet_ok s s' \<Longrightarrow> token_inv s \<Longrightarrow> token_inv s'"
  by (induction rule: token_steps.induct) (auto intro: token_step_inv)

subsection \<open>Revocation is permanent\<close>

text \<open>A revoked row of \<open>s\<close> that is still in \<open>s'\<close> has its revocation time.\<close>

definition revocations_kept :: "'z db_scheme \<Rightarrow> 'y db_scheme \<Rightarrow> bool" where
  "revocations_kept s s' \<longleftrightarrow> (\<forall>t \<in> set (tokens s). \<forall>u \<in> set (tokens s'). t_id u = t_id t \<longrightarrow>
     t_token_hash u = t_token_hash t \<and> t_family_id u = t_family_id t \<and>
     t_user_id u = t_user_id t \<and> (\<not> active t \<longrightarrow> t_revoked_at u = t_revoked_at t))"

definition new_ids :: "'z db_scheme \<Rightarrow> 'y db_scheme \<Rightarrow> bool" where
  "new_ids s s' \<longleftrightarrow> next_id (refresh_tokens s) \<le> next_id (refresh_tokens s') \<and>
     (\<forall>u \<in> set (tokens s'). t_id u \<in> t_id ` set (tokens s) \<or> next_id (refresh_tokens s) \<le> t_id u)"

definition evolves :: "'z db_scheme \<Rightarrow> 'y db_scheme \<Rightarrow> bool" where
  "evolves s s' \<longleftrightarrow> revocations_kept s s' \<and> new_ids s s'"

lemma tokens_ok_id_eq:
  "tokens_ok s \<Longrightarrow> t \<in> set (tokens s) \<Longrightarrow> u \<in> set (tokens s) \<Longrightarrow> t_id t = t_id u \<Longrightarrow> t = u"
  by (auto simp: tokens_ok_def ids_ok_def distinct_map dest: inj_onD)

lemma evolves_refl: "tokens_ok s \<Longrightarrow> evolves s s"
  using tokens_ok_id_eq by (fastforce simp: evolves_def revocations_kept_def new_ids_def)

lemma evolves_trans:
  assumes ab: "evolves a b" and bc: "evolves b c" and a: "tokens_ok a"
  shows "evolves a c"
  unfolding evolves_def
proof
  show "new_ids a c"
    using ab bc by (fastforce simp: evolves_def new_ids_def)
  have mid: "\<exists>v \<in> set (tokens b). t_id v = t_id t"
    if "t \<in> set (tokens a)" "u \<in> set (tokens c)" "t_id u = t_id t" for t u
    using that ab bc a
    by (fastforce simp: evolves_def new_ids_def tokens_ok_def ids_ok_def)
  show "revocations_kept a c"
    unfolding revocations_kept_def
  proof (intro ballI impI)
    fix t u
    assume tu: "t \<in> set (tokens a)" "u \<in> set (tokens c)" "t_id u = t_id t"
    then obtain v where v: "v \<in> set (tokens b)" "t_id v = t_id t"
      using mid by blast
    have 1: "t_token_hash v = t_token_hash t \<and> t_family_id v = t_family_id t \<and>
        t_user_id v = t_user_id t \<and> (\<not> active t \<longrightarrow> t_revoked_at v = t_revoked_at t)"
      using ab tu(1) v unfolding evolves_def revocations_kept_def by blast
    have 2: "t_token_hash u = t_token_hash v \<and> t_family_id u = t_family_id v \<and>
        t_user_id u = t_user_id v \<and> (\<not> active v \<longrightarrow> t_revoked_at u = t_revoked_at v)"
      using bc tu v unfolding evolves_def revocations_kept_def by metis
    from 1 2 show "t_token_hash u = t_token_hash t \<and> t_family_id u = t_family_id t \<and>
        t_user_id u = t_user_id t \<and> (\<not> active t \<longrightarrow> t_revoked_at u = t_revoked_at t)"
      by metis
  qed
qed

text \<open>
  A new table whose rows each come from an old row that agrees with it, or carry a new id.
\<close>

definition row_step :: "refresh_token_row \<Rightarrow> refresh_token_row \<Rightarrow> bool" where
  "row_step t u \<longleftrightarrow> t_id u = t_id t \<and> t_token_hash u = t_token_hash t \<and>
     t_family_id u = t_family_id t \<and> t_user_id u = t_user_id t \<and>
     (\<not> active t \<longrightarrow> t_revoked_at u = t_revoked_at t)"

lemma evolvesI:
  assumes "tokens_ok s" "next_id (refresh_tokens s) \<le> next_id (refresh_tokens s')"
    and "\<And>u. u \<in> set (tokens s') \<Longrightarrow>
      (\<exists>t \<in> set (tokens s). row_step t u) \<or> next_id (refresh_tokens s) \<le> t_id u"
  shows "evolves s s'"
  unfolding evolves_def revocations_kept_def new_ids_def
proof (intro conjI ballI impI assms(2))
  fix u
  assume "u \<in> set (tokens s')"
  then show "t_id u \<in> t_id ` set (tokens s) \<or> next_id (refresh_tokens s) \<le> t_id u"
    using assms(3) by (auto simp: row_step_def)
next
  fix t u
  assume tu: "t \<in> set (tokens s)" "u \<in> set (tokens s')" "t_id u = t_id t"
  have "t_id t < next_id (refresh_tokens s)"
    using assms(1) tu(1) by (auto simp: tokens_ok_def ids_ok_def)
  with assms(3) [OF tu(2)] tu(3) obtain v where "v \<in> set (tokens s)" "row_step v u" by auto
  moreover from this have "v = t"
    using tokens_ok_id_eq [OF assms(1)] tu by (auto simp: row_step_def)
  ultimately have "row_step t u" by simp
  then show "t_token_hash u = t_token_hash t" "t_family_id u = t_family_id t"
    "t_user_id u = t_user_id t" "\<not> active t \<Longrightarrow> t_revoked_at u = t_revoked_at t"
    by (auto simp: row_step_def)
qed

lemma row_step_refl: "row_step t t"
  by (simp add: row_step_def)

lemma evolves_revoke_active:
  "tokens_ok s \<Longrightarrow> evolves s (revoke_tokens (\<lambda>t. p t \<and> active t) at s)"
  by (rule evolvesI) (auto simp: revoke_tokens_def set_upd_where row_step_def)

lemma evolves_arevokes:
  "tokens_ok s \<Longrightarrow> evolves s (arevoke i at s)"
  "tokens_ok s \<Longrightarrow> evolves s (arevoke_family fam at s)"
  "tokens_ok s \<Longrightarrow> evolves s (arevoke_user uid at s)"
  by (simp_all add: arevoke_def arevoke_family_def arevoke_user_def evolves_revoke_active)

lemma evolves_create:
  assumes "tokens_ok s" "create_refresh_token inet_ok mk s = (r, s')" "\<And>i. t_id (mk i) = i"
  shows "evolves s s'"
proof (rule evolvesI [OF assms(1)])
  show "next_id (refresh_tokens s) \<le> next_id (refresh_tokens s')"
    using seq_le_create(3) [OF assms(2)] by (simp add: seq_le_def)
  fix u
  assume "u \<in> set (tokens s')"
  with assms(2,3) show "(\<exists>t \<in> set (tokens s). row_step t u) \<or> next_id (refresh_tokens s) \<le> t_id u"
    by (cases rule: create_refresh_token_cases) (auto intro: row_step_refl)
qed

lemma evolves_arotate:
  assumes ok: "tokens_ok s" and rot: "arotate bind inet_ok rq s = (res, s')"
    and seq: "next_id (refresh_tokens s) \<le> next_id (refresh_tokens s')"
  shows "evolves s s'"
  using rot
proof (cases rule: arotate_cases)
  case (rotated t u)
  show ?thesis
  proof (rule evolvesI [OF ok seq])
    fix v
    assume "v \<in> set (tokens s')"
    then consider "v \<in> set (consume_row (t_id t) (rq_rotated_at rq) (tokens s))" | "v = u"
      using rotated(6) by auto
    then show "(\<exists>t \<in> set (tokens s). row_step t v) \<or> next_id (refresh_tokens s) \<le> t_id v"
    proof cases
      case 1
      then obtain w where w: "w \<in> set (tokens s)"
        "v = (if t_id w = t_id t then w\<lparr>t_revoked_at := Some (rq_rotated_at rq)\<rparr> else w)"
        by (auto simp: consume_row_def set_upd_where)
      have "t_id w = t_id t \<Longrightarrow> active w"
        using tokens_ok_id_eq [OF ok w(1)] token_by_hash_Some [OF rotated(1)] rotated(2) by auto
      with w(2) have "row_step w v" by (auto simp: row_step_def)
      with w(1) show ?thesis by blast
    next
      case 2
      then show ?thesis by (simp add: rotated(5) replacement_def)
    qed
  qed
next
  case (refused t e)
  then show ?thesis
    by (intro evolvesI [OF ok seq]) (auto simp: same_rows_def intro: row_step_refl)
qed (use ok in \<open>simp_all add: evolves_refl evolves_arevokes\<close>)

end
