(* ===== verification/Samples.thy ===== *)
theory Samples
  imports TokenFamilies
begin

text \<open>
  One small database the witnesses evaluate the theorems on: the catalog with the role
  \<open>admin\<close> granted two permissions and the role \<open>user\<close> none, an administrator (id 1) and a user
  (id 2), and two families of refresh tokens, one of which has been rotated once.
\<close>

definition sample_user :: "int \<Rightarrow> string \<Rightarrow> user_row" where
  "sample_user i email = \<lparr>u_id = i, u_email = email, u_password = ''pw'' @ email,
     u_is_active = True, u_is_staff = False, u_is_superuser = False, u_date_joined = 0\<rparr>"

definition sample_token ::
  "int \<Rightarrow> int \<Rightarrow> string \<Rightarrow> string \<Rightarrow> int option \<Rightarrow> time option \<Rightarrow> refresh_token_row" where
  "sample_token i uid h fam parent revoked = \<lparr>t_id = i, t_user_id = uid, t_token_hash = h,
     t_family_id = fam, t_parent_id = parent, t_device_hash = Some ''dev'',
     t_issued_ip = Some ''10.0.0.1'', t_expires_at = 100 * sec, t_revoked_at = revoked\<rparr>"

definition sample :: "'z \<Rightarrow> 'z db_scheme" where
  "sample z = \<lparr>
     users = \<lparr>rows = [sample_user 1 ''root@x.io'', sample_user 2 ''ann@x.io''], next_id = 3\<rparr>,
     permissions = \<lparr>rows = [\<lparr>p_id = 1, p_code = ''user.read''\<rparr>, \<lparr>p_id = 2, p_code = ''role.read''\<rparr>],
       next_id = 3\<rparr>,
     roles = \<lparr>rows = [\<lparr>r_id = 1, r_name = ''admin''\<rparr>, \<lparr>r_id = 2, r_name = ''user''\<rparr>], next_id = 3\<rparr>,
     user_roles = \<lparr>rows = [\<lparr>ur_id = 1, ur_user_id = 1, ur_role_id = 1\<rparr>,
       \<lparr>ur_id = 2, ur_user_id = 2, ur_role_id = 2\<rparr>], next_id = 3\<rparr>,
     role_permissions = \<lparr>rows = [\<lparr>rp_id = 1, rp_role_id = 1, rp_permission_id = 1\<rparr>,
       \<lparr>rp_id = 2, rp_role_id = 1, rp_permission_id = 2\<rparr>], next_id = 3\<rparr>,
     refresh_tokens = \<lparr>rows = [sample_token 1 1 ''h1'' ''fam1'' None (Some (5 * sec)),
       sample_token 2 1 ''h2'' ''fam1'' (Some 1) None,
       sample_token 3 2 ''h3'' ''fam2'' None None], next_id = 4\<rparr>,
     audit_logs = empty_table, \<dots> = z\<rparr>"

definition sample_request :: "string \<Rightarrow> string \<Rightarrow> rotation_request" where
  "sample_request h h' = \<lparr>rq_token_hash = h, rq_replacement_hash = h',
     rq_replacement_expires_at = 200 * sec, rq_rotated_at = 10 * sec,
     rq_device_hash = Some ''dev'', rq_ip = Some ''10.0.0.2''\<rparr>"

lemmas sample_defs = sample_def sample_user_def sample_token_def sample_request_def

lemma sample_fields [simp]:
  "rows (users (sample z)) = [sample_user 1 ''root@x.io'', sample_user 2 ''ann@x.io'']"
  "rows (audit_logs (sample z)) = []"
  "next_id (users (sample z)) = 3" "next_id (audit_logs (sample z)) = 1"
  by (simp_all add: sample_def empty_table_def)

lemma sample_db_ok: "db_ok (sample z)"
  by (simp add: db_ok_def ok_defs token_links_ok_def ids_ok_def sample_defs empty_table_def
      fits_defs too_long_def lower_def lower_char_def is_upper_char_def)

lemma sample_families_ok: "families_ok (sample z)"
  by (simp add: families_ok_def family_rows_ok_def sample_defs)

lemma sample_tokens_ok: "tokens_ok (sample z)"
  using sample_db_ok [of z] by (simp add: db_ok_def)

lemma sample_token_inv: "token_inv (sample z)"
  by (simp add: token_inv_def sample_db_ok sample_families_ok)

lemma sample_emails_canonical: "emails_canonical (sample z)"
  by (simp add: emails_canonical_def sample_defs lower_def lower_char_def is_upper_char_def)

end
