(* ===== verification/TokenUse.thy ===== *)
theory TokenUse
  imports TokenFamilies Samples
begin

text \<open>
  How the refresh-token table changes along the steps of theory \<open>TokenFamilies\<close>, the
  interface \<open>rotation_store\<close> the authentication service relies on with the single use of a
  token, and the refinement of rotation to an abstract session store.
\<close>

subsection \<open>Evolution of the table\<close>

lemma evolves_user_adelete:
  assumes "tokens_ok s" "user_adelete uid s = (b, s')"
  shows "evolves s s'"
proof (rule evolvesI [OF assms(1)])
  show "next_id (refresh_tokens s) \<le> next_id (refresh_tokens s')"
    using tokens_user_adelete(1) [OF assms(2)] by simp
  fix u
  assume "u \<in> set (tokens s')"
  with tokens_user_adelete(2) [OF assms(2)] obtain g t where "t \<in> set (tokens s)"
    "u = clear_parent g t" by blast
  then show "(\<exists>t \<in> set (tokens s). row_step t u) \<or> next_id (refresh_tokens s) \<le> t_id u"
    by (auto simp: row_step_def)
qed

lemma evolves_token_step:
  assumes "token_step F bind inet_ok s s'" "db_ok s"
  shows "evolves s s'"
proof -
  from assms(2) have ok: "tokens_ok s" and db: "db_ok s"
    by (simp_all add: db_ok_def)
  from assms(1) show ?thesis
  proof cases
    case (issue fam uid h par ex dev ip res)
    obtain r s1 where c: "create_refresh_token inet_ok
        (\<lambda>i. \<lparr>t_id = i, t_user_id = uid, t_token_hash = h, t_family_id = fam,
             t_parent_id = par, t_device_hash = dev, t_issued_ip = ip,
             t_expires_at = ex, t_revoked_at = None\<rparr>) s = (r, s1)"
      using prod.exhaust by metis
    with issue(2) have "s' = s1" by (auto simp: token_acreate_def split: sum.splits)
    moreover have "evolves s s1" by (rule evolves_create [OF ok c]) simp
    ultimately show ?thesis by simp
  next
    case (rotate rq res)
    then show ?thesis
      using evolves_arotate [OF ok rotate] arotate_ok [OF db rotate] by (simp add: seq_le_def)
  next
    case (delete_user uid b)
    then show ?thesis by (rule evolves_user_adelete [OF ok])
  next
    case other
    show ?thesis using evolves_refl [OF ok]
      unfolding evolves_def revocations_kept_def new_ids_def other(1) .
  next
    case (revoke i at)
    show ?thesis unfolding revoke by (rule evolves_arevokes(1) [OF ok])
  next
    case (revoke_family fam at)
    show ?thesis unfolding revoke_family by (rule evolves_arevokes(2) [OF ok])
  next
    case (revoke_user uid at)
    show ?thesis unfolding revoke_user by (rule evolves_arevokes(3) [OF ok])
  qed
qed

lemma evolves_token_steps:
  assumes "token_steps F bind inet_ok s s'" "db_ok s"
  shows "evolves s s'"
  using assms
proof (induction rule: token_steps.induct)
  case (start s)
  then show ?case by (simp add: evolves_refl db_ok_def)
next
  case (more s s' s'')
  have inv': "db_ok s'" using more.hyps(1) more.prems by (rule token_steps_db_ok)
  show ?case
    using evolves_trans [OF more.IH [OF more.prems] evolves_token_step [OF more.hyps(2) inv']]
      more.prems
    by (simp add: db_ok_def)
qed

subsection \<open>The interface of the rotating store\<close>

text \<open>
  What a client of the repository may rely on: \<open>lookup s h\<close> is the family of the token with
  digest \<open>h\<close> and whether it is live. Rotation consumes a live token into a new one of its
  family, and refuses everything else, closing the family on a replay or a wrong device.
\<close>

definition close_family :: "string \<Rightarrow> (string \<times> bool) option \<Rightarrow> (string \<times> bool) option" where
  "close_family fam = map_option (\<lambda>(f, live). (f, live \<and> f \<noteq> fam))"

locale rotation_store =
  fixes rotate :: "rotation_request \<Rightarrow> 's \<Rightarrow> (exn + rotation_result) \<times> 's"
    and lookup :: "'s \<Rightarrow> string \<Rightarrow> (string \<times> bool) option"
    and invar :: "'s \<Rightarrow> bool"
  assumes rotate_invar: "invar s \<Longrightarrow> rotate rq s = (r, s') \<Longrightarrow> invar s'"
    and rotate_rotated: "invar s \<Longrightarrow> rotate rq s = (Inr res, s') \<Longrightarrow> outcome res = Rotated \<Longrightarrow>
      \<exists>fam. lookup s (rq_token_hash rq) = Some (fam, True) \<and>
        lookup s (rq_replacement_hash rq) = None \<and>
        lookup s' = (lookup s)(rq_token_hash rq \<mapsto> (fam, False),
                               rq_replacement_hash rq \<mapsto> (fam, True))"
    and rotate_closed: "invar s \<Longrightarrow> rotate rq s = (Inr res, s') \<Longrightarrow>
      outcome res \<in> {Reused, BindingMismatch} \<Longrightarrow>
      \<exists>fam live. lookup s (rq_token_hash rq) = Some (fam, live) \<and>
        (outcome res = Reused \<longleftrightarrow> \<not> live) \<and> (\<forall>h. lookup s' h = close_family fam (lookup s h))"
    and rotate_rejected: "invar s \<Longrightarrow> rotate rq s = (Inr res, s') \<Longrightarrow>
      outcome res \<in> {Missing, Expired} \<Longrightarrow> lookup s' = lookup s \<and>
        (outcome res = Missing \<longleftrightarrow> lookup s (rq_token_hash rq) = None)"
    and rotate_error: "invar s \<Longrightarrow> rotate rq s = (Inl e, s') \<Longrightarrow> lookup s' = lookup s"
    and rotate_replay: "invar s \<Longrightarrow> lookup s (rq_token_hash rq) = Some (fam, False) \<Longrightarrow>
      \<exists>res s'. rotate rq s = (Inr res, s') \<and> outcome res = Reused"

primrec rotate_all ::
  "(rotation_request \<Rightarrow> 's \<Rightarrow> (exn + rotation_result) \<times> 's) \<Rightarrow> rotation_request list \<Rightarrow> 's \<Rightarrow>
     (exn + rotation_result) list \<times> 's" where
  "rotate_all rot [] s = ([], s)"
| "rotate_all rot (rq # rqs) s =
     (case rot rq s of (r, s1) \<Rightarrow> (case rotate_all rot rqs s1 of (rs, s2) \<Rightarrow> (r # rs, s2)))"

definition is_rotated :: "exn + rotation_result \<Rightarrow> bool" where
  "is_rotated r = (case r of Inl _ \<Rightarrow> False | Inr res \<Rightarrow> outcome res = Rotated)"

text \<open>How many of the requests that present digest \<open>h\<close> were answered with a rotation.\<close>

definition uses_of :: "string \<Rightarrow> rotation_request list \<Rightarrow> (exn + rotation_result) list \<Rightarrow> nat" where
  "uses_of h rqs rs = length (filter (\<lambda>(rq, r). rq_token_hash rq = h \<and> is_rotated r) (zip rqs rs))"

lemma uses_of_Nil [simp]: "uses_of h [] rs = 0"
  by (simp add: uses_of_def)

lemma uses_of_Cons [simp]:
  "uses_of h (rq # rqs) (r # rs) =
     (if rq_token_hash rq = h \<and> is_rotated r then 1 else 0) + uses_of h rqs rs"
  by (simp add: uses_of_def)

context rotation_store
begin

lemma lookup_after:
  assumes "invar s" "rotate rq s = (r, s')"
  shows "lookup s h = Some (fam, False) \<Longrightarrow> lookup s' h = Some (fam, False)"
    and "lookup s h = Some (fam, live) \<Longrightarrow> \<exists>live'. lookup s' h = Some (fam, live')"
proof -
  have *: "lookup s' h = Some (fam, False) \<or> lookup s' h = Some (fam, True) \<and> l" if h: "lookup s h = Some (fam, l)" for l
  proof (cases r)
    case (Inl e)
    then show ?thesis using rotate_error [OF assms(1)] assms(2) h by simp
  next
    case (Inr res)
    consider "outcome res = Rotated" | "outcome res \<in> {Reused, BindingMismatch}"
      | "outcome res \<in> {Missing, Expired}" by (cases "outcome res") auto
    then show ?thesis
    proof cases
      case 1
      then obtain g where "lookup s (rq_token_hash rq) = Some (g, True)"
        "lookup s (rq_replacement_hash rq) = None"
        "lookup s' = (lookup s)(rq_token_hash rq \<mapsto> (g, False),
           rq_replacement_hash rq \<mapsto> (g, True))"
        using rotate_rotated [OF assms(1)] assms(2) Inr by blast
      moreover from this h have "h \<noteq> rq_replacement_hash rq"
        "rq_token_hash rq \<noteq> rq_replacement_hash rq" by auto
      ultimately show ?thesis using h by (cases "h = rq_token_hash rq") simp_all
    next
      case 2
      then obtain g where "lookup s' h = close_family g (lookup s h)"
        using rotate_closed [OF assms(1)] assms(2) Inr by blast
      with h show ?thesis by (cases l) (auto simp: close_family_def)
    next
      case 3
      then have "lookup s' = lookup s" using rotate_rejected [OF assms(1)] assms(2) Inr by blast
      with h show ?thesis by simp
    qed
  qed
  show "lookup s h = Some (fam, False) \<Longrightarrow> lookup s' h = Some (fam, False)"
    and "lookup s h = Some (fam, live) \<Longrightarrow> \<exists>live'. lookup s' h = Some (fam, live')"
    using * [of False] * [of live] by blast+
qed

lemma rotated_live:
  assumes "invar s" "rotate rq s = (r, s')" "is_rotated r"
  shows "\<exists>fam. lookup s (rq_token_hash rq) = Some (fam, True) \<and>
    lookup s' (rq_token_hash rq) = Some (fam, False)"
proof -
  obtain res where res: "r = Inr res" "outcome res = Rotated"
    using assms(3) by (auto simp: is_rotated_def split: sum.splits)
  obtain g where g: "lookup s (rq_token_hash rq) = Some (g, True)"
      "lookup s (rq_replacement_hash rq) = None"
      "lookup s' = (lookup s)(rq_token_hash rq \<mapsto> (g, False),
         rq_replacement_hash rq \<mapsto> (g, True))"
    using rotate_rotated [OF assms(1)] assms(2) res by blast
  then have "rq_token_hash rq \<noteq> rq_replacement_hash rq" by auto
  with g show ?thesis by simp
qed

lemma dead_never_rotated:
  "invar s \<Longrightarrow> lookup s h = Some (fam, False) \<Longrightarrow> rotate_all rotate rqs s = (rs, s') \<Longrightarrow>
    uses_of h rqs rs = 0 \<and> lookup s' h = Some (fam, False) \<and> invar s'"
proof (induction rqs arbitrary: s rs s')
  case Nil
  then show ?case by simp
next
  case (Cons rq rqs)
  obtain r s1 where r: "rotate rq s = (r, s1)" by (cases "rotate rq s")
  obtain rs' s2 where rest: "rotate_all rotate rqs s1 = (rs', s2)"
    by (cases "rotate_all rotate rqs s1")
  have dead: "lookup s1 h = Some (fam, False)"
    using lookup_after(1) [OF Cons.prems(1) r Cons.prems(2)] .
  have "rq_token_hash rq = h \<Longrightarrow> \<not> is_rotated r"
    using rotated_live [OF Cons.prems(1) r] Cons.prems(2) by auto
  with Cons.IH [OF rotate_invar [OF Cons.prems(1) r] dead rest] Cons.prems(3) r rest
  show ?case by auto
qed

lemma used_at_most_once:
  "invar s \<Longrightarrow> rotate_all rotate rqs s = (rs, s') \<Longrightarrow> uses_of h rqs rs \<le> 1"
proof (induction rqs arbitrary: s rs s')
  case Nil
  then show ?case by simp
next
  case (Cons rq rqs)
  obtain r s1 where r: "rotate rq s = (r, s1)" by (cases "rotate rq s")
  obtain rs' s2 where rest: "rotate_all rotate rqs s1 = (rs', s2)"
    by (cases "rotate_all rotate rqs s1")
  have inv1: "invar s1" by (rule rotate_invar [OF Cons.prems(1) r])
  show ?case
  proof (cases "rq_token_hash rq = h \<and> is_rotated r")
    case True
    then obtain fam where "lookup s1 h = Some (fam, False)"
      using rotated_live [OF Cons.prems(1) r] by blast
    with dead_never_rotated [OF inv1 _ rest] have "uses_of h rqs rs' = 0" by blast
    with Cons.prems(2) r rest show ?thesis by auto
  next
    case False
    with Cons.IH [OF inv1 rest] Cons.prems(2) r rest show ?thesis by auto
  qed
qed

text \<open>After a replay no token the family had is live, and none of them rotates again.\<close>

lemma replay_closes_family:
  assumes "invar s" "rotate rq s = (Inr res, s1)" "outcome res = Reused"
    and "lookup s (rq_token_hash rq) = Some (fam, l)" "lookup s h = Some (fam, live)"
    and "rotate_all rotate rqs s1 = (rs, s2)"
  shows "uses_of h rqs rs = 0"
proof -
  have "lookup s1 h = Some (fam, False)"
    using rotate_closed [OF assms(1,2)] assms(3-5) by (auto simp: close_family_def)
  then show ?thesis
    using dead_never_rotated [OF rotate_invar [OF assms(1,2)] _ assms(6)] by blast
qed

end

subsection \<open>The repository provides it\<close>

definition token_status :: "'z db_scheme \<Rightarrow> string \<Rightarrow> (string \<times> bool) option" where
  "token_status s h = map_option (\<lambda>t. (t_family_id t, active t)) (token_by_hash h s)"

lemma first_upd_where_key:
  assumes "\<And>t. k (f t) = k t"
  shows "first (\<lambda>t. k t = v) (upd_where p f rs) =
    map_option (\<lambda>t. if p t then f t else t) (first (\<lambda>t. k t = v) rs)"
  using assms by (induction rs) auto

lemma token_status_arevoke_family:
  "token_status (arevoke_family fam at s) h = close_family fam (token_status s h)"
proof (cases "token_by_hash h s")
  case None
  then show ?thesis
    by (simp add: token_status_def token_by_hash_def arevoke_family_def first_upd_where_key
        close_family_def)
next
  case (Some t)
  have inactive: "\<not> active (t\<lparr>t_revoked_at := Some at\<rparr>)" by simp
  from Some show ?thesis
    by (cases "active t")
      (auto simp: token_status_def token_by_hash_def arevoke_family_def first_upd_where_key
        close_family_def inactive)
qed

lemma token_status_same_rows: "same_rows s s' \<Longrightarrow> token_status s' = token_status s"
  by (rule ext) (simp add: token_status_def token_by_hash_def same_rows_def)

lemma token_status_rotated:
  assumes ok: "tokens_ok s" and t: "token_by_hash h s = Some t"
    and u: "u = replacement t rq i" "rq_replacement_hash rq \<notin> set (map t_token_hash (tokens s))"
    and rows': "tokens s' = consume_row (t_id t) at (tokens s) @ [u]"
  shows "token_status s' = (token_status s)(h \<mapsto> (t_family_id t, False),
    rq_replacement_hash rq \<mapsto> (t_family_id t, True))"
proof
  fix k
  have in_t: "t \<in> set (tokens s)" "t_token_hash t = h" using token_by_hash_Some [OF t] by auto
  have look: "first (\<lambda>v. t_token_hash v = k) (consume_row (t_id t) at (tokens s)) =
      map_option (\<lambda>v. if t_id v = t_id t then v\<lparr>t_revoked_at := Some at\<rparr> else v)
        (token_by_hash k s)"
    unfolding consume_row_def token_by_hash_def by (rule first_upd_where_key) simp
  show "token_status s' k = ((token_status s)(h \<mapsto> (t_family_id t, False),
      rq_replacement_hash rq \<mapsto> (t_family_id t, True))) k"
  proof (cases "token_by_hash k s")
    case None
    then have "k \<noteq> h" using t by auto
    with None look u(1) show ?thesis
      by (auto simp: token_status_def token_by_hash_def rows' first_append replacement_def)
  next
    case (Some v)
    then have v: "v \<in> set (tokens s)" "t_token_hash v = k" by (auto dest: token_by_hash_Some)
    then have "k \<noteq> rq_replacement_hash rq" using u(2) by force
    have "t_id v = t_id t \<longleftrightarrow> k = h"
      using tokens_ok_id_eq [OF ok v(1) in_t(1)] v(2) in_t(2) t Some by (metis option.inject)
    then show ?thesis
      using Some look in_t(2) t \<open>k \<noteq> rq_replacement_hash rq\<close>
      by (cases "k = h") (simp_all add: token_status_def token_by_hash_def rows' first_append)
  qed
qed

interpretation repo: rotation_store "arotate bind inet_ok" token_status db_ok
  for bind :: bool and inet_ok :: "string \<Rightarrow> bool"
proof unfold_locales
  fix s rq r and s' :: "'z db_scheme"
  show "db_ok s \<Longrightarrow> arotate bind inet_ok rq s = (r, s') \<Longrightarrow> db_ok s'"
    by (rule db_ok_arotate)
next
  fix s rq res and s' :: "'z db_scheme"
  assume "db_ok s" "arotate bind inet_ok rq s = (Inr res, s')" "outcome res = Rotated"
  then have ok: "tokens_ok s" by (simp add: db_ok_def)
  from \<open>arotate bind inet_ok rq s = (Inr res, s')\<close>
  show "\<exists>fam. token_status s (rq_token_hash rq) = Some (fam, True) \<and>
      token_status s (rq_replacement_hash rq) = None \<and>
      token_status s' = (token_status s)(rq_token_hash rq \<mapsto> (fam, False),
        rq_replacement_hash rq \<mapsto> (fam, True))"
  proof (cases rule: arotate_cases)
    case (rotated t u)
    note after = token_status_rotated [OF ok rotated(1,5,8,6)]
    show ?thesis
    proof (intro exI [of _ "t_family_id t"] conjI)
      show "token_status s (rq_token_hash rq) = Some (t_family_id t, True)"
        using rotated(1,2) by (simp add: token_status_def)
      show "token_status s (rq_replacement_hash rq) = None"
        using rotated(8) by (simp add: token_status_def token_by_hash_None)
    qed (rule after)
  qed (use \<open>outcome res = Rotated\<close> in auto)
next
  fix s rq res and s' :: "'z db_scheme"
  assume "db_ok s" "arotate bind inet_ok rq s = (Inr res, s')"
    and o: "outcome res \<in> {Reused, BindingMismatch}"
  from \<open>arotate bind inet_ok rq s = (Inr res, s')\<close>
  show "\<exists>fam live. token_status s (rq_token_hash rq) = Some (fam, live) \<and>
      (outcome res = Reused \<longleftrightarrow> \<not> live) \<and>
      (\<forall>h. token_status s' h = close_family fam (token_status s h))"
  proof (cases rule: arotate_cases)
    case (reused t)
    then show ?thesis
      unfolding reused(3) token_status_arevoke_family by (simp add: token_status_def)
  next
    case (mismatch t)
    then show ?thesis
      unfolding mismatch(5) token_status_arevoke_family
      by (intro exI [of _ "t_family_id t"] exI [of _ True]) (simp add: token_status_def)
  qed (use o in auto)
next
  fix s rq res and s' :: "'z db_scheme"
  assume "arotate bind inet_ok rq s = (Inr res, s')" and o: "outcome res \<in> {Missing, Expired}"
  then show "token_status s' = token_status s \<and>
      (outcome res = Missing \<longleftrightarrow> token_status s (rq_token_hash rq) = None)"
    by (cases rule: arotate_cases) (use o in \<open>auto simp: token_status_def\<close>)
next
  fix s rq e and s' :: "'z db_scheme"
  assume "arotate bind inet_ok rq s = (Inl e, s')"
  then show "token_status s' = token_status s"
    by (cases rule: arotate_cases) (auto intro: token_status_same_rows)
next
  fix s :: "'z db_scheme" and rq :: rotation_request and fam
  assume "token_status s (rq_token_hash rq) = Some (fam, False)"
  then obtain t where "token_by_hash (rq_token_hash rq) s = Some t" "\<not> active t"
    by (auto simp: token_status_def)
  then show "\<exists>res s'. arotate bind inet_ok rq s = (Inr res, s') \<and> outcome res = Reused"
    by (simp add: arotate_reused)
qed

subsection \<open>Refinement to a store of sessions\<close>

text \<open>
  The specification of rotation: a store that maps a digest to the family, liveness, expiry
  and device of a token. It has no rows, ids, parents, users or addresses, and closing a
  family or rotating a token is one update of the map.
\<close>

record session =
  s_family :: string
  s_live :: bool
  s_expires_at :: time
  s_device :: "string option"

definition session_of :: "refresh_token_row \<Rightarrow> session" where
  "session_of t = \<lparr>s_family = t_family_id t, s_live = active t, s_expires_at = t_expires_at t,
     s_device = t_device_hash t\<rparr>"

definition abs_store :: "'z db_scheme \<Rightarrow> string \<Rightarrow> session option" where
  "abs_store s h = map_option session_of (token_by_hash h s)"

definition close_session :: "string \<Rightarrow> session \<Rightarrow> session" where
  "close_session fam a = (if s_family a = fam then a\<lparr>s_live := False\<rparr> else a)"

definition spec_rotate ::
  "bool \<Rightarrow> rotation_request \<Rightarrow> (string \<Rightarrow> session option) \<Rightarrow>
     rotation_outcome \<times> (string \<Rightarrow> session option)" where
  "spec_rotate bind_device rq m =
     (case m (rq_token_hash rq) of
        None \<Rightarrow> (Missing, m)
      | Some a \<Rightarrow>
          if \<not> s_live a
          then (Reused, map_option (close_session (s_family a)) \<circ> m)
          else if s_expires_at a \<le> rq_rotated_at rq then (Expired, m)
          else if bind_device \<and> s_device a \<noteq> None \<and> s_device a \<noteq> rq_device_hash rq
          then (BindingMismatch, map_option (close_session (s_family a)) \<circ> m)
          else (Rotated, m(rq_token_hash rq \<mapsto> a\<lparr>s_live := False\<rparr>,
            rq_replacement_hash rq \<mapsto> \<lparr>s_family = s_family a, s_live = True,
              s_expires_at = rq_replacement_expires_at rq,
              s_device = py_or (s_device a) (rq_device_hash rq)\<rparr>)))"

lemma abs_store_lookup:
  "token_by_hash h s = None \<Longrightarrow> abs_store s h = None"
  "token_by_hash h s = Some t \<Longrightarrow> abs_store s h = Some (session_of t)"
  by (simp_all add: abs_store_def)

lemma abs_store_arevoke_family:
  "abs_store (arevoke_family fam at s) = map_option (close_session fam) \<circ> abs_store s"
proof
  fix h
  show "abs_store (arevoke_family fam at s) h = (map_option (close_session fam) \<circ> abs_store s) h"
  proof (cases "token_by_hash h s")
    case None
    then show ?thesis
      by (simp add: abs_store_def token_by_hash_def arevoke_family_def first_upd_where_key)
  next
    case (Some t)
    then show ?thesis
      by (cases "t_revoked_at t")
        (simp_all add: abs_store_def token_by_hash_def arevoke_family_def first_upd_where_key
          session_of_def close_session_def)
  qed
qed

lemma abs_store_rotated:
  assumes ok: "tokens_ok s" and t: "token_by_hash h s = Some t"
    and u: "u = replacement t rq i" "rq_replacement_hash rq \<notin> set (map t_token_hash (tokens s))"
    and rows': "tokens s' = consume_row (t_id t) at (tokens s) @ [u]"
  shows "abs_store s' = (abs_store s)(h \<mapsto> (session_of t)\<lparr>s_live := False\<rparr>,
    rq_replacement_hash rq \<mapsto> session_of u)"
proof
  fix k
  have in_t: "t \<in> set (tokens s)" "t_token_hash t = h" using token_by_hash_Some [OF t] by auto
  have look: "first (\<lambda>v. t_token_hash v = k) (consume_row (t_id t) at (tokens s)) =
      map_option (\<lambda>v. if t_id v = t_id t then v\<lparr>t_revoked_at := Some at\<rparr> else v)
        (token_by_hash k s)"
    unfolding consume_row_def token_by_hash_def by (rule first_upd_where_key) simp
  show "abs_store s' k = ((abs_store s)(h \<mapsto> (session_of t)\<lparr>s_live := False\<rparr>,
    rq_replacement_hash rq \<mapsto> session_of u)) k"
  proof (cases "token_by_hash k s")
    case None
    then have "k \<noteq> h" using t by auto
    with None look u(1) show ?thesis
      by (auto simp: abs_store_def token_by_hash_def rows' first_append replacement_def)
  next
    case (Some v)
    then have v: "v \<in> set (tokens s)" "t_token_hash v = k" by (auto dest: token_by_hash_Some)
    then have "k \<noteq> rq_replacement_hash rq" using u(2) by force
    have "t_id v = t_id t \<longleftrightarrow> k = h"
      using tokens_ok_id_eq [OF ok v(1) in_t(1)] v(2) in_t(2) t Some by (metis option.inject)
    then show ?thesis
      using Some look in_t(2) t \<open>k \<noteq> rq_replacement_hash rq\<close>
      by (cases "k = h")
        (simp_all add: abs_store_def token_by_hash_def rows' first_append session_of_def)
  qed
qed

text \<open>
  C14. Rotation refines the session store: on a consistent database, whenever \<open>arotate\<close>
  returns, its outcome is the one the specification computes from the abstract store, and the
  rows it leaves are those of the abstract store after the specified step.
\<close>

theorem arotate_refines:
  assumes "tokens_ok s" "arotate bind inet_ok rq s = (Inr res, s')"
  shows "spec_rotate bind rq (abs_store s) = (outcome res, abs_store s')"
  using assms(2)
proof (cases rule: arotate_cases)
  case (rotated t u)
  then show ?thesis
    unfolding abs_store_rotated [OF assms(1) rotated(1,5,8,6)]
    by (auto simp: spec_rotate_def abs_store_lookup session_of_def wrong_device_def
        replacement_def)
qed (auto simp: spec_rotate_def abs_store_lookup session_of_def wrong_device_def
    abs_store_arevoke_family)

text \<open>The hypotheses hold at the sample database: token \<open>h2\<close> is live, and is rotated.\<close>

theorem arotate_refines_witness:
  "spec_rotate True (sample_request ''h2'' ''h9'') (abs_store (sample ())) =
    (Rotated, abs_store (snd (arotate True (\<lambda>_. True) (sample_request ''h2'' ''h9'') (sample ()))))"
proof -
  let ?r = "arotate True (\<lambda>_. True) (sample_request ''h2'' ''h9'') (sample ())"
  obtain res where res: "fst ?r = Inr res" "outcome res = Rotated"
    by (rule that [of "projr (fst ?r)"]) code_simp+
  then have "?r = (Inr res, snd ?r)" by (metis prod.collapse)
  then show ?thesis using arotate_refines [OF sample_tokens_ok] res(2) by metis
qed

subsection \<open>A login, a rotation, a logout\<close>

definition one_user :: db where
  "one_user = empty_db\<lparr>users := \<lparr>rows = [sample_user 1 ''root@x.io''], next_id = 2\<rparr>\<rparr>"

definition logged_in :: db where
  "logged_in = snd (token_acreate (\<lambda>_. True) 1 ''h1'' ''fam1'' None (100 * sec) (Some ''dev'')
     (Some ''10.0.0.1'') one_user)"

definition exchanged :: db where
  "exchanged = snd (arotate True (\<lambda>_. True) (sample_request ''h1'' ''h9'') logged_in)"

definition logged_out :: db where
  "logged_out = arevoke_user 1 (5 * sec) logged_in"

lemma logged_in_reachable: "token_steps new_family True (\<lambda>_. True) empty_db logged_in"
proof -
  have "db_ok one_user"
    by (simp add: one_user_def db_ok_def ok_defs token_links_ok_def ids_ok_def empty_db_def
        empty_table_def sample_user_def user_fits_def lower_def lower_char_def is_upper_char_def)
  then have 1: "token_step new_family True (\<lambda>_. True) empty_db one_user"
    by (intro token_step.other) (simp_all add: one_user_def)
  have 2: "token_step new_family True (\<lambda>_. True) one_user logged_in"
    unfolding logged_in_def
    by (rule token_step.issue [OF _ surjective_pairing])
      (simp add: one_user_def new_family_def empty_db_def empty_table_def)
  show ?thesis using token_steps.more [OF token_steps.more [OF token_steps.start 1] 2] .
qed

lemma exchanged_reachable: "token_steps new_family True (\<lambda>_. True) empty_db exchanged"
  unfolding exchanged_def
  by (rule token_steps.more [OF logged_in_reachable], rule token_step.rotate, rule surjective_pairing)

lemma logged_out_reachable: "token_steps new_family True (\<lambda>_. True) empty_db logged_out"
  unfolding logged_out_def by (rule token_steps.more [OF logged_in_reachable token_step.revoke_user])

subsection \<open>Properties of the token table\<close>

text \<open>
  C1. Single use: in any sequence of rotation requests presented to a consistent database, a
  refresh token is exchanged for a replacement at most once, whatever the other requests are,
  in whatever order they come and however they end.
\<close>

theorem refresh_token_single_use:
  assumes "db_ok s" "rotate_all (arotate bind inet_ok) rqs s = (rs, s')"
  shows "uses_of h rqs rs \<le> 1"
  using assms by (rule repo.used_at_most_once)

theorem refresh_token_single_use_witness:
  "uses_of ''h2'' [sample_request ''h2'' ''h8'', sample_request ''h2'' ''h9'']
     (fst (rotate_all (arotate True (\<lambda>_. True))
       [sample_request ''h2'' ''h8'', sample_request ''h2'' ''h9''] (sample ()))) \<le> 1"
  by (rule refresh_token_single_use [OF sample_db_ok surjective_pairing])

text \<open>
  Replay detection: when a rotation reports reuse, no token of that family, the newest one
  included, is ever exchanged again by any later sequence of requests.
\<close>

theorem replay_kills_family:
  assumes "db_ok s" "arotate bind inet_ok rq s = (Inr res, s1)" "outcome res = Reused"
    and "token_by_hash (rq_token_hash rq) s = Some t"
    and "token_by_hash h s = Some u" "t_family_id u = t_family_id t"
    and "rotate_all (arotate bind inet_ok) rqs s1 = (rs, s2)"
  shows "uses_of h rqs rs = 0"
  by (rule repo.replay_closes_family [OF assms(1-3) _ _ assms(7)])
    (use assms(4-6) in \<open>simp_all add: token_status_def\<close>)

theorem replay_kills_family_witness:
  "uses_of ''h2'' [sample_request ''h2'' ''h9'']
     (fst (rotate_all (arotate True (\<lambda>_. True)) [sample_request ''h2'' ''h9'']
       (snd (arotate True (\<lambda>_. True) (sample_request ''h1'' ''h8'') (sample ()))))) = 0"
proof -
  let ?r = "arotate True (\<lambda>_. True) (sample_request ''h1'' ''h8'') (sample ())"
  obtain res where res: "fst ?r = Inr res" "outcome res = Reused"
    by (rule that [of "projr (fst ?r)"]) code_simp+
  then have r: "?r = (Inr res, snd ?r)" by (metis prod.collapse)
  have t: "token_by_hash (rq_token_hash (sample_request ''h1'' ''h8'')) (sample ()) =
      Some (sample_token 1 1 ''h1'' ''fam1'' None (Some (5 * sec)))"
    and u: "token_by_hash ''h2'' (sample ()) = Some (sample_token 2 1 ''h2'' ''fam1'' (Some 1) None)"
    by (simp_all add: token_by_hash_def sample_defs)
  show ?thesis
    by (rule replay_kills_family [OF sample_db_ok r res(2) t u _ surjective_pairing])
      (simp add: sample_token_def)
qed

text \<open>
  C17. One live token per family: from the empty database, over any sequence of operations on the
  token table in which a token is created (as a login does, not by a rotation) only under a family id
  that no stored token carries, a family has at most one token that is not revoked, and all its tokens
  belong to one user. The assumption is needed: \<open>acreate\<close> itself takes any family id.
\<close>

theorem one_live_token_per_family:
  assumes "token_steps new_family bind inet_ok empty_db s"
  shows "length (filter (\<lambda>t. t_family_id t = fam \<and> active t) (tokens s)) \<le> 1 \<and>
    (\<forall>t \<in> set (tokens s). \<forall>u \<in> set (tokens s).
       t_family_id t = t_family_id u \<longrightarrow> t_user_id t = t_user_id u)"
proof -
  have inv: "token_inv s" using assms token_inv_empty by (rule token_steps_inv)
  then have fam: "family_rows_ok (tokens s)" and ids: "distinct (map t_id (tokens s))"
    by (simp_all add: token_inv_def families_ok_def db_ok_def tokens_ok_def ids_ok_def)
  let ?l = "filter (\<lambda>t. t_family_id t = fam \<and> active t) (tokens s)"
  have eq: "t_id t = t_id u" if "t \<in> set ?l" "u \<in> set ?l" for t u
    using fam that unfolding family_rows_ok_def by simp
  have "length ?l \<le> 1"
  proof (rule distinct_same_length)
    show "distinct (map t_id ?l)" using ids by (rule distinct_map_filter_mono)
  qed (rule eq)
  moreover have "\<forall>t \<in> set (tokens s). \<forall>u \<in> set (tokens s).
       t_family_id t = t_family_id u \<longrightarrow> t_user_id t = t_user_id u"
    using fam unfolding family_rows_ok_def by blast
  ultimately show ?thesis by blast
qed

theorem one_live_token_per_family_witness:
  "map (\<lambda>t. (t_id t, t_family_id t, active t)) (tokens exchanged) =
     [(1, ''fam1'', False), (2, ''fam1'', True)] \<and>
   length (filter (\<lambda>t. t_family_id t = ''fam1'' \<and> active t) (tokens exchanged)) \<le> 1"
proof
  show "map (\<lambda>t. (t_id t, t_family_id t, active t)) (tokens exchanged) =
      [(1, ''fam1'', False), (2, ''fam1'', True)]" by code_simp
  show "length (filter (\<lambda>t. t_family_id t = ''fam1'' \<and> active t) (tokens exchanged)) \<le> 1"
    using one_live_token_per_family [OF exchanged_reachable, of "''fam1''"] by blast
qed

text \<open>
  C18. Revocation is permanent: once a token row is revoked it keeps that revocation time, its
  digest, family and owner in every later state in which the row still exists, whatever tokens are
  created, in whatever families, and whatever is rotated, revoked or deleted in between.
\<close>

theorem revocation_permanent:
  assumes "token_steps F bind inet_ok empty_db s" "token_steps F bind inet_ok s s'"
    and "t \<in> set (tokens s)" "\<not> active t" "u \<in> set (tokens s')" "t_id u = t_id t"
  shows "t_revoked_at u = t_revoked_at t \<and> t_token_hash u = t_token_hash t \<and>
    t_family_id u = t_family_id t \<and> t_user_id u = t_user_id t"
proof -
  have "db_ok s" using assms(1) db_ok_empty by (rule token_steps_db_ok)
  with assms(2) have "evolves s s'" by (rule evolves_token_steps)
  with assms(3-6) show ?thesis unfolding evolves_def revocations_kept_def by blast
qed

theorem revocation_permanent_witness:
  "filter (\<lambda>u. t_id u = 1 \<and> t_revoked_at u \<noteq> Some (5 * sec))
     (tokens (arevoke_user 1 (9 * sec) logged_out)) = []"
proof -
  let ?t = "sample_token 1 1 ''h1'' ''fam1'' None (Some (5 * sec))"
  have t: "?t \<in> set (tokens logged_out)" "\<not> active ?t"
    by (code_simp, simp add: sample_token_def)
  have s: "token_steps new_family True (\<lambda>_. True) logged_out (arevoke_user 1 (9 * sec) logged_out)"
    by (rule token_steps.more [OF token_steps.start token_step.revoke_user])
  have "t_revoked_at u = Some (5 * sec)"
    if u: "u \<in> set (tokens (arevoke_user 1 (9 * sec) logged_out))" "t_id u = 1" for u
    using revocation_permanent [OF logged_out_reachable s t u(1)] u(2)
    by (simp add: sample_token_def)
  then show ?thesis unfolding filter_empty_conv by blast
qed

text \<open>
  Rotation is atomic: when \<open>arotate\<close> raises (its replacement row is refused), every table
  has the rows it had, so the presented token is still live.
\<close>

theorem arotate_atomic:
  assumes "arotate bind inet_ok rq s = (Inl e, s')"
  shows "same_rows s s' \<and> token_status s' = token_status s"
  using run_in_transaction_atomic [OF assms [unfolded arotate_def]] token_status_same_rows
  by blast

theorem arotate_atomic_witness:
  "same_rows (sample ()) (snd (arotate True (\<lambda>_. True) (sample_request ''h2'' ''h3'') (sample ())))"
proof -
  let ?r = "arotate True (\<lambda>_. True) (sample_request ''h2'' ''h3'') (sample ())"
  have "fst ?r = Inl IntegrityError" by code_simp
  then have "?r = (Inl IntegrityError, snd ?r)" by (metis prod.collapse)
  then show ?thesis using arotate_atomic by blast
qed

end
