(* ===== verification/Blocklist.thy ===== *)
theory Blocklist
  imports TokenUse
begin

text \<open>
  Access-token revocation: \<open>apps/authz/security/blocklist.py\<close> on the Redis client of
  \<open>apps/common/redis.py\<close>, and the interface \<open>blocklist\<close> the services and the authentication
  layer use.

  The world is the database and Redis. A Redis key holds a string and the time it expires;
  \<open>SET key value EX ttl\<close> overwrites both. The flag \<open>up\<close> of an operation says whether the
  client's call succeeds: every exception of the call is caught by the source.
\<close>

record world = db +
  redis :: "string \<Rightarrow> (string \<times> time) option"

subsection \<open>One client per event loop\<close>

text \<open>
  \<open>_clients\<close> maps the loops that are alive to their client; a client is the number of the
  \<open>from_url\<close> call that made it. A garbage-collected loop takes its entry with it.
\<close>

record redis_clients =
  loop_clients :: "nat \<Rightarrow> nat option"
  from_url_calls :: nat

definition get_redis_client :: "nat \<Rightarrow> redis_clients \<Rightarrow> nat \<times> redis_clients" where
  "get_redis_client loop c =
     (case loop_clients c loop of
        Some client \<Rightarrow> (client, c)
      | None \<Rightarrow> (from_url_calls c,
          c\<lparr>loop_clients := (loop_clients c)(loop \<mapsto> from_url_calls c),
            from_url_calls := from_url_calls c + 1\<rparr>))"

text \<open>\<open>BlocklistService._client\<close>: the client the service was built with, or the one of the running loop.\<close>

definition service_client :: "nat option \<Rightarrow> nat \<Rightarrow> redis_clients \<Rightarrow> nat \<times> redis_clients" where
  "service_client own_client loop c =
     (case own_client of Some client \<Rightarrow> (client, c) | None \<Rightarrow> get_redis_client loop c)"

definition loop_collected :: "nat \<Rightarrow> redis_clients \<Rightarrow> redis_clients" where
  "loop_collected loop c = c\<lparr>loop_clients := (loop_clients c)(loop := None)\<rparr>"

definition clients_ok :: "redis_clients \<Rightarrow> bool" where
  "clients_ok c \<longleftrightarrow> inj_on (loop_clients c) (dom (loop_clients c)) \<and>
     (\<forall>n \<in> ran (loop_clients c). n < from_url_calls c)"

lemma clients_ok_get [inv_pres]:
  assumes "clients_ok c" "get_redis_client l c = (n, c')"
  shows "clients_ok c' \<and> loop_clients c' l = Some n"
proof (cases "loop_clients c l")
  case None
  have lt: "m < from_url_calls c" if "loop_clients c k = Some m" for k m
    using assms(1) that by (auto simp: clients_ok_def ran_def)
  have c': "c' = c\<lparr>loop_clients := (loop_clients c)(l \<mapsto> from_url_calls c),
      from_url_calls := from_url_calls c + 1\<rparr>" "n = from_url_calls c"
    using assms(2) None by (auto simp: get_redis_client_def)
  have "inj_on (loop_clients c') (dom (loop_clients c'))"
  proof (rule inj_onI)
    fix x y
    assume xy: "x \<in> dom (loop_clients c')" "y \<in> dom (loop_clients c')"
      "loop_clients c' x = loop_clients c' y"
    then show "x = y"
      using assms(1) lt [of x] lt [of y] unfolding clients_ok_def c'(1) inj_on_def
      by (cases "x = l"; cases "y = l") auto
  qed
  moreover have "m < from_url_calls c'" if "loop_clients c' k = Some m" for k m
    using that lt [of k m] unfolding c'(1) by (cases "k = l") simp_all
  ultimately have "clients_ok c'" unfolding clients_ok_def ran_def by blast
  with c' show ?thesis by simp
next
  case (Some m)
  with assms show ?thesis by (simp add: get_redis_client_def)
qed

lemma clients_ok_collected [inv_pres]: "clients_ok c \<Longrightarrow> clients_ok (loop_collected l c)"
  by (auto simp: clients_ok_def loop_collected_def inj_on_def ran_def)

lemma clients_ok_service [inv_pres]:
  "clients_ok c \<Longrightarrow> service_client own_client l c = (n, c') \<Longrightarrow> clients_ok c'"
  using clients_ok_get [of c l n c'] by (auto simp: service_client_def split: option.splits)

subsection \<open>The service\<close>

definition redis_set :: "string \<Rightarrow> string \<Rightarrow> int \<Rightarrow> time \<Rightarrow> 'z world_scheme \<Rightarrow> 'z world_scheme" where
  "redis_set key v ttl now w = w\<lparr>redis := (redis w)(key \<mapsto> (v, now + ttl * sec))\<rparr>"

definition redis_get :: "string \<Rightarrow> time \<Rightarrow> 'z world_scheme \<Rightarrow> string option" where
  "redis_get key now w = (case redis w key of
     Some (v, expires) \<Rightarrow> if now < expires then Some v else None | None \<Rightarrow> None)"

definition token_key :: "string \<Rightarrow> string" where
  "token_key jti = ''bl:jti:'' @ jti"

definition user_epoch_key :: "int \<Rightarrow> string" where
  "user_epoch_key uid = ''user_epoch:'' @ str_of_int uid"

text \<open>\<open>math.ceil(at.timestamp())\<close>\<close>

definition ceil_seconds :: "time \<Rightarrow> int" where
  "ceil_seconds at = - ((- at) div sec)"

definition block_token :: "bool \<Rightarrow> string \<Rightarrow> int \<Rightarrow> time \<Rightarrow> 'z world_scheme \<Rightarrow> 'z world_scheme" where
  "block_token up jti ttl now w =
     (if ttl \<le> 0 then w
      else if up then redis_set (token_key jti) ''1'' ttl now w else w)"

definition revoke_user ::
  "bool \<Rightarrow> int \<Rightarrow> time \<Rightarrow> int \<Rightarrow> time \<Rightarrow> 'z world_scheme \<Rightarrow> 'z world_scheme" where
  "revoke_user up uid at ttl now w =
     (if ttl \<le> 0 then w
      else if up then redis_set (user_epoch_key uid) (str_of_int (ceil_seconds at)) ttl now w
      else w)"

text \<open>An epoch that is not an integer makes \<open>int\<close> raise, which the handler turns into False.\<close>

definition is_blocked :: "bool \<Rightarrow> string \<Rightarrow> int \<Rightarrow> time \<Rightarrow> time \<Rightarrow> 'z world_scheme \<Rightarrow> bool" where
  "is_blocked up jti uid issued_at now w =
     (if \<not> up then False
      else if redis_get (token_key jti) now w \<noteq> None then True
      else case redis_get (user_epoch_key uid) now w of
        None \<Rightarrow> False
      | Some epoch \<Rightarrow>
          (case int_of_str epoch of
             None \<Rightarrow> False
           | Some n \<Rightarrow> issued_at < n * sec))"

lemmas blocklist_defs = block_token_def revoke_user_def

lemma keys_distinct [simp]:
  "token_key j \<noteq> user_epoch_key u" "user_epoch_key u \<noteq> token_key j"
  "token_key j = token_key j' \<longleftrightarrow> j = j'" "user_epoch_key u = user_epoch_key u' \<longleftrightarrow> u = u'"
  by (auto simp: token_key_def user_epoch_key_def dest: str_of_int_inj)

lemma redis_get_set [simp]:
  "redis_get k t (redis_set k' v ttl now w) =
     (if k = k' then if t < now + ttl * sec then Some v else None else redis_get k t w)"
  by (simp add: redis_get_def redis_set_def)

lemma ceil_seconds_bounds: "at \<le> ceil_seconds at * sec" "ceil_seconds at * sec < at + sec"
  using div_mult_mod_eq [of "- at" sec] pos_mod_bound [of sec "- at"] pos_mod_sign [of sec "- at"]
  by (simp_all add: ceil_seconds_def)

lemma block_token_frame [simp]: "db.truncate (block_token up jti ttl now w) = db.truncate w"
  and revoke_user_frame [simp]: "db.truncate (revoke_user up uid at ttl now w) = db.truncate w"
  by (simp_all add: blocklist_defs redis_set_def db.truncate_def)

subsection \<open>The interface\<close>

text \<open>
  What the services rely on: a blocked token id is refused until the given time to live has
  passed, a user's revocation refuses the tokens issued before it (and no token issued a
  second or more after it), the operations do not disturb each other's entries, and an
  operation whose call fails changes nothing.
\<close>

locale blocklist =
  fixes block :: "bool \<Rightarrow> string \<Rightarrow> int \<Rightarrow> time \<Rightarrow> 's \<Rightarrow> 's"
    and revoke :: "bool \<Rightarrow> int \<Rightarrow> time \<Rightarrow> int \<Rightarrow> time \<Rightarrow> 's \<Rightarrow> 's"
    and jti_blocked :: "string \<Rightarrow> time \<Rightarrow> 's \<Rightarrow> bool"
    and user_blocked :: "int \<Rightarrow> time \<Rightarrow> time \<Rightarrow> 's \<Rightarrow> bool"
  assumes block_down: "block False j ttl now s = s"
    and revoke_down: "revoke False u at ttl now s = s"
    and block_jti: "jti_blocked j t (block True j' ttl now s) \<longleftrightarrow>
      (if 0 < ttl \<and> j = j' then t < now + ttl * sec else jti_blocked j t s)"
    and block_user: "user_blocked u iat t (block True j ttl now s) \<longleftrightarrow> user_blocked u iat t s"
    and revoke_jti: "jti_blocked j t (revoke True u at ttl now s) \<longleftrightarrow> jti_blocked j t s"
    and revoke_other: "u \<noteq> u' \<Longrightarrow>
      user_blocked u iat t (revoke True u' at ttl now s) \<longleftrightarrow> user_blocked u iat t s"
    and revoke_idle: "ttl \<le> 0 \<Longrightarrow>
      user_blocked u iat t (revoke True u at ttl now s) \<longleftrightarrow> user_blocked u iat t s"
    and revoke_before: "0 < ttl \<Longrightarrow> datetime_ok at \<Longrightarrow> iat < at \<Longrightarrow> t < now + ttl * sec \<Longrightarrow>
      user_blocked u iat t (revoke True u at ttl now s)"
    and revoke_after: "0 < ttl \<Longrightarrow> datetime_ok at \<Longrightarrow> at + sec \<le> iat \<Longrightarrow>
      \<not> user_blocked u iat t (revoke True u at ttl now s)"

datatype blocklist_op =
    BlockToken bool string int time
  | RevokeUser bool int time int time

primrec run_op ::
  "(bool \<Rightarrow> string \<Rightarrow> int \<Rightarrow> time \<Rightarrow> 's \<Rightarrow> 's) \<Rightarrow> (bool \<Rightarrow> int \<Rightarrow> time \<Rightarrow> int \<Rightarrow> time \<Rightarrow> 's \<Rightarrow> 's) \<Rightarrow>
     blocklist_op \<Rightarrow> 's \<Rightarrow> 's" where
  "run_op blk rvk (BlockToken up j ttl now) s = blk up j ttl now s"
| "run_op blk rvk (RevokeUser up u at ttl now) s = rvk up u at ttl now s"

primrec run_ops ::
  "(bool \<Rightarrow> string \<Rightarrow> int \<Rightarrow> time \<Rightarrow> 's \<Rightarrow> 's) \<Rightarrow> (bool \<Rightarrow> int \<Rightarrow> time \<Rightarrow> int \<Rightarrow> time \<Rightarrow> 's \<Rightarrow> 's) \<Rightarrow>
     blocklist_op list \<Rightarrow> 's \<Rightarrow> 's" where
  "run_ops blk rvk [] s = s"
| "run_ops blk rvk (a # ops) s = run_ops blk rvk ops (run_op blk rvk a s)"

text \<open>Operations made no earlier than \<open>at\<close>, whose revocations live at least \<open>ttl\<close> seconds.\<close>

primrec later_op :: "time \<Rightarrow> int \<Rightarrow> time \<Rightarrow> blocklist_op \<Rightarrow> bool" where
  "later_op at ttl now (BlockToken up j d t) \<longleftrightarrow> now \<le> t"
| "later_op at ttl now (RevokeUser up u a d t) \<longleftrightarrow> at \<le> a \<and> datetime_ok a \<and> ttl \<le> d \<and> now \<le> t"

context blocklist
begin

lemma user_blocked_kept:
  assumes "\<forall>a \<in> set ops. later_op at ttl now a" "0 < ttl" "iat < at" "t < now + ttl * sec"
    and "user_blocked u iat t s"
  shows "user_blocked u iat t (run_ops block revoke ops s)"
  using assms(1,5)
proof (induction ops arbitrary: s)
  case Nil
  then show ?case by simp
next
  case (Cons a ops)
  have "user_blocked u iat t (run_op block revoke a s)"
  proof (cases a)
    case (BlockToken up j d n)
    with Cons.prems show ?thesis by (cases up) (simp_all add: block_down block_user)
  next
    case (RevokeUser up v b d n)
    with Cons.prems(1) have later: "at \<le> b" "datetime_ok b" "ttl \<le> d" "now \<le> n" by simp_all
    have "t < n + d * sec" using assms(4) later(3,4) by linarith
    then have "user_blocked u iat t (revoke True u b d n s)"
      using later assms(2,3) by (intro revoke_before) simp_all
    with Cons.prems(2) RevokeUser show ?thesis
      by (cases up; cases "u = v") (simp_all add: revoke_down revoke_other)
  qed
  with Cons.IH Cons.prems(1) show ?case by simp
qed

text \<open>Every token issued before a revocation is refused until it expires by itself.\<close>

lemma revocation_outlives:
  assumes "0 < ttl" "datetime_ok at" "at \<le> now" "\<forall>a \<in> set ops. later_op at ttl now a"
    and "iat < at" "t < iat + ttl * sec"
  shows "user_blocked u iat t (run_ops block revoke ops (revoke True u at ttl now s))"
proof (rule user_blocked_kept [OF assms(4,1,5)])
  show t: "t < now + ttl * sec" using assms(3,5,6) by linarith
  show "user_blocked u iat t (revoke True u at ttl now s)"
    using assms(1,2,5) t by (intro revoke_before) simp_all
qed

end

subsection \<open>The service provides it\<close>

definition jti_refused :: "string \<Rightarrow> time \<Rightarrow> 'z world_scheme \<Rightarrow> bool" where
  "jti_refused jti now w \<longleftrightarrow> redis_get (token_key jti) now w \<noteq> None"

definition user_refused :: "int \<Rightarrow> time \<Rightarrow> time \<Rightarrow> 'z world_scheme \<Rightarrow> bool" where
  "user_refused uid iat now w \<longleftrightarrow>
     (\<exists>n. (case redis_get (user_epoch_key uid) now w of Some e \<Rightarrow> int_of_str e | None \<Rightarrow> None) = Some n \<and>
        iat < n * sec)"

lemma is_blocked_iff:
  "is_blocked True jti uid iat now w \<longleftrightarrow> jti_refused jti now w \<or> user_refused uid iat now w"
  by (auto simp: is_blocked_def jti_refused_def user_refused_def split: option.splits)

lemma ceil_seconds_parse [simp]:
  assumes "datetime_ok at"
  shows "int_of_str (str_of_int (ceil_seconds at)) = Some (ceil_seconds at)"
  using assms ceil_seconds_bounds [of at]
  by (intro int_of_str_small) (simp add: datetime_ok_def abs_less_iff)

interpretation bl: blocklist block_token revoke_user jti_refused user_refused
proof (unfold_locales, goal_cases)
  case (8 ttl at iat t now u s)
  then show ?case using ceil_seconds_bounds(1) [of at] by (simp add: user_refused_def blocklist_defs)
next
  case (9 ttl at iat u t now s)
  then show ?case using ceil_seconds_bounds(2) [of at] by (simp add: user_refused_def blocklist_defs)
qed (simp_all add: blocklist_defs jti_refused_def user_refused_def)

subsection \<open>Properties\<close>

definition sample_world :: world where
  "sample_world = sample (world.fields (\<lambda>_. None))"

lemma sample_world_redis [simp]: "redis sample_world k = None"
  by (simp add: sample_world_def sample_def world.fields_def)

text \<open>
  A revocation outlives every token it is about: after a successful \<open>revoke_user\<close> at a time
  \<open>at\<close> with the access-token lifetime as its time to live, a token of that user issued before
  \<open>at\<close> is refused at every moment before it expires by itself, whatever later revocations and
  logouts, of this or of other users, succeed or fail in the meantime.
\<close>

theorem revocation_outlives_tokens:
  assumes "0 < ttl" "datetime_ok at" "at \<le> now"
    and "\<forall>a \<in> set ops. later_op at ttl now a"
    and "iat < at" "t < iat + ttl * sec"
  shows "is_blocked True jti uid iat t
    (run_ops block_token revoke_user ops (revoke_user True uid at ttl now w))"
  using bl.revocation_outlives [OF assms] unfolding is_blocked_iff by blast

theorem revocation_outlives_tokens_witness:
  "is_blocked True ''j'' 1 (99 * sec) (300 * sec)
    (run_ops block_token revoke_user
      [BlockToken True ''k'' 5 (101 * sec), RevokeUser False 1 (102 * sec) 900 (102 * sec)]
      (revoke_user True 1 (100 * sec) 900 (100 * sec) sample_world))"
  by (rule revocation_outlives_tokens) (simp_all add: datetime_ok_def)

text \<open>
  What a revocation refuses, exactly: while the entry lives, a token is refused if and only
  if its id is blocked or it was issued before the end of the second in which the revocation was
  made (the epoch is rounded up); the tokens of other users are refused as before.
\<close>

theorem revoke_user_exact:
  assumes "0 < ttl" "datetime_ok at" "t < now + ttl * sec"
  shows "is_blocked True jti u iat t (revoke_user True uid at ttl now w) \<longleftrightarrow>
    (if u = uid then jti_refused jti t w \<or> iat < ceil_seconds at * sec
     else is_blocked True jti u iat t w)"
  using assms by (simp add: is_blocked_iff blocklist_defs jti_refused_def user_refused_def)

theorem revoke_user_exact_witness:
  "is_blocked True ''j'' 1 (100 * sec + 700000) (101 * sec)
     (revoke_user True 1 (100 * sec + 500000) 900 (100 * sec + 500000) sample_world)"
  by (subst revoke_user_exact) (simp_all add: datetime_ok_def ceil_seconds_def)

text \<open>
  One Redis client per event loop: after \<open>get_redis_client\<close>, from a registry in which live
  loops have different clients, the loop has the client that was returned, the other loops have
  theirs still, and live loops have different clients.
\<close>

theorem redis_client_per_loop:
  assumes "clients_ok c" "get_redis_client l c = (n, c')"
  shows "clients_ok c' \<and> loop_clients c' l = Some n \<and> get_redis_client l c' = (n, c') \<and>
    (\<forall>k. k \<noteq> l \<longrightarrow> loop_clients c' k = loop_clients c k \<and> loop_clients c k \<noteq> Some n)"
proof -
  have ok: "clients_ok c'" "loop_clients c' l = Some n" using clients_ok_get [OF assms] by auto
  have same: "loop_clients c' k = loop_clients c k" if "k \<noteq> l" for k
    using assms(2) that by (auto simp: get_redis_client_def split: option.splits)
  have "loop_clients c k \<noteq> Some n" if "k \<noteq> l" for k
  proof
    assume k: "loop_clients c k = Some n"
    then have "loop_clients c' k = loop_clients c' l" "k \<in> dom (loop_clients c')"
      using same [OF that] ok(2) by auto
    with ok that show False unfolding clients_ok_def inj_on_def by blast
  qed
  with ok same show ?thesis by (simp add: get_redis_client_def)
qed

theorem redis_client_per_loop_witness:
  "loop_clients (snd (get_redis_client 7 \<lparr>loop_clients = (\<lambda>_. None), from_url_calls = 0\<rparr>)) 7 = Some 0"
proof -
  have "clients_ok \<lparr>loop_clients = (\<lambda>_. None), from_url_calls = 0\<rparr>" by (simp add: clients_ok_def)
  moreover have "get_redis_client 7 \<lparr>loop_clients = (\<lambda>_. None), from_url_calls = 0\<rparr> =
      (0, snd (get_redis_client 7 \<lparr>loop_clients = (\<lambda>_. None), from_url_calls = 0\<rparr>))"
    by (simp add: get_redis_client_def)
  ultimately show ?thesis using redis_client_per_loop by blast
qed

end
