(* ===== verification/Ip.thy ===== *)
theory Ip
  imports PyStr "HOL-Library.Word"
begin

text \<open>
  The parts of Python's \<open>ipaddress\<close> module the program calls: \<open>ip_address\<close>, \<open>ip_network\<close> with
  \<open>strict=False\<close>, membership of an address in a network, and \<open>str\<close> of both. An IPv4 address is
  a 32-bit word; an IPv6 address is a 128-bit word with an optional zone. A \<open>ValueError\<close> is
  \<open>None\<close>.
\<close>

unbundle bit_operations_syntax

datatype ip = V4 "32 word" | V6 "128 word" "string option"

datatype ip_net = Net4 "32 word" nat | Net6 "128 word" "string option" nat

subsection \<open>IPv4 text\<close>

definition parse_octet :: "string \<Rightarrow> nat option" where
  "parse_octet s =
     (if s = [] \<or> \<not> list_all is_digit s \<or> 3 < length s then None
      else if s \<noteq> ''0'' \<and> hd s = CHR ''0'' then None
      else if 255 < nat_of_digits s then None else Some (nat_of_digits s))"

definition v4_from_bytes :: "nat list \<Rightarrow> 32 word" where
  "v4_from_bytes = foldl (\<lambda>acc b. push_bit 8 acc OR word_of_nat b) 0"

definition v4_of_string :: "string \<Rightarrow> 32 word option" where
  "v4_of_string s =
     (let octets = split_on (CHR ''.'') s
      in if length octets \<noteq> 4 then None
         else map_option v4_from_bytes (those (map parse_octet octets)))"

definition v4_to_bytes :: "32 word \<Rightarrow> nat list" where
  "v4_to_bytes w = map (\<lambda>k. unat (drop_bit k w AND 255)) [24, 16, 8, 0]"

definition string_of_v4 :: "32 word \<Rightarrow> string" where
  "string_of_v4 w = join ''.'' (map str_of_nat (v4_to_bytes w))"

subsection \<open>IPv6 text\<close>

definition hex_val :: "char \<Rightarrow> nat option" where
  "hex_val c = (let n = py_ord c in
     if 48 \<le> n \<and> n \<le> 57 then Some (n - 48)
     else if 97 \<le> n \<and> n \<le> 102 then Some (n - 87)
     else if 65 \<le> n \<and> n \<le> 70 then Some (n - 55) else None)"

definition parse_hextet :: "string \<Rightarrow> nat option" where
  "parse_hextet s =
     (if s = [] \<or> 4 < length s then None
      else map_option (foldl (\<lambda>acc d. 16 * acc + d) 0) (those (map hex_val s)))"

definition hex_char :: "nat \<Rightarrow> char" where
  "hex_char d = char_of (if d < 10 then 48 + d else 87 + d)"

fun hex_of_nat :: "nat \<Rightarrow> string" where
  "hex_of_nat n = (if n < 16 then [hex_char n] else hex_of_nat (n div 16) @ [hex_char (n mod 16)])"

declare hex_of_nat.simps [simp del]

text \<open>An IPv4-style suffix becomes two hextets.\<close>

definition v6_parts :: "string list \<Rightarrow> string list option" where
  "v6_parts parts =
     (if CHR ''.'' \<in> set (last parts)
      then map_option (\<lambda>w. butlast parts @
             [hex_of_nat (unat (drop_bit 16 w AND 65535)), hex_of_nat (unat (w AND 65535))])
             (v4_of_string (last parts))
      else Some parts)"

text \<open>How many hextets to copy before and after \<open>::\<close>, and how many it stands for.\<close>

definition v6_shape :: "string list \<Rightarrow> (nat \<times> nat \<times> nat) option" where
  "v6_shape parts =
     (let n = length parts
      in case filter (\<lambda>i. parts ! i = []) [1..<n - 1] of
           [] \<Rightarrow> if n \<noteq> 8 \<or> hd parts = [] \<or> last parts = [] then None else Some (8, 0, 0)
         | [i] \<Rightarrow>
             (let hi = (if hd parts = [] then i - 1 else i);
                  lo = (if last parts = [] then n - i - 2 else n - i - 1)
              in if hd parts = [] \<and> hi \<noteq> 0 \<or> last parts = [] \<and> lo \<noteq> 0 \<or> 8 < hi + lo + 1 then None
                 else Some (hi, lo, 8 - (hi + lo)))
         | _ \<Rightarrow> None)"

definition v6_from_hextets :: "128 word \<Rightarrow> nat list \<Rightarrow> 128 word" where
  "v6_from_hextets = foldl (\<lambda>acc h. push_bit 16 acc OR word_of_nat h)"

definition v6_of_string :: "string \<Rightarrow> 128 word option" where
  "v6_of_string s =
     (let parts0 = split_on (CHR '':'') s
      in if s = [] \<or> length parts0 < 3 then None
         else case v6_parts parts0 of
           None \<Rightarrow> None
         | Some parts \<Rightarrow>
             if 9 < length parts then None
             else case v6_shape parts of
               None \<Rightarrow> None
             | Some (hi, lo, skipped) \<Rightarrow>
                 (case (those (map parse_hextet (take hi parts)),
                        those (map parse_hextet (drop (length parts - lo) parts))) of
                    (Some h, Some l) \<Rightarrow>
                      Some (v6_from_hextets (push_bit (16 * skipped) (v6_from_hextets 0 h)) l)
                  | _ \<Rightarrow> None))"

text \<open>
  \<open>_compress_hextets\<close>: the state of the loop is the start and length of the longest run of
  zeros so far and of the current run; a start of -1 is \<open>None\<close>.
\<close>

record zero_runs =
  best_start :: "nat option"
  best_len :: nat
  run_start :: "nat option"
  run_len :: nat

definition scan_hextet :: "zero_runs \<Rightarrow> nat \<times> string \<Rightarrow> zero_runs" where
  "scan_hextet st ih = (case ih of (index, hextet) \<Rightarrow>
     if hextet = ''0'' then
       (let len = run_len st + 1;
            start = (case run_start st of None \<Rightarrow> index | Some i \<Rightarrow> i);
            st' = st\<lparr>run_len := len, run_start := Some start\<rparr>
        in if best_len st < len then st'\<lparr>best_len := len, best_start := Some start\<rparr> else st')
     else st\<lparr>run_len := 0, run_start := None\<rparr>)"

definition zero_run :: "string list \<Rightarrow> zero_runs" where
  "zero_run hextets = foldl scan_hextet
     \<lparr>best_start = None, best_len = 0, run_start = None, run_len = 0\<rparr>
     (zip [0..<length hextets] hextets)"

definition compress_hextets :: "string list \<Rightarrow> string list" where
  "compress_hextets hextets =
     (let st = zero_run hextets
      in if 1 < best_len st then
           (let start = (case best_start st of Some i \<Rightarrow> i | None \<Rightarrow> 0);
                stop = start + best_len st
            in (if start = 0 then [''''] else []) @ take start hextets @ [''''] @
               drop stop hextets @ (if stop = length hextets then [''''] else []))
         else hextets)"

definition v6_to_hextets :: "128 word \<Rightarrow> nat list" where
  "v6_to_hextets w = map (\<lambda>k. unat (drop_bit k w AND 65535)) [112, 96, 80, 64, 48, 32, 16, 0]"

definition string_of_v6 :: "128 word \<Rightarrow> string" where
  "string_of_v6 w = join '':'' (compress_hextets (map hex_of_nat (v6_to_hextets w)))"

subsection \<open>Addresses\<close>

text \<open>\<open>_split_scope_id\<close>: the part after \<open>%\<close>, which is not empty and has no second \<open>%\<close>.\<close>

definition split_scope_id :: "string \<Rightarrow> (string \<times> string option) option" where
  "split_scope_id s = (case partition_on (CHR ''%'') s of (addr, sep, scope_id) \<Rightarrow>
     if \<not> sep then Some (addr, None)
     else if scope_id = [] \<or> CHR ''%'' \<in> set scope_id then None
     else Some (addr, Some scope_id))"

definition ip_address :: "string \<Rightarrow> ip option" where
  "ip_address s =
     (if CHR ''/'' \<in> set s then None
      else case v4_of_string s of
        Some w \<Rightarrow> Some (V4 w)
      | None \<Rightarrow>
          (case split_scope_id s of
             None \<Rightarrow> None
           | Some (addr, scope) \<Rightarrow> map_option (\<lambda>w. V6 w scope) (v6_of_string addr)))"

fun str_of_ip :: "ip \<Rightarrow> string" where
  "str_of_ip (V4 w) = string_of_v4 w"
| "str_of_ip (V6 w scope) =
     string_of_v6 w @ (case scope of Some z \<Rightarrow> CHR ''%'' # z | None \<Rightarrow> [])"

subsection \<open>Networks\<close>

text \<open>\<open>_ALL_ONES ^ (_ALL_ONES >> prefixlen)\<close>\<close>

definition netmask :: "nat \<Rightarrow> 'w::len word" where
  "netmask p = (- 1) XOR drop_bit p (- 1)"

definition prefix_from_string :: "nat \<Rightarrow> string \<Rightarrow> nat option" where
  "prefix_from_string max_prefixlen s =
     (if s = [] \<or> \<not> list_all is_digit s then None
      else case int_of_str s of
        None \<Rightarrow> None
      | Some n \<Rightarrow> if n \<le> int max_prefixlen then Some (nat n) else None)"

definition prefix_from_ip_int :: "32 word \<Rightarrow> nat option" where
  "prefix_from_ip_int w = List.find (\<lambda>p. netmask p = w) [0..<33]"

definition make_netmask_v4 :: "string \<Rightarrow> nat option" where
  "make_netmask_v4 s =
     (case prefix_from_string 32 s of
        Some p \<Rightarrow> Some p
      | None \<Rightarrow>
          (case v4_of_string s of
             None \<Rightarrow> None
           | Some w \<Rightarrow>
               (case prefix_from_ip_int w of
                  Some p \<Rightarrow> Some p
                | None \<Rightarrow> prefix_from_ip_int (w XOR (- 1)))))"

definition v4_network :: "string \<Rightarrow> string option \<Rightarrow> ip_net option" where
  "v4_network addr msk =
     (case (v4_of_string addr, case msk of None \<Rightarrow> Some 32 | Some m \<Rightarrow> make_netmask_v4 m) of
        (Some w, Some p) \<Rightarrow> Some (Net4 (w AND netmask p) p)
      | _ \<Rightarrow> None)"

text \<open>The zone survives only when the address has no host bits.\<close>

definition v6_network :: "string \<Rightarrow> string option \<Rightarrow> ip_net option" where
  "v6_network addr msk =
     (case split_scope_id addr of
        None \<Rightarrow> None
      | Some (a, scope) \<Rightarrow>
          (case (v6_of_string a, case msk of None \<Rightarrow> Some 128 | Some m \<Rightarrow> prefix_from_string 128 m) of
             (Some w, Some p) \<Rightarrow>
               Some (if w AND netmask p \<noteq> w then Net6 (w AND netmask p) None p else Net6 w scope p)
           | _ \<Rightarrow> None))"

definition ip_network :: "string \<Rightarrow> ip_net option" where
  "ip_network s =
     (let net = (\<lambda>addr msk. case v4_network addr msk of
                   Some n \<Rightarrow> Some n | None \<Rightarrow> v6_network addr msk)
      in case split_on (CHR ''/'') s of
           [addr] \<Rightarrow> net addr None
         | [addr, msk] \<Rightarrow> net addr (Some msk)
         | _ \<Rightarrow> None)"

fun in_network :: "ip \<Rightarrow> ip_net \<Rightarrow> bool" where
  "in_network (V4 a) (Net4 n p) \<longleftrightarrow> a AND netmask p = n"
| "in_network (V6 a _) (Net6 n _ p) \<longleftrightarrow> a AND netmask p = n"
| "in_network _ _ \<longleftrightarrow> False"

fun str_of_net :: "ip_net \<Rightarrow> string" where
  "str_of_net (Net4 n p) = string_of_v4 n @ CHR ''/'' # str_of_nat p"
| "str_of_net (Net6 n scope p) = str_of_ip (V6 n scope) @ CHR ''/'' # str_of_nat p"

end
