(* ===== verification/IpText.thy ===== *)
theory IpText
  imports Ip
begin

text \<open>
  Printing and parsing of addresses are inverse: the text \<open>str\<close> gives for an address, with the
  longest run of zero hextets left out, is parsed back to that address.
\<close>

subsection \<open>IPv4\<close>

lemma str_of_nat_hd_zero: "hd (str_of_nat n) = CHR ''0'' \<Longrightarrow> n = 0"
proof (induction n rule: str_of_nat.induct)
  case (1 n)
  show ?case
  proof (cases "n < 10")
    case True
    then have "hd (str_of_nat n) = digit_char n" by (subst str_of_nat.simps) simp
    with 1 have "py_ord (digit_char n) = py_ord (CHR ''0'')" by simp
    with True show ?thesis by simp
  next
    case False
    then have "hd (str_of_nat n) = hd (str_of_nat (n div 10))" by (subst str_of_nat.simps) simp
    with 1 False show ?thesis by simp
  qed
qed

lemma str_of_nat_0: "str_of_nat 0 = ''0''"
  by code_simp

lemma parse_octet_str: "n < 256 \<Longrightarrow> parse_octet (str_of_nat n) = Some n"
  using str_of_nat_digits [of n] length_str_of_nat [of 3 n] str_of_nat_hd_zero [of n] str_of_nat_0
  by (auto simp: parse_octet_def list_all_iff)

lemma v4_bytes: "v4_from_bytes (v4_to_bytes w) = w"
proof -
  have m: "(255 :: 32 word) = mask 8" by (simp add: mask_eq_exp_minus_1)
  show ?thesis
  proof (rule bit_word_eqI)
    fix n assume "n < LENGTH(32)"
    then consider "n < 8" | "8 \<le> n" "n < 16" | "16 \<le> n" "n < 24" | "24 \<le> n" "n < 32" by fastforce
    then show "bit (v4_from_bytes (v4_to_bytes w)) n = bit w n"
      unfolding v4_from_bytes_def v4_to_bytes_def m
      by cases (auto simp: bit_simps)
  qed
qed

lemma v4_to_bytes_less: "b \<in> set (v4_to_bytes w) \<Longrightarrow> b < 256"
proof -
  have m: "(255 :: 32 word) = mask 8" by (simp add: mask_eq_exp_minus_1)
  have "unat (x AND 255) < 256" for x :: "32 word"
    unfolding m using take_bit_nat_less_exp [of 8 "unat x"]
    by (simp add: unsigned_take_bit_eq flip: take_bit_eq_mask)
  then show "b \<in> set (v4_to_bytes w) \<Longrightarrow> b < 256" by (auto simp: v4_to_bytes_def)
qed

lemma those_map_Some: "\<forall>x \<in> set xs. f x = Some (g x) \<Longrightarrow> those (map f xs) = Some (map g xs)"
  by (induction xs) auto

lemma str_of_nat_no_sep: "\<not> is_digit c \<Longrightarrow> c \<notin> set (str_of_nat n)"
  using str_of_nat_digits by auto

lemma v4_of_string_of_v4 [simp]: "v4_of_string (string_of_v4 w) = Some w"
proof -
  let ?bs = "v4_to_bytes w"
  have "split_on (CHR ''.'') (string_of_v4 w) = map str_of_nat ?bs"
    unfolding string_of_v4_def
    by (rule split_on_join) (auto simp: v4_to_bytes_def str_of_nat_no_sep is_digit_def)
  moreover have "those (map parse_octet (map str_of_nat ?bs)) = Some ?bs"
    using those_map_Some [of ?bs "parse_octet \<circ> str_of_nat" id] parse_octet_str v4_to_bytes_less
    by simp
  moreover have "length ?bs = 4" by (simp add: v4_to_bytes_def)
  ultimately show ?thesis by (simp add: v4_of_string_def v4_bytes)
qed

lemma slash_not_in_v4: "\<not> is_digit c \<Longrightarrow> c \<noteq> CHR ''.'' \<Longrightarrow> c \<notin> set (string_of_v4 w)"
  using str_of_nat_no_sep [of c]
  by (auto simp: string_of_v4_def v4_to_bytes_def)

lemma ip_address_string_of_v4 [simp]: "ip_address (string_of_v4 w) = Some (V4 w)"
  using slash_not_in_v4 [of "CHR ''/''" w] by (simp add: ip_address_def is_digit_def)

lemma prefix_from_string_str: "p \<le> m \<Longrightarrow> m < 1000 \<Longrightarrow> prefix_from_string m (str_of_nat p) = Some p"
proof -
  assume p: "p \<le> m" "m < 1000"
  have "int_of_str (str_of_nat p) = Some (int p)"
    using int_of_str_small [of "int p"] p by (simp add: str_of_int_def)
  then show ?thesis
    using str_of_nat_digits [of p] p by (simp add: prefix_from_string_def list_all_iff)
qed

lemma ip_network_prefixed:
  assumes "CHR ''/'' \<notin> set a" "v4_of_string a = Some w" "p \<le> 32"
  shows "ip_network (a @ CHR ''/'' # str_of_nat p) = Some (Net4 (w AND netmask p) p)"
proof -
  have "split_on (CHR ''/'') (a @ CHR ''/'' # str_of_nat p) = [a, str_of_nat p]"
    using assms(1) str_of_nat_no_sep [of "CHR ''/''" p]
    by (simp add: split_on_append split_on_no_sep is_digit_def)
  moreover have "make_netmask_v4 (str_of_nat p) = Some p"
    using prefix_from_string_str [OF assms(3)] by (simp add: make_netmask_v4_def)
  ultimately show ?thesis by (simp add: ip_network_def v4_network_def assms(2))
qed

subsection \<open>IPv6\<close>

lemma hex_val_hex_char [simp]: "d < 16 \<Longrightarrow> hex_val (hex_char d) = Some d"
  by (auto simp: hex_val_def hex_char_def Let_def)

lemma those_append: "those (xs @ ys) = (case (those xs, those ys) of
    (Some a, Some b) \<Rightarrow> Some (a @ b) | _ \<Rightarrow> None)"
  by (induction xs) (auto split: option.splits)

lemma hex_of_nat_parse:
  "\<exists>ds. those (map hex_val (hex_of_nat n)) = Some ds \<and> foldl (\<lambda>acc d. 16 * acc + d) 0 ds = n"
proof (induction n rule: hex_of_nat.induct)
  case (1 n)
  show ?case
  proof (cases "n < 16")
    case True
    then show ?thesis by (subst hex_of_nat.simps) simp
  next
    case False
    with 1 obtain ds where "those (map hex_val (hex_of_nat (n div 16))) = Some ds"
      "foldl (\<lambda>acc d. 16 * acc + d) 0 ds = n div 16" by auto
    with False show ?thesis by (subst hex_of_nat.simps) (simp add: those_append)
  qed
qed

lemma hex_of_nat_not_Nil [simp]: "hex_of_nat n \<noteq> []"
  by (subst hex_of_nat.simps) simp

lemma length_hex_of_nat: "0 < k \<Longrightarrow> n < 16 ^ k \<Longrightarrow> length (hex_of_nat n) \<le> k"
proof (induction n arbitrary: k rule: hex_of_nat.induct)
  case (1 n)
  show ?case
  proof (cases "n < 16")
    case True
    with 1 show ?thesis by (subst hex_of_nat.simps) simp
  next
    case False
    with "1.prems" obtain j where j: "k = Suc j" "0 < j"
      by (cases k; cases "k - 1") auto
    with "1.prems" have "n div 16 < 16 ^ j"
      by (simp add: div_less_iff_less_mult mult.commute)
    with False j "1.IH" [of j] show ?thesis
      by (subst hex_of_nat.simps) simp
  qed
qed

lemma parse_hextet_hex [simp]: "n < 65536 \<Longrightarrow> parse_hextet (hex_of_nat n) = Some n"
  using hex_of_nat_parse [of n] length_hex_of_nat [of 4 n] by (auto simp: parse_hextet_def)

lemma hex_of_nat_chars: "c \<in> set (hex_of_nat n) \<Longrightarrow> \<exists>d. hex_val c = Some d"
proof -
  have "those xs = Some ys \<Longrightarrow> \<forall>x \<in> set xs. x \<noteq> None" for xs :: "nat option list" and ys
    by (induction xs arbitrary: ys) (auto split: option.splits)
  then show "c \<in> set (hex_of_nat n) \<Longrightarrow> \<exists>d. hex_val c = Some d"
    using hex_of_nat_parse [of n] by fastforce
qed

lemma hex_no_sep: "hex_val c = None \<Longrightarrow> c \<notin> set (hex_of_nat n)"
  using hex_of_nat_chars by fastforce

lemma hex_of_nat_zero: "hex_of_nat n = ''0'' \<longleftrightarrow> n = 0"
proof
  assume "hex_of_nat n = ''0''"
  then have "those (map hex_val (hex_of_nat n)) = Some [0]" by (simp add: hex_val_def)
  with hex_of_nat_parse [of n] show "n = 0" by auto
next
  assume "n = 0"
  moreover have "hex_of_nat 0 = ''0''" by code_simp
  ultimately show "hex_of_nat n = ''0''" by simp
qed

lemma v6_hextets: "v6_from_hextets 0 (v6_to_hextets w) = w"
proof -
  have m: "(65535 :: 128 word) = mask 16" by (simp add: mask_eq_exp_minus_1)
  show ?thesis
  proof (rule bit_word_eqI)
    fix n assume "n < LENGTH(128)"
    then consider "n < 16" | "16 \<le> n" "n < 32" | "32 \<le> n" "n < 48" | "48 \<le> n" "n < 64"
      | "64 \<le> n" "n < 80" | "80 \<le> n" "n < 96" | "96 \<le> n" "n < 112" | "112 \<le> n" "n < 128"
      by fastforce
    then show "bit (v6_from_hextets 0 (v6_to_hextets w)) n = bit w n"
      unfolding v6_from_hextets_def v6_to_hextets_def m
      by cases (simp_all add: bit_simps less_diff_conv2)
  qed
qed

lemma v6_to_hextets_less: "b \<in> set (v6_to_hextets w) \<Longrightarrow> b < 65536"
proof -
  have m: "(65535 :: 128 word) = mask 16" by (simp add: mask_eq_exp_minus_1)
  have "unat (x AND 65535) < 65536" for x :: "128 word"
    unfolding m using take_bit_nat_less_exp [of 16 "unat x"]
    by (simp add: unsigned_take_bit_eq flip: take_bit_eq_mask)
  then show "b \<in> set (v6_to_hextets w) \<Longrightarrow> b < 65536" by (auto simp: v6_to_hextets_def)
qed

lemma v6_from_zeros: "v6_from_hextets acc (replicate n 0) = push_bit (16 * n) acc"
  by (induction n arbitrary: acc) (simp_all add: v6_from_hextets_def push_bit_push_bit add.commute)

text \<open>The run of zeros the scan finds lies in the list.\<close>

definition run_ok :: "string list \<Rightarrow> zero_runs \<Rightarrow> bool" where
  "run_ok hs st \<longleftrightarrow>
     run_len st \<le> length hs \<and> run_start st = (if run_len st = 0 then None else Some (length hs - run_len st)) \<and>
     drop (length hs - run_len st) hs = replicate (run_len st) ''0'' \<and>
     (0 < best_len st \<longrightarrow> (\<exists>i. best_start st = Some i \<and> i + best_len st \<le> length hs \<and>
        take (best_len st) (drop i hs) = replicate (best_len st) ''0''))"

lemma run_ok_zero_run: "run_ok hs (zero_run hs)"
proof (induction hs rule: rev_induct)
  case Nil
  then show ?case by (simp add: zero_run_def run_ok_def)
next
  case (snoc h hs)
  let ?st = "zero_run hs"
  have st: "zero_run (hs @ [h]) = scan_hextet ?st (length hs, h)"
    by (simp add: zero_run_def)
  have rep: "replicate n x @ [x] = x # replicate n x" for n and x :: string
    by (simp add: replicate_append_same)
  show ?case
  proof (cases "h = ''0''")
    case False
    then show ?thesis using snoc unfolding st run_ok_def scan_hextet_def by auto
  next
    case True
    let ?r = "run_len ?st" and ?hs = "hs @ [''0'']"
    have r: "?r \<le> length hs" "drop (length hs - ?r) hs = replicate ?r ''0''"
      "run_start ?st = (if ?r = 0 then None else Some (length hs - ?r))"
      using snoc by (simp_all add: run_ok_def)
    have d: "drop (length hs - ?r) ?hs = replicate (Suc ?r) ''0''"
      by (simp add: r(2) rep)
    have new: "zero_run ?hs = (if best_len ?st < Suc ?r
        then ?st\<lparr>run_len := Suc ?r, run_start := Some (length hs - ?r), best_len := Suc ?r,
               best_start := Some (length hs - ?r)\<rparr>
        else ?st\<lparr>run_len := Suc ?r, run_start := Some (length hs - ?r)\<rparr>)"
      using st r(3) True by (simp add: scan_hextet_def Let_def)
    show ?thesis
    proof (cases "best_len ?st < Suc ?r")
      case True
      then show ?thesis
        using r(1) d new \<open>h = ''0''\<close> by (simp add: run_ok_def)
    next
      case False
      then obtain i where i: "best_start ?st = Some i" "i + best_len ?st \<le> length hs"
        "take (best_len ?st) (drop i hs) = replicate (best_len ?st) ''0''"
        using snoc by (auto simp: run_ok_def)
      then show ?thesis
        using r(1) d new False \<open>h = ''0''\<close> by (simp add: run_ok_def)
    qed
  qed
qed

lemma v6_shape_plain:
  assumes "length hs = 8" "\<forall>h \<in> set hs. h \<noteq> []"
  shows "v6_shape hs = Some (8, 0, 0)"
proof -
  have "filter (\<lambda>i. hs ! i = []) [1..<length hs - 1] = []"
    using assms by (auto simp: filter_empty_conv)
  moreover have "hs \<noteq> []" "hd hs \<noteq> []" "last hs \<noteq> []"
    using assms by (cases hs, auto)+
  ultimately show ?thesis using assms(1) by (simp add: v6_shape_def)
qed

text \<open>The list with the run \<open>start .. stop\<close> of zeros replaced by an empty part.\<close>

definition skip_run :: "nat \<Rightarrow> nat \<Rightarrow> string list \<Rightarrow> string list" where
  "skip_run start stop hs = (if start = 0 then [''''] else []) @ take start hs @ [''''] @
     drop stop hs @ (if stop = length hs then [''''] else [])"

definition skip_run_ok :: "nat \<Rightarrow> nat \<Rightarrow> string list \<Rightarrow> bool" where
  "skip_run_ok start stop hs \<longleftrightarrow>
    v6_shape (skip_run start stop hs) = Some (start, 8 - stop, stop - start) \<and>
    take start (skip_run start stop hs) = take start hs \<and>
    drop (length (skip_run start stop hs) - (8 - stop)) (skip_run start stop hs) = drop stop hs"

lemma filter_one: "a \<le> k \<Longrightarrow> k < b \<Longrightarrow> filter (\<lambda>i. i = k) [a..<b] = [k]"
  by (induction b) auto

lemma v6_shape_skip:
  assumes hs: "length hs = 8" "\<forall>h \<in> set hs. h \<noteq> []" and r: "start + 2 \<le> stop" "stop \<le> 8"
  shows "skip_run_ok start stop hs"
proof -
  define A where "A = (if start = 0 then [''''] else take start hs)"
  define D where "D = drop stop hs @ (if stop = length hs then [''''] else [])"
  have C: "skip_run start stop hs = A @ [''''] @ D"
    by (simp add: skip_run_def A_def D_def)
  have lA: "length A = (if start = 0 then 1 else start)" using hs(1) r by (simp add: A_def)
  have lD: "length D = (if stop = 8 then 1 else 8 - stop)" using hs(1) r by (simp add: D_def)
  have mid: "(A @ [''''] @ D) ! j = [] \<longleftrightarrow> j = length A"
    if j: "1 \<le> j" "j < length (A @ [''''] @ D) - 1" for j
  proof -
    consider "j < length A" | "j = length A" | k where "j = length A + 1 + k" "k < length D - 1"
    proof (cases j "length A" rule: linorder_cases)
      case greater
      then have "j = length A + 1 + (j - length A - 1)" "j - length A - 1 < length D - 1"
        using j(2) by simp_all
      then show ?thesis by (rule that(3))
    qed (use that(1,2) in blast)+
    then show ?thesis
    proof cases
      case 1
      then have "j < start" "(A @ [''''] @ D) ! j = hs ! j"
        using j(1) lA by (auto simp: A_def nth_append split: if_splits)
      then show ?thesis using 1 hs r by (auto simp: in_set_conv_nth)
    next
      case 2
      then show ?thesis by (simp add: nth_append)
    next
      case 3
      then have "(A @ [''''] @ D) ! j = D ! k" by (simp add: nth_append)
      moreover have "k < 8 - stop" "stop \<noteq> 8" using 3(2) lD by (auto split: if_splits)
      then have "D ! k = hs ! (stop + k)" "stop + k < 8" using hs(1) r by (simp_all add: D_def)
      ultimately show ?thesis using 3 hs by (auto simp: in_set_conv_nth)
    qed
  qed
  let ?n = "length (A @ [''''] @ D)"
  have "filter (\<lambda>i. (A @ [''''] @ D) ! i = []) [1..<?n - 1] = filter (\<lambda>i. i = length A) [1..<?n - 1]"
  proof (rule filter_cong [OF refl])
    fix i assume "i \<in> set [1..<?n - 1]"
    then show "(A @ [''''] @ D) ! i = [] \<longleftrightarrow> i = length A" by (intro mid) simp_all
  qed
  also have "\<dots> = [length A]" by (rule filter_one) (use lA lD r in auto)
  finally have f: "filter (\<lambda>i. (A @ [''''] @ D) ! i = []) [1..<?n - 1] = [length A]" .
  have hdA: "hd (A @ [''''] @ D) = [] \<longleftrightarrow> start = 0"
    using hs r lA by (cases hs) (auto simp: A_def)
  have lastD: "last (A @ [''''] @ D) = [] \<longleftrightarrow> stop = 8"
    using hs r lD last_in_set [of hs] by (cases "hs = []") (auto simp: D_def)
  show ?thesis
    unfolding skip_run_ok_def C v6_shape_def Let_def f
    using hdA lastD lA lD r hs(1)
    by (cases "start = 0"; cases "stop = 8") (auto simp: A_def D_def)
qed

lemma v6_from_hextets_append:
  "v6_from_hextets acc (xs @ ys) = v6_from_hextets (v6_from_hextets acc xs) ys"
  by (simp add: v6_from_hextets_def)

lemma those_parse_hextets:
  "\<forall>n \<in> set ns. n < 65536 \<Longrightarrow> those (map parse_hextet (map hex_of_nat ns)) = Some ns"
  by (induction ns) simp_all

text \<open>Parsing the hextets with a run of zeros left out gives the number back.\<close>

lemma compress_hextets_skip:
  assumes "length hs = 8"
  shows "compress_hextets hs = hs \<or> (\<exists>start stop. start + 2 \<le> stop \<and> stop \<le> 8 \<and>
    compress_hextets hs = skip_run start stop hs \<and>
    take (stop - start) (drop start hs) = replicate (stop - start) ''0'')"
proof (cases "1 < best_len (zero_run hs)")
  case False
  then show ?thesis by (simp add: compress_hextets_def)
next
  case True
  let ?st = "zero_run hs"
  obtain i where i: "best_start ?st = Some i" "i + best_len ?st \<le> 8"
    "take (best_len ?st) (drop i hs) = replicate (best_len ?st) ''0''"
    using run_ok_zero_run [of hs] True assms by (auto simp: run_ok_def)
  with True assms show ?thesis
    by (intro disjI2 exI [of _ i] exI [of _ "i + best_len ?st"])
      (simp add: compress_hextets_def skip_run_def Let_def)
qed

lemma v6_of_hextets:
  assumes "length ns = 8" "\<forall>n \<in> set ns. n < 65536"
  shows "v6_of_string (join '':'' (compress_hextets (map hex_of_nat ns))) = Some (v6_from_hextets 0 ns)"
proof -
  let ?hs = "map hex_of_nat ns"
  let ?C = "compress_hextets ?hs"
  obtain hi lo sk where shape: "v6_shape ?C = Some (hi, lo, sk)"
    and hi: "take hi ?C = take hi ?hs" and lo: "drop (length ?C - lo) ?C = drop (8 - lo) ?hs"
    and sk: "hi + sk + lo = 8" "take sk (drop hi ns) = replicate sk 0"
    and C: "set ?C \<subseteq> insert [] (set ?hs)" "3 \<le> length ?C" "length ?C \<le> 9"
    using compress_hextets_skip [of ?hs, simplified length_map, OF assms(1)]
  proof (elim disjE exE conjE)
    assume "?C = ?hs"
    moreover have "v6_shape ?hs = Some (8, 0, 0)" by (rule v6_shape_plain) (use assms in auto)
    ultimately show ?thesis using assms(1) by (intro that [of 8 0 0]) auto
  next
    fix start stop
    assume r: "start + 2 \<le> stop" "stop \<le> 8" "?C = skip_run start stop ?hs"
      "take (stop - start) (drop start ?hs) = replicate (stop - start) ''0''"
    have "skip_run_ok start stop ?hs" by (rule v6_shape_skip) (use assms r in auto)
    moreover have "take (stop - start) (drop start ns) = replicate (stop - start) 0"
    proof -
      have l: "length (take (stop - start) (drop start ns)) = stop - start" using assms(1) r by simp
      have "\<forall>n \<in> set (take (stop - start) (drop start ns)). hex_of_nat n = ''0''"
        using r(4) by (metis in_set_replicate list.set_map imageI take_map drop_map)
      then show ?thesis
        by (metis l hex_of_nat_zero replicate_length_same)
    qed
    moreover have "set (skip_run start stop ?hs) \<subseteq> insert [] (set ?hs)"
      by (auto simp: skip_run_def dest: in_set_takeD in_set_dropD)
    moreover have "3 \<le> length (skip_run start stop ?hs)" "length (skip_run start stop ?hs) \<le> 9"
      using r assms(1) by (auto simp: skip_run_def)
    ultimately show ?thesis
      using r by (intro that [of start "8 - stop" "stop - start"]) (simp_all add: skip_run_ok_def)
  qed
  have no: "c \<notin> set h" if "h \<in> set ?C" "hex_val c = None" for h c
    using that C(1) hex_no_sep [OF that(2)] by auto
  have split: "split_on (CHR '':'') (join '':'' ?C) = ?C"
    by (rule split_on_join) (use C(2) no in \<open>auto simp: hex_val_def\<close>)
  have "CHR ''.'' \<notin> set (last ?C)"
    by (rule no) (use C(2) in \<open>auto simp: hex_val_def intro: last_in_set\<close>)
  then have parts: "v6_parts ?C = Some ?C" by (simp add: v6_parts_def)
  have ne: "join '':'' ?C \<noteq> []"
  proof
    assume "join '':'' ?C = []"
    then have "length (split_on (CHR '':'') (join '':'' ?C)) = 1" by simp
    with C(2) show False unfolding split by simp
  qed
  have h: "those (map parse_hextet (take hi ?C)) = Some (take hi ns)"
    unfolding hi take_map
    by (rule those_parse_hextets) (use assms(2) in \<open>auto dest: in_set_takeD\<close>)
  have l: "those (map parse_hextet (drop (length ?C - lo) ?C)) = Some (drop (8 - lo) ns)"
    unfolding lo drop_map
    by (rule those_parse_hextets) (use assms(2) in \<open>auto dest: in_set_dropD\<close>)
  have ns: "ns = (take hi ns @ replicate sk 0) @ drop (8 - lo) ns"
  proof -
    have "ns = take hi ns @ take sk (drop hi ns) @ drop sk (drop hi ns)"
      by (simp only: append_take_drop_id)
    moreover have "8 - lo = sk + hi" using sk(1) by simp
    then have "drop sk (drop hi ns) = drop (8 - lo) ns" by simp
    ultimately show ?thesis using sk(2) by simp
  qed
  have "v6_from_hextets 0 ns =
      v6_from_hextets (push_bit (16 * sk) (v6_from_hextets 0 (take hi ns))) (drop (8 - lo) ns)"
    by (subst ns) (simp only: v6_from_hextets_append v6_from_zeros)
  then show ?thesis
    using split parts shape ne C(2,3) h l by (simp add: v6_of_string_def)
qed

lemma v6_of_string_of_v6 [simp]: "v6_of_string (string_of_v6 w) = Some w"
  unfolding string_of_v6_def
  by (subst v6_of_hextets) (simp_all add: v6_hextets v6_to_hextets_less, simp add: v6_to_hextets_def)

subsection \<open>Addresses\<close>

lemma those_Some: "those xs = Some ys \<Longrightarrow> xs = map Some ys"
  by (induction xs arbitrary: ys) (auto split: option.splits)

lemma set_join: "set (join sep ps) \<subseteq> set sep \<union> (\<Union>p \<in> set ps. set p)"
  by (induction sep ps rule: join.induct) auto

lemma set_compress: "set (compress_hextets hs) \<subseteq> insert [] (set hs)"
  by (auto simp: compress_hextets_def Let_def dest: in_set_takeD in_set_dropD)

lemma v4_of_string_chars: "v4_of_string s = Some w \<Longrightarrow> c \<in> set s \<Longrightarrow> is_digit c \<or> c = CHR ''.''"
proof -
  assume v4: "v4_of_string s = Some w" and c: "c \<in> set s"
  let ?ps = "split_on (CHR ''.'') s"
  obtain bs where "those (map parse_octet ?ps) = Some bs"
    using v4 by (auto simp: v4_of_string_def Let_def split: if_splits)
  from arg_cong [OF those_Some [OF this], of set]
  have "parse_octet ` set ?ps = Some ` set bs" by simp
  then have "\<forall>p \<in> set ?ps. parse_octet p \<noteq> None" by blast
  then have dig: "\<forall>p \<in> set ?ps. \<forall>c \<in> set p. is_digit c"
    by (auto simp: parse_octet_def list_all_iff split: if_splits)
  from subsetD [OF set_join [of "''.''" ?ps]] have "c \<in> set ''.'' \<union> (\<Union>p \<in> set ?ps. set p)"
    using c join_split_on [of "CHR ''.''" s] by simp
  with dig show ?thesis by auto
qed

definition zone_ok :: "string option \<Rightarrow> bool" where
  "zone_ok scope \<longleftrightarrow> (\<forall>z. scope = Some z \<longrightarrow> z \<noteq> [] \<and> CHR ''%'' \<notin> set z \<and> CHR ''/'' \<notin> set z)"

fun ip_ok :: "ip \<Rightarrow> bool" where
  "ip_ok (V4 w) \<longleftrightarrow> True"
| "ip_ok (V6 w scope) \<longleftrightarrow> zone_ok scope"

lemma partition_on_parts:
  "partition_on sep s = (a, True, b) \<Longrightarrow> s = a @ sep # b"
  by (induction s arbitrary: a) (auto split: if_splits prod.splits)

lemma ip_address_ok: "ip_address s = Some a \<Longrightarrow> ip_ok a"
  by (auto simp: ip_address_def split_scope_id_def zone_ok_def dest: partition_on_parts
      split: if_splits option.splits prod.splits)

lemma v6_string_chars:
  assumes "c \<in> set (string_of_v6 w)" "hex_val c = None"
  shows "c = CHR '':''"
proof (rule ccontr)
  assume "c \<noteq> CHR '':''"
  let ?hs = "map hex_of_nat (v6_to_hextets w)"
  obtain p where p: "p \<in> set (compress_hextets ?hs)" "c \<in> set p"
    using subsetD [OF set_join assms(1) [unfolded string_of_v6_def]] \<open>c \<noteq> CHR '':''\<close> by auto
  with set_compress have "p \<in> insert [] (set ?hs)" by blast
  with p(2) show False using hex_no_sep [OF assms(2)] by auto
qed

lemma colon_in_v6: "CHR '':'' \<in> set (string_of_v6 w)"
proof (rule ccontr)
  assume "CHR '':'' \<notin> set (string_of_v6 w)"
  then have "v6_of_string (string_of_v6 w) = None"
    by (simp add: v6_of_string_def split_on_no_sep)
  then show False by simp
qed

lemma split_scope_str:
  "zone_ok scope \<Longrightarrow> split_scope_id (str_of_ip (V6 w scope)) = Some (string_of_v6 w, scope)"
proof -
  have "CHR ''%'' \<notin> set (string_of_v6 w)"
    using v6_string_chars [of "CHR ''%''" w] by (auto simp: hex_val_def)
  then show "zone_ok scope \<Longrightarrow> split_scope_id (str_of_ip (V6 w scope)) = Some (string_of_v6 w, scope)"
    by (cases scope) (auto simp: split_scope_id_def partition_on_sep partition_on_no_sep zone_ok_def)
qed

lemma v4_of_v6 [simp]: "v4_of_string (str_of_ip (V6 w scope)) = None"
  using v4_of_string_chars [of "str_of_ip (V6 w scope)" _ "CHR '':''"] colon_in_v6 [of w]
  by (cases "v4_of_string (str_of_ip (V6 w scope))") (auto simp: is_digit_def)

lemma slash_not_in_ip: "ip_ok a \<Longrightarrow> CHR ''/'' \<notin> set (str_of_ip a)"
proof (cases a)
  case (V4 w)
  then show ?thesis using slash_not_in_v4 [of "CHR ''/''" w] by (simp add: is_digit_def)
next
  case (V6 w scope)
  moreover have "CHR ''/'' \<notin> set (string_of_v6 w)"
    using v6_string_chars [of "CHR ''/''" w] by (auto simp: hex_val_def)
  ultimately show "ip_ok a \<Longrightarrow> ?thesis" by (cases scope) (auto simp: zone_ok_def)
qed

lemma ip_address_str_of_ip: "ip_ok a \<Longrightarrow> ip_address (str_of_ip a) = Some a"
proof -
  assume ok: "ip_ok a"
  note sl = slash_not_in_ip [OF ok]
  show ?thesis
  proof (cases a)
    case (V4 w)
    then show ?thesis by simp
  next
    case (V6 w scope)
    with ok sl show ?thesis
      by (simp add: ip_address_def split_scope_str del: str_of_ip.simps)
  qed
qed

end
