(* ===== verification/AuditContext.thy ===== *)
theory AuditContext
  imports IpText Errors
begin

text \<open>
  The request-derived context of \<open>apps/audit/context.py\<close>, and the masking of an address,
  \<open>mask_ip\<close> of \<open>apps/audit/services.py\<close>. A request is the peer address in \<open>META\<close> and the four
  headers the program reads. The settings' \<open>TRUSTED_PROXY_CIDRS\<close> are the list \<open>cidrs\<close>; one that
  does not parse raises when it is reached.
\<close>

record http_request =
  remote_addr :: "string option"
  h_forwarded_for :: "string option"
  h_user_agent :: "string option"
  h_request_id :: "string option"
  h_authorization :: "string option"

record audit_context =
  ctx_actor_id :: "int option"
  ctx_actor_email :: "string option"
  ctx_ip :: "string option"
  ctx_user_agent :: "string option"
  ctx_request_id :: "string option"

subsection \<open>The client's address\<close>

primrec is_trusted_proxy :: "string list \<Rightarrow> ip \<Rightarrow> exn + bool" where
  "is_trusted_proxy [] a = Inr False"
| "is_trusted_proxy (cidr # cidrs) a =
     (case ip_network cidr of
        None \<Rightarrow> Inl (ValueError cidr)
      | Some net \<Rightarrow> if in_network a net then Inr True else is_trusted_proxy cidrs a)"

text \<open>The loop over the forwarded addresses, the last one first.\<close>

primrec first_untrusted :: "string list \<Rightarrow> ip \<Rightarrow> string list \<Rightarrow> exn + string" where
  "first_untrusted cidrs remote_ip [] = Inr (str_of_ip remote_ip)"
| "first_untrusted cidrs remote_ip (candidate # rest) =
     (case ip_address candidate of
        None \<Rightarrow> first_untrusted cidrs remote_ip rest
      | Some candidate_ip \<Rightarrow>
          bind_sum (is_trusted_proxy cidrs candidate_ip) (\<lambda>trusted.
            if \<not> trusted then Inr (str_of_ip candidate_ip)
            else first_untrusted cidrs remote_ip rest))"

definition client_ip :: "string list \<Rightarrow> http_request \<Rightarrow> exn + string option" where
  "client_ip cidrs request =
     (case remote_addr request of
        None \<Rightarrow> Inr None
      | Some remote \<Rightarrow>
          if remote = [] then Inr None
          else case ip_address remote of
            None \<Rightarrow> Inr (Some remote)
          | Some remote_ip \<Rightarrow>
              bind_sum (is_trusted_proxy cidrs remote_ip) (\<lambda>trusted.
                if \<not> trusted then Inr (Some (str_of_ip remote_ip))
                else case h_forwarded_for request of
                  None \<Rightarrow> Inr (Some (str_of_ip remote_ip))
                | Some forwarded_for \<Rightarrow>
                    if forwarded_for = [] then Inr (Some (str_of_ip remote_ip))
                    else bind_sum (first_untrusted cidrs remote_ip
                      (rev (map strip (split_on (CHR '','') forwarded_for)))) (\<lambda>a. Inr (Some a))))"

text \<open>\<open>value or None\<close>: an empty header counts as absent.\<close>

definition nonempty :: "string option \<Rightarrow> string option" where
  "nonempty v = (case v of Some [] \<Rightarrow> None | _ \<Rightarrow> v)"

text \<open>A principal has a user id and no e-mail attribute.\<close>

definition from_request :: "string list \<Rightarrow> http_request \<Rightarrow> int option \<Rightarrow> exn + audit_context" where
  "from_request cidrs request actor =
     bind_sum (client_ip cidrs request) (\<lambda>addr.
       Inr \<lparr>ctx_actor_id = actor, ctx_actor_email = None, ctx_ip = addr,
            ctx_user_agent = nonempty (h_user_agent request),
            ctx_request_id = nonempty (h_request_id request)\<rparr>)"

subsection \<open>Masking\<close>

definition mask_ip :: "string option \<Rightarrow> string option" where
  "mask_ip value =
     (case value of
        None \<Rightarrow> None
      | Some v \<Rightarrow>
          (case ip_address v of
             None \<Rightarrow> None
           | Some parsed \<Rightarrow>
               (let prefix_length = (case parsed of V4 _ \<Rightarrow> 24 | V6 _ _ \<Rightarrow> 64)
                in map_option str_of_net
                     (ip_network (str_of_ip parsed @ CHR ''/'' # str_of_nat prefix_length)))))"

subsection \<open>Which addresses count\<close>

definition proxies :: "string list \<Rightarrow> ip \<Rightarrow> bool" where
  "proxies cidrs a \<longleftrightarrow> (\<exists>cidr \<in> set cidrs.
     case ip_network cidr of Some net \<Rightarrow> in_network a net | None \<Rightarrow> False)"

definition cidrs_ok :: "string list \<Rightarrow> bool" where
  "cidrs_ok cidrs \<longleftrightarrow> (\<forall>cidr \<in> set cidrs. ip_network cidr \<noteq> None)"

lemma is_trusted_proxy_ok [simp]:
  "cidrs_ok cidrs \<Longrightarrow> is_trusted_proxy cidrs a = Inr (proxies cidrs a)"
  by (induction cidrs) (auto simp: cidrs_ok_def proxies_def split: option.splits)

text \<open>The addresses of a forwarding header, as written from the client to the last proxy.\<close>

definition forwarded_ips :: "string \<Rightarrow> ip list" where
  "forwarded_ips h = List.map_filter (\<lambda>s. ip_address (strip s)) (split_on (CHR '','') h)"

lemma map_filter_Nil [simp]: "List.map_filter f [] = []"
  and map_filter_Cons [simp]: "List.map_filter f (x # xs) =
    (case f x of None \<Rightarrow> List.map_filter f xs | Some y \<Rightarrow> y # List.map_filter f xs)"
  by (simp_all add: List.map_filter_simps)

lemma map_filter_append: "List.map_filter f (xs @ ys) = List.map_filter f xs @ List.map_filter f ys"
  by (induction xs) (auto split: option.splits)

lemma map_filter_rev: "List.map_filter f (rev xs) = rev (List.map_filter f xs)"
  by (induction xs) (auto simp: map_filter_append split: option.splits)

lemma first_untrusted_find:
  assumes "cidrs_ok cidrs"
  shows "first_untrusted cidrs r cs = Inr (str_of_ip
    (case List.find (\<lambda>a. \<not> proxies cidrs a) (List.map_filter ip_address cs) of
       Some a \<Rightarrow> a | None \<Rightarrow> r))"
  using assms by (induction cs) (auto split: option.splits)

lemma map_filter_map: "List.map_filter f (map g xs) = List.map_filter (\<lambda>x. f (g x)) xs"
  by (induction xs) (auto split: option.splits)

lemma ip_address_Nil [simp]: "ip_address [] = None"
  by (simp add: ip_address_def v4_of_string_def split_scope_id_def v6_of_string_def)

lemma client_ip_direct:
  assumes "cidrs_ok cidrs" "remote_addr rq = Some r" "ip_address r = Some a" "\<not> proxies cidrs a"
  shows "client_ip cidrs rq = Inr (Some (str_of_ip a))"
  using assms ip_address_Nil by (cases r) (simp_all add: client_ip_def)


subsection \<open>The masked address\<close>

lemma mask_ip_v4:
  assumes "ip_address v = Some (V4 w)"
  shows "mask_ip (Some v) = Some (str_of_net (Net4 (w AND netmask 24) 24))"
proof -
  have "CHR ''/'' \<notin> set (string_of_v4 w)" by (rule slash_not_in_v4) (simp_all add: is_digit_def)
  then have "ip_network (string_of_v4 w @ CHR ''/'' # str_of_nat 24) =
      Some (Net4 (w AND netmask 24) 24)"
    by (rule ip_network_prefixed) simp_all
  then show ?thesis
    by (simp only: mask_ip_def assms option.case ip.case str_of_ip.simps Let_def option.map)
qed

lemma mask_ip_v6:
  assumes "ip_address v = Some (V6 w scope)"
  shows "mask_ip (Some v) = Some (str_of_net
    (if w AND netmask 64 = w then Net6 w scope 64 else Net6 (w AND netmask 64) None 64))"
proof -
  let ?a = "str_of_ip (V6 w scope)"
  have ok: "ip_ok (V6 w scope)" by (rule ip_address_ok [OF assms])
  have "split_on (CHR ''/'') (?a @ CHR ''/'' # str_of_nat 64) = [?a, str_of_nat 64]"
    using slash_not_in_ip [OF ok] str_of_nat_no_sep [of "CHR ''/''" 64]
    by (simp add: split_on_append split_on_no_sep is_digit_def del: str_of_ip.simps)
  moreover have "v4_network ?a m = None" for m
    by (simp add: v4_network_def del: str_of_ip.simps)
  moreover have "split_scope_id ?a = Some (string_of_v6 w, scope)"
    using ok by (intro split_scope_str) simp
  moreover have "prefix_from_string 128 (str_of_nat 64) = Some 64"
    by (rule prefix_from_string_str) simp_all
  ultimately have "ip_network (?a @ CHR ''/'' # str_of_nat 64) =
      Some (if w AND netmask 64 = w then Net6 w scope 64 else Net6 (w AND netmask 64) None 64)"
    by (simp add: ip_network_def v6_network_def del: str_of_ip.simps)
  then show ?thesis
    by (simp only: mask_ip_def assms option.case ip.case Let_def option.map)
qed

subsection \<open>Properties\<close>

definition peer :: "string \<Rightarrow> string option \<Rightarrow> http_request" where
  "peer remote forwarded = \<lparr>remote_addr = Some remote, h_forwarded_for = forwarded,
     h_user_agent = None, h_request_id = None, h_authorization = None\<rparr>"

text \<open>
  C26. The client address, exactly: for a peer that is a trusted proxy it is the last forwarded
  address that parses and is not a trusted proxy itself, and the peer's own address when there is
  none; for any other peer it is the peer's address, whatever the forwarding header says.
\<close>

theorem client_ip_spec:
  assumes "cidrs_ok cidrs" "remote_addr rq = Some r" "ip_address r = Some a"
  shows "client_ip cidrs rq = Inr (Some (str_of_ip
    (if proxies cidrs a
     then (case List.find (\<lambda>x. \<not> proxies cidrs x)
             (rev (case h_forwarded_for rq of Some h \<Rightarrow> forwarded_ips h | None \<Rightarrow> [])) of
             Some x \<Rightarrow> x | None \<Rightarrow> a)
     else a)))"
proof (cases "proxies cidrs a")
  case False
  then show ?thesis using client_ip_direct [OF assms] by simp
next
  case True
  have r: "r \<noteq> []" using assms(3) by auto
  have f: "List.map_filter ip_address (rev (map strip (split_on (CHR '','') h))) = rev (forwarded_ips h)"
    for h by (simp add: map_filter_rev map_filter_map forwarded_ips_def)
  have e: "forwarded_ips [] = []" by (simp add: forwarded_ips_def strip_def lstrip_def)
  show ?thesis
    using True r assms(2,3)
    by (cases "h_forwarded_for rq")
      (auto simp: client_ip_def assms(1) first_untrusted_find f e)
qed

theorem client_ip_spec_witness:
  "client_ip [''10.0.0.0/8''] (peer ''10.0.0.9'' (Some ''6.6.6.6, 1.2.3.4 ,10.1.1.1'')) =
    Inr (Some ''1.2.3.4'')"
proof -
  let ?rq = "peer ''10.0.0.9'' (Some ''6.6.6.6, 1.2.3.4 ,10.1.1.1'')"
  have ok: "cidrs_ok [''10.0.0.0/8'']" "ip_address ''10.0.0.9'' = Some (V4 167772169)"
    "remote_addr ?rq = Some ''10.0.0.9''" by code_simp+
  have "str_of_ip (if proxies [''10.0.0.0/8''] (V4 167772169)
      then (case List.find (\<lambda>x. \<not> proxies [''10.0.0.0/8''] x)
             (rev (case h_forwarded_for ?rq of Some h \<Rightarrow> forwarded_ips h | None \<Rightarrow> [])) of
             Some x \<Rightarrow> x | None \<Rightarrow> V4 167772169)
      else V4 167772169) = ''1.2.3.4''" by code_simp
  then show ?thesis using client_ip_spec [OF ok(1,3,2)] by simp
qed

text \<open>
  A forged header does not hide the client: whatever a client puts in front of the part of
  the forwarding header that the trusted proxies wrote, the recorded address is the one that part
  alone gives, as soon as that part has an address outside the trusted networks.
\<close>

theorem forwarded_prefix_ignored:
  assumes "cidrs_ok cidrs" "ip_address r = Some a"
    and "x \<in> set (forwarded_ips written)" "\<not> proxies cidrs x"
  shows "client_ip cidrs (peer r (Some (forged @ CHR '','' # written))) =
    client_ip cidrs (peer r (Some written))"
proof -
  have app: "forwarded_ips (forged @ CHR '','' # written) = forwarded_ips forged @ forwarded_ips written"
    by (simp add: forwarded_ips_def split_on_append map_filter_append)
  have "List.find P (xs @ ys) = List.find P xs" if "x \<in> set xs" "P x" for P xs ys
    using that by (induction xs) auto
  with assms(3,4) show ?thesis
    by (simp add: client_ip_spec [OF assms(1) _ assms(2)] peer_def app)
qed

theorem forwarded_prefix_ignored_witness:
  "client_ip [''10.0.0.0/8''] (peer ''10.0.0.9'' (Some (''127.0.0.1'' @ CHR '','' # ''1.2.3.4''))) =
   client_ip [''10.0.0.0/8''] (peer ''10.0.0.9'' (Some ''1.2.3.4''))"
proof -
  have "cidrs_ok [''10.0.0.0/8'']" "ip_address ''10.0.0.9'' = Some (V4 167772169)"
    "V4 16909060 \<in> set (forwarded_ips ''1.2.3.4'')"
    "\<not> proxies [''10.0.0.0/8''] (V4 16909060)" by code_simp+
  then show ?thesis by (rule forwarded_prefix_ignored)
qed

text \<open>
  C40. The recorded address is a valid one in canonical form: when the peer address is an IP
  address, the address the context records parses, and printing what it parses to gives the
  recorded text again.
\<close>

theorem client_ip_canonical:
  assumes "cidrs_ok cidrs" "remote_addr rq = Some r" "ip_address r \<noteq> None"
    and "client_ip cidrs rq = Inr (Some t)"
  shows "\<exists>a. ip_address t = Some a \<and> str_of_ip a = t"
proof -
  obtain a where a: "ip_address r = Some a" using assms(3) by blast
  have fw: "ip_ok x" if "x \<in> set (forwarded_ips h)" for x h
    using that ip_address_ok unfolding forwarded_ips_def
    by (auto simp: List.map_filter_def)
  have found: "ip_ok x" if "List.find P xs = Some x" "\<forall>y \<in> set xs. ip_ok y" for P xs x
    using that by (induction xs) (auto split: if_splits)
  obtain x where x: "t = str_of_ip x" "ip_ok x"
  proof (cases "proxies cidrs a")
    case False
    with client_ip_spec [OF assms(1,2) a] assms(4) ip_address_ok [OF a] that show ?thesis by simp
  next
    case True
    let ?f = "List.find (\<lambda>x. \<not> proxies cidrs x)
      (rev (case h_forwarded_for rq of Some h \<Rightarrow> forwarded_ips h | None \<Rightarrow> []))"
    have t: "t = str_of_ip (case ?f of Some x \<Rightarrow> x | None \<Rightarrow> a)"
      using client_ip_spec [OF assms(1,2) a] assms(4) True by simp
    have "ip_ok (case ?f of Some x \<Rightarrow> x | None \<Rightarrow> a)"
    proof (cases ?f)
      case None
      then show ?thesis using ip_address_ok [OF a] by simp
    next
      case (Some y)
      have "ip_ok y" by (rule found [OF Some]) (auto split: option.splits dest: fw)
      with Some show ?thesis by simp
    qed
    with t that show ?thesis by blast
  qed
  then show ?thesis using ip_address_str_of_ip by blast
qed

theorem client_ip_canonical_witness:
  "\<exists>a. ip_address ''1.2.3.4'' = Some a \<and> str_of_ip a = ''1.2.3.4''"
proof -
  have "cidrs_ok [''10.0.0.0/8'']" "remote_addr (peer ''1.2.3.4'' None) = Some ''1.2.3.4''"
    "ip_address ''1.2.3.4'' \<noteq> None"
    "client_ip [''10.0.0.0/8''] (peer ''1.2.3.4'' None) = Inr (Some ''1.2.3.4'')" by code_simp+
  then show ?thesis by (rule client_ip_canonical)
qed

text \<open>
  Masking: an IPv4 address is recorded as its /24 network and an IPv6 address as its /64
  network (the zone stays only when the address is the network address itself), and text that is
  no address is not recorded at all.
\<close>

theorem mask_ip_spec:
  "mask_ip v = (case v of None \<Rightarrow> None | Some t \<Rightarrow>
     (case ip_address t of
        None \<Rightarrow> None
      | Some (V4 w) \<Rightarrow> Some (string_of_v4 (w AND netmask 24) @ ''/24'')
      | Some (V6 w zone) \<Rightarrow> Some (str_of_ip (V6 (w AND netmask 64)
          (if w AND netmask 64 = w then zone else None)) @ ''/64'')))"
proof (cases v)
  case None
  then show ?thesis by (simp add: mask_ip_def)
next
  case (Some t)
  have n: "str_of_nat 24 = ''24''" "str_of_nat 64 = ''64''" by code_simp+
  show ?thesis
  proof (cases "ip_address t")
    case None
    then show ?thesis using Some by (simp add: mask_ip_def)
  next
    case (Some a)
    show ?thesis
    proof (cases a)
      case (V4 w)
      with Some \<open>v = Some t\<close> show ?thesis by (simp add: mask_ip_v4 n)
    next
      case (V6 w zone)
      with Some \<open>v = Some t\<close> show ?thesis by (simp add: mask_ip_v6 n)
    qed
  qed
qed

end
