(* ===== verification/Sanitize.thy ===== *)
theory Sanitize
  imports Db
begin

text \<open>
  Redaction of audit metadata in \<open>apps/audit/services.py\<close>: \<open>sanitize_metadata\<close>,
  \<open>_sanitize_value\<close>, \<open>_is_sensitive_metadata_key\<close> and \<open>_truncate_user_agent\<close>. A mapping is the
  list of its entries in insertion order.

  The two regular expressions are written out: \<open>re.sub\<close> puts an underscore between a lower-case
  and an upper-case letter, and the search looks for one of five words at the beginning or after
  a separator that is followed by a separator or the end, where \<open>$\<close> also matches before a final
  newline.
\<close>

definition is_lower_ascii :: "char \<Rightarrow> bool" where
  "is_lower_ascii c \<longleftrightarrow> 97 \<le> py_ord c \<and> py_ord c \<le> 122"

definition is_upper_ascii :: "char \<Rightarrow> bool" where
  "is_upper_ascii c \<longleftrightarrow> 65 \<le> py_ord c \<and> py_ord c \<le> 90"

fun camel_split :: "string \<Rightarrow> string" where
  "camel_split (a # b # s) =
     (if is_lower_ascii a \<and> is_upper_ascii b then a # CHR ''_'' # b # camel_split s
      else a # camel_split (b # s))"
| "camel_split s = s"

definition SENSITIVE_WORDS :: "string list" where
  "SENSITIVE_WORDS = [''password'', ''token'', ''secret'', ''authorization'', ''credential'']"

definition is_sep :: "char \<Rightarrow> bool" where
  "is_sep c \<longleftrightarrow> c = CHR ''_'' \<or> c = CHR ''-''"

definition ends_word :: "string \<Rightarrow> bool" where
  "ends_word s \<longleftrightarrow> s = [] \<or> s = [CHR 0x0A] \<or> is_sep (hd s)"

definition word_at :: "string \<Rightarrow> bool" where
  "word_at s \<longleftrightarrow> (\<exists>w \<in> set SENSITIVE_WORDS.
     take (length w) (lower s) = w \<and> ends_word (drop (length w) s))"

primrec search_word :: "bool \<Rightarrow> string \<Rightarrow> bool" where
  "search_word boundary [] = (boundary \<and> word_at [])"
| "search_word boundary (c # s) = (boundary \<and> word_at (c # s) \<or> search_word (is_sep c) s)"

definition is_sensitive_metadata_key :: "string \<Rightarrow> bool" where
  "is_sensitive_metadata_key key = search_word True (camel_split key)"

fun sanitize_value :: "pyval \<Rightarrow> pyval" where
  "sanitize_value (PDict kvs) = PDict
     (map (\<lambda>(k, v). (k, sanitize_value v)) (filter (\<lambda>(k, v). \<not> is_sensitive_metadata_key k) kvs))"
| "sanitize_value (PList vs) = PList (map sanitize_value vs)"
| "sanitize_value (PTuple vs) = PList (map sanitize_value vs)"
| "sanitize_value v = v"

definition sanitize_metadata :: "(string \<times> pyval) list option \<Rightarrow> (string \<times> pyval) list" where
  "sanitize_metadata metadata =
     (case metadata of
        None \<Rightarrow> []
      | Some kvs \<Rightarrow> map (\<lambda>(k, v). (k, sanitize_value v))
          (filter (\<lambda>(k, v). \<not> is_sensitive_metadata_key k) kvs))"

definition truncate_user_agent :: "string option \<Rightarrow> string option" where
  "truncate_user_agent user_agent =
     (case user_agent of None \<Rightarrow> None | Some ua \<Rightarrow> if ua = [] then None else Some (take 512 ua))"

subsection \<open>Sensitive keys by their words\<close>

text \<open>The words of a key: its parts between separators.\<close>

fun words_of :: "string \<Rightarrow> string list" where
  "words_of [] = [[]]"
| "words_of (c # s) = (if is_sep c then [] # words_of s
     else case words_of s of w # ws \<Rightarrow> (c # w) # ws | [] \<Rightarrow> [[c]])"

lemma words_of_not_Nil [simp]: "words_of s \<noteq> []"
  by (induction s) (auto split: list.splits)

lemma words_of_Cons: "\<not> is_sep c \<Longrightarrow> words_of (c # s) = (c # hd (words_of s)) # tl (words_of s)"
  by (cases "words_of s") auto

lemma hd_words_of: "hd (words_of s) = takeWhile (\<lambda>c. \<not> is_sep c) s"
  by (induction s) (auto split: list.splits)

lemma is_sep_lower [simp]: "is_sep (lower_char c) = is_sep c"
proof -
  have "is_sep d \<longleftrightarrow> py_ord d = 95 \<or> py_ord d = 45" for d
    using of_char_eq_iff [of d "CHR ''_''", where 'a = nat]
      of_char_eq_iff [of d "CHR ''-''", where 'a = nat]
    by (auto simp: is_sep_def)
  then show ?thesis by (auto simp: lower_char_def is_upper_char_def Let_def)
qed

lemma sensitive_words_no_sep: "w \<in> set SENSITIVE_WORDS \<Longrightarrow> c \<in> set w \<Longrightarrow> \<not> is_sep c"
  by (auto simp: SENSITIVE_WORDS_def is_sep_def)

lemma lower_takeWhile: "lower (takeWhile (\<lambda>c. \<not> is_sep c) s) = takeWhile (\<lambda>c. \<not> is_sep c) (lower s)"
  by (induction s) (simp_all add: lower_def)

lemma word_at_hd:
  assumes "CHR 0x0A \<notin> set s"
  shows "word_at s \<longleftrightarrow> lower (hd (words_of s)) \<in> set SENSITIVE_WORDS"
proof
  assume "word_at s"
  then obtain w where w: "w \<in> set SENSITIVE_WORDS" "take (length w) (lower s) = w"
    "ends_word (drop (length w) s)" by (auto simp: word_at_def)
  have s: "lower s = w @ drop (length w) (lower s)"
    using append_take_drop_id [of "length w" "lower s"] w(2) by simp
  have "drop (length w) (lower s) = [] \<or> is_sep (hd (drop (length w) (lower s)))"
  proof (cases "drop (length w) s")
    case Nil
    then show ?thesis by (simp add: lower_def drop_map)
  next
    case (Cons c r)
    moreover from this assms have "c \<noteq> CHR 0x0A"
      by (metis in_set_dropD list.set_intros(1))
    ultimately have "is_sep c" using w(3) by (simp add: ends_word_def)
    with Cons show ?thesis by (simp add: lower_def drop_map)
  qed
  then have "takeWhile (\<lambda>c. \<not> is_sep c) (w @ drop (length w) (lower s)) = w"
    using sensitive_words_no_sep [OF w(1)]
    by (cases "drop (length w) (lower s)") (simp_all add: takeWhile_append)
  then have "lower (hd (words_of s)) = w" by (metis s hd_words_of lower_takeWhile)
  with w(1) show "lower (hd (words_of s)) \<in> set SENSITIVE_WORDS" by simp
next
  let ?w = "takeWhile (\<lambda>c. \<not> is_sep c) s"
  assume "lower (hd (words_of s)) \<in> set SENSITIVE_WORDS"
  then have "lower ?w \<in> set SENSITIVE_WORDS" by (simp add: hd_words_of)
  moreover have "take (length (lower ?w)) (lower s) = lower ?w"
    by (simp add: lower_def take_map) (simp add: takeWhile_eq_take [symmetric])
  moreover have "drop (length (lower ?w)) s = dropWhile (\<lambda>c. \<not> is_sep c) s"
    by (simp add: dropWhile_eq_drop)
  then have "ends_word (drop (length (lower ?w)) s)"
    using hd_dropWhile [of "\<lambda>c. \<not> is_sep c" s] by (auto simp: ends_word_def)
  ultimately show "word_at s" unfolding word_at_def by blast
qed

lemma search_word_words:
  "CHR 0x0A \<notin> set s \<Longrightarrow> search_word b s \<longleftrightarrow>
    (\<exists>w \<in> set (if b then words_of s else tl (words_of s)). lower w \<in> set SENSITIVE_WORDS)"
proof (induction s arbitrary: b)
  case Nil
  then show ?case by (simp add: word_at_def SENSITIVE_WORDS_def)
next
  case (Cons c s)
  have nil: "[] \<notin> set SENSITIVE_WORDS" by (simp add: SENSITIVE_WORDS_def)
  have IH: "search_word b s \<longleftrightarrow>
      (\<exists>w \<in> set (if b then words_of s else tl (words_of s)). lower w \<in> set SENSITIVE_WORDS)" for b
    using Cons by simp
  show ?case
  proof (cases "is_sep c")
    case True
    then show ?thesis using word_at_hd [OF Cons.prems] IH [of True] nil by simp
  next
    case False
    then show ?thesis
      using word_at_hd [OF Cons.prems] IH [of False] by (simp add: words_of_Cons del: words_of.simps)
  qed
qed

lemma camel_split_newline: "CHR 0x0A \<in> set (camel_split s) \<longleftrightarrow> CHR 0x0A \<in> set s"
  by (induction s rule: camel_split.induct) auto

subsection \<open>Clean metadata\<close>

text \<open>No mapping at any depth has a sensitive key, and there are no tuples.\<close>

fun clean :: "pyval \<Rightarrow> bool" where
  "clean (PDict kvs) \<longleftrightarrow> (\<forall>(k, v) \<in> set kvs. \<not> is_sensitive_metadata_key k \<and> clean v)"
| "clean (PList vs) \<longleftrightarrow> (\<forall>v \<in> set vs. clean v)"
| "clean (PTuple vs) \<longleftrightarrow> False"
| "clean v \<longleftrightarrow> True"

lemma clean_sanitize: "clean (sanitize_value v)"
  by (induction v rule: sanitize_value.induct) auto

lemma sanitize_clean: "clean v \<Longrightarrow> sanitize_value v = v"
proof (induction v rule: sanitize_value.induct)
  case (1 kvs)
  then have "filter (\<lambda>(k, v). \<not> is_sensitive_metadata_key k) kvs = kvs"
    "map (\<lambda>(k, v). (k, sanitize_value v)) kvs = kvs"
    by (auto simp: filter_id_conv intro!: map_idI)
  then show ?case by simp
next
  case (2 vs)
  then show ?case by (auto intro!: map_idI)
qed auto

lemma sanitize_metadata_value: "PDict (sanitize_metadata (Some kvs)) = sanitize_value (PDict kvs)"
  by (simp add: sanitize_metadata_def)

lemma map_of_sanitize:
  "map_of (sanitize_metadata (Some kvs)) k =
    (if is_sensitive_metadata_key k then None else map_option sanitize_value (map_of kvs k))"
  by (induction kvs) (auto simp: sanitize_metadata_def)

subsection \<open>Sensitive keys by their parts\<close>

text \<open>
  What the two expressions are for, said of the key itself: a hump is a lower-case letter followed by
  an upper-case one, and a word of a key is a part of it without a hump inside, between humps,
  separators and the ends of the key.
\<close>

definition hump :: "char \<Rightarrow> char \<Rightarrow> bool" where
  "hump a b \<longleftrightarrow> a \<in> set ''abcdefghijklmnopqrstuvwxyz'' \<and> b \<in> set ''ABCDEFGHIJKLMNOPQRSTUVWXYZ''"

definition starts_at :: "string \<Rightarrow> string \<Rightarrow> bool" where
  "starts_at pre m \<longleftrightarrow>
     pre = [] \<or> last pre \<in> {CHR ''_'', CHR ''-''} \<or> m \<noteq> [] \<and> hump (last pre) (hd m)"

definition stops_at :: "string \<Rightarrow> string \<Rightarrow> bool" where
  "stops_at m post \<longleftrightarrow>
     post = [] \<or> hd post \<in> {CHR ''_'', CHR ''-''} \<or> m \<noteq> [] \<and> hump (last m) (hd post)"

definition humpless :: "string \<Rightarrow> bool" where
  "humpless m \<longleftrightarrow> (\<forall>xs a b ys. m = xs @ a # b # ys \<longrightarrow> \<not> hump a b)"

lemma letters: "{c. is_lower_ascii c} = set ''abcdefghijklmnopqrstuvwxyz''"
  "{c. is_upper_ascii c} = set ''ABCDEFGHIJKLMNOPQRSTUVWXYZ''"
  by code_simp+

lemma hump_iff: "hump a b \<longleftrightarrow> is_lower_ascii a \<and> is_upper_ascii b"
  unfolding hump_def letters [symmetric] by simp

lemma humpless_simps [simp]:
  "humpless []" "humpless [a]" "humpless (a # b # s) \<longleftrightarrow> \<not> hump a b \<and> humpless (b # s)"
proof -
  show "humpless (a # b # s) \<longleftrightarrow> \<not> hump a b \<and> humpless (b # s)"
  proof
    assume h: "humpless (a # b # s)"
    then show "\<not> hump a b \<and> humpless (b # s)"
      unfolding humpless_def by (metis append_Cons append_Nil)
  next
    assume h: "\<not> hump a b \<and> humpless (b # s)"
    show "humpless (a # b # s)"
      unfolding humpless_def
    proof (intro allI impI)
      fix xs c d ys assume e: "a # b # s = xs @ c # d # ys"
      show "\<not> hump c d"
      proof (cases xs)
        case Nil
        with e h show ?thesis by simp
      next
        case (Cons x xs')
        with e have "b # s = xs' @ c # d # ys" by simp
        with h show ?thesis unfolding humpless_def by blast
      qed
    qed
  qed
qed (auto simp: humpless_def Cons_eq_append_conv)

lemma camel_split_single: "camel_split [a] = [a]"
  by simp

lemma camel_split_step:
  "camel_split (a # b # s) = a # (if hump a b then CHR ''_'' # camel_split (b # s) else camel_split (b # s))"
proof (cases "hump a b")
  case True
  then have "\<not> is_lower_ascii b" by (simp add: hump_iff is_lower_ascii_def is_upper_ascii_def)
  then have "camel_split (b # s) = b # camel_split s" by (cases s) simp_all
  with True show ?thesis by (simp add: hump_iff)
next
  case False
  then show ?thesis unfolding hump_iff by (simp only: camel_split.simps(1) if_False)
qed

lemma camel_words:
  "words_of (camel_split (a # b # s)) =
     (if is_sep a then [] # words_of (camel_split (b # s))
      else if hump a b then [a] # words_of (camel_split (b # s))
      else (a # hd (words_of (camel_split (b # s)))) # tl (words_of (camel_split (b # s))))"
proof -
  have "is_sep (CHR ''_'')" by (simp add: is_sep_def)
  moreover have "words_of (a # x) = [] # words_of x" if "is_sep a" for a x using that by simp
  moreover have "\<not> is_sep a" if "hump a b" using that by (auto simp: hump_def is_sep_def)
  ultimately show ?thesis
    by (simp add: camel_split_step words_of_Cons del: words_of.simps(2) camel_split.simps)
qed

definition begins_word :: "string \<Rightarrow> string \<Rightarrow> bool" where
  "begins_word m s \<longleftrightarrow> m \<noteq> [] \<and> humpless m \<and> (\<forall>c \<in> set m. \<not> is_sep c) \<and>
     (\<exists>post. s = m @ post \<and> stops_at m post)"

lemma begins_word_Cons:
  "begins_word (c # m) (a # b # s) \<longleftrightarrow> c = a \<and> \<not> is_sep a \<and>
     (if m = [] then is_sep b \<or> hump a b else \<not> hump a b \<and> begins_word m (b # s))"
proof (cases m)
  case Nil
  then show ?thesis by (auto simp: begins_word_def stops_at_def is_sep_def)
next
  case (Cons d n)
  then show ?thesis by (auto simp: begins_word_def stops_at_def)
qed

lemma first_word:
  assumes "m \<noteq> []"
  shows "hd (words_of (camel_split s)) = m \<longleftrightarrow> begins_word m s"
  using assms
proof (induction s arbitrary: m)
  case Nil
  then show ?case by (simp add: begins_word_def)
next
  case (Cons a t)
  note [simp del] = camel_split.simps
  obtain c n where m: "m = c # n" using Cons.prems by (cases m) auto
  show ?case
  proof (cases t)
    case Nil
    then show ?thesis
      by (auto simp: m camel_split_single begins_word_def stops_at_def append_eq_Cons_conv Cons_eq_append_conv)
  next
    case (Cons b s)
    have empty: "hd (words_of (camel_split (b # s))) = [] \<longleftrightarrow> is_sep b"
      by (cases s) (auto simp: camel_words camel_split_single)
    have "hd (words_of (camel_split (b # s))) = n \<longleftrightarrow> begins_word n (b # s)" if "n \<noteq> []"
      using Cons.IH [OF that] Cons by simp
    with empty show ?thesis
      unfolding m Cons begins_word_Cons camel_words by auto
  qed
qed

definition later :: "string \<Rightarrow> string \<Rightarrow> bool" where
  "later m s \<longleftrightarrow> (\<exists>pre t. s = pre @ t \<and> pre \<noteq> [] \<and> (is_sep (last pre) \<or> hump (last pre) (hd m)) \<and>
     begins_word m t)"

lemma later_Cons:
  "later m (a # t) \<longleftrightarrow> (is_sep a \<or> hump a (hd m)) \<and> begins_word m t \<or> later m t"
proof
  assume "later m (a # t)"
  then obtain pre u where p: "a # t = pre @ u" "pre \<noteq> []"
    "is_sep (last pre) \<or> hump (last pre) (hd m)" "begins_word m u" unfolding later_def by blast
  then obtain pre' where pre: "pre = a # pre'" "t = pre' @ u" by (auto simp: Cons_eq_append_conv)
  show "(is_sep a \<or> hump a (hd m)) \<and> begins_word m t \<or> later m t"
    using p pre unfolding later_def by (cases "pre' = []") auto
next
  assume "(is_sep a \<or> hump a (hd m)) \<and> begins_word m t \<or> later m t"
  then show "later m (a # t)"
  proof
    assume h: "(is_sep a \<or> hump a (hd m)) \<and> begins_word m t"
    show ?thesis unfolding later_def by (rule exI [of _ "[a]"], rule exI [of _ t]) (use h in simp)
  next
    assume "later m t"
    then obtain pre u where "t = pre @ u" "pre \<noteq> []"
      "is_sep (last pre) \<or> hump (last pre) (hd m)" "begins_word m u" unfolding later_def by blast
    then show ?thesis unfolding later_def by (intro exI [of _ "a # pre"] exI [of _ u]) simp
  qed
qed

lemma words_of_hd_tl: "set (words_of s) = insert (hd (words_of s)) (set (tl (words_of s)))"
  by (metis list.collapse list.simps(15) words_of_not_Nil)

lemma later_word:
  assumes "m \<noteq> []"
  shows "m \<in> set (tl (words_of (camel_split s))) \<longleftrightarrow> later m s"
proof (induction s)
  case Nil
  then show ?case by (simp add: later_def)
next
  case (Cons a t)
  note [simp del] = camel_split.simps
  show ?case
  proof (cases t)
    case Nil
    then show ?thesis using assms
      by (auto simp: later_Cons camel_split_single begins_word_def) (auto simp: later_def)
  next
    case (Cons b s)
    have all: "m \<in> set (words_of (camel_split t)) \<longleftrightarrow> begins_word m t \<or> later m t"
      using Cons.IH first_word [OF assms, of t] words_of_hd_tl [of "camel_split t"] by auto
    have hd: "hd m = b" if "begins_word m t"
      using that Cons by (cases m) (auto simp: begins_word_def)
    show ?thesis
      using all Cons.IH hd unfolding later_Cons Cons camel_words by auto
  qed
qed

lemma word_parts:
  assumes "m \<noteq> []"
  shows "m \<in> set (words_of (camel_split s)) \<longleftrightarrow>
    (\<exists>pre post. s = pre @ m @ post \<and> humpless m \<and> (\<forall>c \<in> set m. \<not> is_sep c) \<and>
       starts_at pre m \<and> stops_at m post)"
proof -
  have "m \<in> set (words_of (camel_split s)) \<longleftrightarrow> begins_word m s \<or> later m s"
    using first_word [OF assms, of s] later_word [OF assms, of s] words_of_hd_tl [of "camel_split s"]
    by auto
  also have "\<dots> \<longleftrightarrow> (\<exists>pre t. s = pre @ t \<and> starts_at pre m \<and> begins_word m t)" (is "?l \<longleftrightarrow> ?r")
  proof
    assume ?l
    then show ?r
    proof
      assume "begins_word m s"
      then show ?r by (intro exI [of _ "[]"] exI [of _ s]) (simp add: starts_at_def)
    next
      assume "later m s"
      with assms show ?r unfolding later_def starts_at_def is_sep_def by blast
    qed
  next
    assume ?r
    then obtain pre t where h: "s = pre @ t" "starts_at pre m" "begins_word m t" by blast
    show ?l
    proof (cases "pre = []")
      case True
      with h show ?l by simp
    next
      case False
      with h show ?l unfolding later_def starts_at_def is_sep_def by blast
    qed
  qed
  finally show ?thesis using assms unfolding begins_word_def by auto
qed

subsection \<open>Properties\<close>

text \<open>
  C25. Which metadata keys are redacted: a key without line breaks is sensitive if and only if it has
  a part that is \<open>password\<close>, \<open>token\<close>, \<open>secret\<close>, \<open>authorization\<close> or \<open>credential\<close> in some mixture of
  capital and small letters that does not itself go from a small letter to a capital one, and that
  stands between separators (underscore, hyphen), ends of the key and changes from a small letter
  to a capital one. So \<open>refreshToken-id\<close> is redacted; \<open>APIToken\<close> and \<open>passwords\<close> are not.
\<close>

theorem sensitive_key_iff_word:
  assumes "CHR 0x0A \<notin> set key"
  shows "is_sensitive_metadata_key key \<longleftrightarrow>
    (\<exists>pre m post. key = pre @ m @ post \<and>
       lower m \<in> {''password'', ''token'', ''secret'', ''authorization'', ''credential''} \<and>
       humpless m \<and> starts_at pre m \<and> stops_at m post)"
proof -
  have no_sep: "\<not> is_sep c" if "lower m \<in> set SENSITIVE_WORDS" "c \<in> set m" for m c
    using sensitive_words_no_sep [OF that(1), of "lower_char c"] that(2) by (simp add: lower_def)
  have ne: "m \<noteq> []" if "lower m \<in> set SENSITIVE_WORDS" for m
    using that by (auto simp: SENSITIVE_WORDS_def lower_def)
  have "is_sensitive_metadata_key key \<longleftrightarrow>
      (\<exists>w \<in> set (words_of (camel_split key)). lower w \<in> set SENSITIVE_WORDS)"
    using search_word_words [of "camel_split key" True] assms
    by (simp add: is_sensitive_metadata_key_def camel_split_newline)
  also have "\<dots> \<longleftrightarrow> (\<exists>m. lower m \<in> set SENSITIVE_WORDS \<and> (\<exists>pre post. key = pre @ m @ post \<and>
       humpless m \<and> (\<forall>c \<in> set m. \<not> is_sep c) \<and> starts_at pre m \<and> stops_at m post))"
    unfolding Bex_def
  proof (rule iff_exI)
    fix m
    show "m \<in> set (words_of (camel_split key)) \<and> lower m \<in> set SENSITIVE_WORDS \<longleftrightarrow>
        lower m \<in> set SENSITIVE_WORDS \<and> (\<exists>pre post. key = pre @ m @ post \<and>
        humpless m \<and> (\<forall>c \<in> set m. \<not> is_sep c) \<and> starts_at pre m \<and> stops_at m post)"
      by (cases "lower m \<in> set SENSITIVE_WORDS") (simp_all only: word_parts [OF ne] simp_thms)
  qed
  also have "\<dots> \<longleftrightarrow> (\<exists>pre m post. key = pre @ m @ post \<and> lower m \<in> set SENSITIVE_WORDS \<and>
       humpless m \<and> starts_at pre m \<and> stops_at m post)"
  proof -
    have "(\<forall>c \<in> set m. \<not> is_sep c) \<longleftrightarrow> True" if "lower m \<in> set SENSITIVE_WORDS" for m
      using no_sep [OF that] by simp
    then show ?thesis by (simp cong: conj_cong) blast
  qed
  finally show ?thesis by (simp add: SENSITIVE_WORDS_def)
qed

theorem sensitive_key_iff_word_witness:
  "is_sensitive_metadata_key ''refreshToken-id'' \<and>
   \<not> (\<exists>pre m post. ''APIToken'' = pre @ m @ post \<and>
       lower m \<in> {''password'', ''token'', ''secret'', ''authorization'', ''credential''} \<and>
       humpless m \<and> starts_at pre m \<and> stops_at m post)"
proof
  have t: "lower ''Token'' = ''token''" "hump (CHR ''h'') (CHR ''T'')" by code_simp+
  have "''refreshToken-id'' = ''refresh'' @ ''Token'' @ ''-id'' \<and>
      lower ''Token'' \<in> {''password'', ''token'', ''secret'', ''authorization'', ''credential''} \<and>
      humpless ''Token'' \<and> starts_at ''refresh'' ''Token'' \<and> stops_at ''Token'' ''-id''"
    unfolding t(1) by (simp add: starts_at_def stops_at_def t(2)) (simp add: hump_def)
  moreover have "CHR 0x0A \<notin> set ''refreshToken-id''" by simp
  ultimately show "is_sensitive_metadata_key ''refreshToken-id''"
    unfolding sensitive_key_iff_word [OF \<open>CHR 0x0A \<notin> set ''refreshToken-id''\<close>] by blast
  have "\<not> is_sensitive_metadata_key ''APIToken''" by code_simp
  then show "\<not> (\<exists>pre m post. ''APIToken'' = pre @ m @ post \<and>
       lower m \<in> {''password'', ''token'', ''secret'', ''authorization'', ''credential''} \<and>
       humpless m \<and> starts_at pre m \<and> stops_at m post)"
    by (subst (asm) sensitive_key_iff_word) simp_all
qed

text \<open>
  C24. Redaction reaches every depth and removes nothing else: sanitized metadata has no sensitive
  key in any nested mapping, each other key keeps its sanitized value, and metadata without
  sensitive keys (and tuples) is recorded unchanged.
\<close>

theorem sanitize_deep:
  "clean (PDict (sanitize_metadata (Some kvs))) \<and>
   map_of (sanitize_metadata (Some kvs)) k =
     (if is_sensitive_metadata_key k then None else map_option sanitize_value (map_of kvs k)) \<and>
   (clean (PDict kvs) \<longrightarrow> sanitize_metadata (Some kvs) = kvs)"
proof (intro conjI impI)
  show "clean (PDict (sanitize_metadata (Some kvs)))"
    unfolding sanitize_metadata_value by (rule clean_sanitize)
  assume "clean (PDict kvs)"
  then have "PDict (sanitize_metadata (Some kvs)) = PDict kvs"
    unfolding sanitize_metadata_value by (rule sanitize_clean)
  then show "sanitize_metadata (Some kvs) = kvs" by simp
qed (rule map_of_sanitize)

theorem sanitize_deep_witness:
  "sanitize_metadata (Some [(''scope'', PStr ''all''), (''n'', PList [PInt 1])]) =
    [(''scope'', PStr ''all''), (''n'', PList [PInt 1])]"
proof -
  have "clean (PDict [(''scope'', PStr ''all''), (''n'', PList [PInt 1])])" by code_simp
  then show ?thesis using sanitize_deep by blast
qed

text \<open>Words the expression does not see: a plural, and an acronym before the word.\<close>

lemma unredacted_keys:
  "\<not> is_sensitive_metadata_key ''passwords'' \<and> \<not> is_sensitive_metadata_key ''APIToken''"
  by code_simp

end
