(* ===== verification/AuditTrail.thy ===== *)
theory AuditTrail
  imports Blocklist AuditContext Sanitize "HOL-Library.Multiset"
begin

text \<open>
  The audit trail: the actions of \<open>apps/audit/actions.py\<close>, the value object of
  \<open>apps/audit/dtos.py\<close>, the repository of \<open>apps/audit/repositories.py\<close> and the best-effort
  service of \<open>apps/audit/services.py\<close>, which relies on its \<open>AuditWriter\<close> protocol.
\<close>

subsection \<open>Actions\<close>

datatype audit_action =
    LOGIN_SUCCESS | LOGIN_FAILURE | LOGOUT | REGISTER | TOKEN_REFRESHED | TOKEN_REUSE_DETECTED
  | TOKEN_BINDING_MISMATCH | TOKEN_IP_CHANGED | A_USER_CREATE | A_USER_UPDATE | A_USER_DELETE
  | A_ROLE_ASSIGN

fun action_value :: "audit_action \<Rightarrow> string" where
  "action_value LOGIN_SUCCESS = ''login.success''"
| "action_value LOGIN_FAILURE = ''login.failure''"
| "action_value LOGOUT = ''logout''"
| "action_value REGISTER = ''register''"
| "action_value TOKEN_REFRESHED = ''token.refreshed''"
| "action_value TOKEN_REUSE_DETECTED = ''token.reuse_detected''"
| "action_value TOKEN_BINDING_MISMATCH = ''token.binding_mismatch''"
| "action_value TOKEN_IP_CHANGED = ''token.ip_changed''"
| "action_value A_USER_CREATE = ''user.create''"
| "action_value A_USER_UPDATE = ''user.update''"
| "action_value A_USER_DELETE = ''user.delete''"
| "action_value A_ROLE_ASSIGN = ''role.assign''"

lemma action_value_inj: "action_value a = action_value b \<longleftrightarrow> a = b"
  by (cases a; cases b; simp)

subsection \<open>The repository\<close>

record audit_log_dto =
  ad_id :: int
  ad_created_at :: time
  ad_action :: string
  ad_actor_id :: "int option"
  ad_actor_email :: "string option"
  ad_target_type :: "string option"
  ad_target_id :: "string option"
  ad_outcome :: string
  ad_ip :: "string option"
  ad_user_agent :: "string option"
  ad_metadata :: "(string \<times> pyval) list"

definition audit_log_dto_of :: "audit_log_row \<Rightarrow> audit_log_dto" where
  "audit_log_dto_of r = \<lparr>ad_id = a_id r, ad_created_at = a_created_at r, ad_action = a_action r,
     ad_actor_id = a_actor_id r, ad_actor_email = a_actor_email r,
     ad_target_type = a_target_type r, ad_target_id = a_target_id r, ad_outcome = a_outcome r,
     ad_ip = a_ip r, ad_user_agent = a_user_agent r, ad_metadata = a_metadata r\<rparr>"

text \<open>The keyword arguments of \<open>acreate\<close>.\<close>

record audit_entry =
  e_action :: string
  e_actor_id :: "int option"
  e_actor_email :: "string option"
  e_target_type :: "string option"
  e_target_id :: "string option"
  e_outcome :: string
  e_ip :: "string option"
  e_user_agent :: "string option"
  e_metadata :: "(string \<times> pyval) list"

text \<open>Values the JSON column can hold: a date in the metadata raises \<open>TypeError\<close>.\<close>

fun json_ok :: "pyval \<Rightarrow> bool" where
  "json_ok (PDatetime t) \<longleftrightarrow> False"
| "json_ok (PList vs) \<longleftrightarrow> list_all json_ok vs"
| "json_ok (PTuple vs) \<longleftrightarrow> list_all json_ok vs"
| "json_ok (PDict kvs) \<longleftrightarrow> list_all (\<lambda>(k, v). json_ok v) kvs"
| "json_ok v \<longleftrightarrow> True"

definition audit_row :: "time \<Rightarrow> audit_entry \<Rightarrow> int \<Rightarrow> audit_log_row" where
  "audit_row now e i = \<lparr>a_id = i, a_created_at = now, a_action = e_action e,
     a_actor_id = e_actor_id e, a_actor_email = e_actor_email e,
     a_target_type = e_target_type e, a_target_id = e_target_id e, a_outcome = e_outcome e,
     a_ip = e_ip e, a_user_agent = e_user_agent e, a_metadata = e_metadata e\<rparr>"

text \<open>\<open>up\<close> says whether the database answers.\<close>

definition audit_acreate ::
  "bool \<Rightarrow> (string \<Rightarrow> bool) \<Rightarrow> time \<Rightarrow> audit_entry \<Rightarrow> 'z db_scheme \<Rightarrow>
     (exn + audit_log_dto) \<times> 'z db_scheme" where
  "audit_acreate up inet_ok now e s =
     (if \<not> up then (Inl DatabaseUnavailable, s)
      else if \<not> json_ok (PDict (e_metadata e)) then (Inl (TypeError ''metadata''), s)
      else case create_audit_log inet_ok (audit_row now e) s of
        (Inl x, s') \<Rightarrow> (Inl x, s')
      | (Inr r, s') \<Rightarrow> (Inr (audit_log_dto_of r), s'))"

definition audit_aget_by_id :: "int \<Rightarrow> 'z db_scheme \<Rightarrow> audit_log_dto option" where
  "audit_aget_by_id i s = map_option audit_log_dto_of (first (\<lambda>r. a_id r = i) (rows (audit_logs s)))"

definition opt_filter :: "'a option \<Rightarrow> ('r \<Rightarrow> 'a \<Rightarrow> bool) \<Rightarrow> 'r list \<Rightarrow> 'r list" where
  "opt_filter v p rs = (case v of None \<Rightarrow> rs | Some x \<Rightarrow> filter (\<lambda>r. p r x) rs)"

record audit_query =
  q_actor_id :: "int option"
  q_action :: "string option"
  q_outcome :: "string option"
  q_from_at :: "time option"
  q_to_at :: "time option"

definition audit_queryset :: "audit_query \<Rightarrow> audit_log_row list \<Rightarrow> audit_log_row list" where
  "audit_queryset q rs =
     opt_filter (q_to_at q) (\<lambda>r t. a_created_at r \<le> t)
     (opt_filter (q_from_at q) (\<lambda>r t. t \<le> a_created_at r)
     (opt_filter (q_outcome q) (\<lambda>r v. a_outcome r = v)
     (opt_filter (q_action q) (\<lambda>r v. a_action r = v)
     (opt_filter (q_actor_id q) (\<lambda>r v. a_actor_id r = Some v) rs))))"

text \<open>\<open>order_by("-created_at", "-id")\<close>\<close>

definition newest_first :: "audit_log_row list \<Rightarrow> audit_log_row list" where
  "newest_first rs = sort_key (\<lambda>r. - a_created_at r) (sort_key (\<lambda>r. - a_id r) rs)"

text \<open>The two statements of the listing: the count, then the page.\<close>

definition audit_total :: "audit_query \<Rightarrow> 'z db_scheme \<Rightarrow> int" where
  "audit_total q s = int (length (audit_queryset q (rows (audit_logs s))))"

definition audit_page ::
  "int \<Rightarrow> int \<Rightarrow> audit_query \<Rightarrow> 'z db_scheme \<Rightarrow> exn + audit_log_dto list" where
  "audit_page offset limit q s =
     bind_sum (sql_slice offset limit (newest_first (audit_queryset q (rows (audit_logs s)))))
       (\<lambda>as. Inr (map audit_log_dto_of as))"

definition audit_alist ::
  "int \<Rightarrow> int \<Rightarrow> audit_query \<Rightarrow> 'z db_scheme \<Rightarrow> exn + audit_log_dto list \<times> int" where
  "audit_alist offset limit q s =
     bind_sum (audit_page offset limit q s) (\<lambda>as. Inr (as, audit_total q s))"

subsection \<open>The protocol of the writer\<close>

text \<open>
  What the service relies on of its writer: a write appends one record with the given contents or
  changes no record, and touches nothing else.
\<close>

locale audit_writer =
  fixes put :: "audit_entry \<Rightarrow> 's \<Rightarrow> (exn + 'a) \<times> 's"
    and trail :: "'s \<Rightarrow> audit_entry list"
    and rest :: "'s \<Rightarrow> 'r"
  assumes write_ok: "put e s = (Inr x, s') \<Longrightarrow> trail s' = trail s @ [e]"
    and write_refused: "put e s = (Inl ex, s') \<Longrightarrow> trail s' = trail s"
    and write_rest: "put e s = (r, s') \<Longrightarrow> rest s' = rest s"

subsection \<open>The service\<close>

datatype target = TargetInt int | TargetStr string

primrec str_of_target :: "target \<Rightarrow> string" where
  "str_of_target (TargetInt i) = str_of_int i"
| "str_of_target (TargetStr s) = s"

record audit_event =
  ev_action :: string
  ev_context :: audit_context
  ev_target_type :: "string option"
  ev_target_id :: "target option"
  ev_outcome :: string
  ev_metadata :: "(string \<times> pyval) list option"

text \<open>\<open>d[k] = v\<close>\<close>

fun dict_set :: "string \<Rightarrow> pyval \<Rightarrow> (string \<times> pyval) list \<Rightarrow> (string \<times> pyval) list" where
  "dict_set k v [] = [(k, v)]"
| "dict_set k v ((k', v') # kvs) = (if k' = k then (k, v) # kvs else (k', v') # dict_set k v kvs)"

definition with_actor_email ::
  "(int \<Rightarrow> 's \<Rightarrow> exn + user_dto option) \<Rightarrow> audit_context \<Rightarrow> 's \<Rightarrow> audit_context" where
  "with_actor_email get_user context s =
     (case ctx_actor_id context of
        None \<Rightarrow> context
      | Some uid \<Rightarrow>
          if ctx_actor_email context \<noteq> None then context
          else case get_user uid s of
            Inl _ \<Rightarrow> context
          | Inr None \<Rightarrow> context
          | Inr (Some u) \<Rightarrow> context\<lparr>ctx_actor_email := Some (ud_email u)\<rparr>)"

definition audit_entry_of :: "audit_event \<Rightarrow> audit_context \<Rightarrow> audit_entry" where
  "audit_entry_of ev context =
     (let md = sanitize_metadata (ev_metadata ev);
          md' = (case ctx_request_id context of
                   None \<Rightarrow> md | Some i \<Rightarrow> dict_set ''request_id'' (PStr i) md)
      in \<lparr>e_action = ev_action ev, e_actor_id = ctx_actor_id context,
          e_actor_email = ctx_actor_email context, e_target_type = ev_target_type ev,
          e_target_id = map_option str_of_target (ev_target_id ev), e_outcome = ev_outcome ev,
          e_ip = ctx_ip context, e_user_agent = truncate_user_agent (ctx_user_agent context),
          e_metadata = md'\<rparr>)"

text \<open>\<open>record\<close>: whatever the writer raises is logged and dropped.\<close>

definition record_event ::
  "(int \<Rightarrow> 's \<Rightarrow> exn + user_dto option) \<Rightarrow> (audit_entry \<Rightarrow> 's \<Rightarrow> (exn + 'a) \<times> 's) \<Rightarrow>
     audit_event \<Rightarrow> 's \<Rightarrow> 's" where
  "record_event get_user put ev s =
     (case put (audit_entry_of ev (with_actor_email get_user (ev_context ev) s)) s of
        (Inl e, s') \<Rightarrow> s'
      | (Inr x, s') \<Rightarrow> s')"

context audit_writer
begin

text \<open>Recording an event appends its entry or nothing, and changes nothing else.\<close>

lemma record_appends:
  "trail (record_event get_user put ev s) = trail s \<or>
   trail (record_event get_user put ev s) =
     trail s @ [audit_entry_of ev (with_actor_email get_user (ev_context ev) s)]"
proof -
  let ?e = "audit_entry_of ev (with_actor_email get_user (ev_context ev) s)"
  obtain r s' where w: "put ?e s = (r, s')" by (cases "put ?e s")
  then have "record_event get_user put ev s = s'" by (simp add: record_event_def split: sum.split)
  moreover have "trail s' = trail s \<or> trail s' = trail s @ [?e]"
    using w write_ok write_refused by (cases r) blast+
  ultimately show ?thesis by simp
qed

lemma record_rest: "rest (record_event get_user put ev s) = rest s"
  using write_rest by (auto simp: record_event_def split: prod.splits sum.splits)

lemma record_written:
  "put (audit_entry_of ev (with_actor_email get_user (ev_context ev) s)) s = (Inr x, s') \<Longrightarrow>
   trail (record_event get_user put ev s) =
     trail s @ [audit_entry_of ev (with_actor_email get_user (ev_context ev) s)]"
  using write_ok by (simp add: record_event_def)

end

subsection \<open>The repository is a writer\<close>

definition entry_of_row :: "audit_log_row \<Rightarrow> audit_entry" where
  "entry_of_row r = \<lparr>e_action = a_action r, e_actor_id = a_actor_id r,
     e_actor_email = a_actor_email r, e_target_type = a_target_type r, e_target_id = a_target_id r,
     e_outcome = a_outcome r, e_ip = a_ip r, e_user_agent = a_user_agent r,
     e_metadata = a_metadata r\<rparr>"

definition audit_trail :: "'z db_scheme \<Rightarrow> audit_entry list" where
  "audit_trail s = map entry_of_row (rows (audit_logs s))"

text \<open>The state without its audit table.\<close>

definition sans_audit :: "'z db_scheme \<Rightarrow> 'z db_scheme" where
  "sans_audit s = s\<lparr>audit_logs := empty_table\<rparr>"

lemma audit_acreate_cases:
  assumes "audit_acreate up inet_ok now e s = (res, s')"
  obtains (refused) ex t where "res = Inl ex" "s' = s\<lparr>audit_logs := t\<rparr>" "rows t = rows (audit_logs s)"
    | (written) r t where "res = Inr (audit_log_dto_of r)" "r = audit_row now e (next_id (audit_logs s))"
      "s' = s\<lparr>audit_logs := t\<rparr>" "rows t = rows (audit_logs s) @ [r]" "up"
proof (cases "up \<and> json_ok (PDict (e_metadata e))")
  case False
  then obtain ex where ex: "res = Inl ex" "s' = s"
    using assms by (auto simp: audit_acreate_def simp del: json_ok.simps split: if_splits)
  have "s' = s\<lparr>audit_logs := audit_logs s\<rparr>" using ex(2) by simp
  from ex(1) this refl show ?thesis by (rule that(1))
next
  case True
  obtain r t where t: "tbl_insert (audit_log_insert_check inet_ok) (audit_row now e) (audit_logs s) = (r, t)"
    by (cases "tbl_insert (audit_log_insert_check inet_ok) (audit_row now e) (audit_logs s)")
  have res: "s' = s\<lparr>audit_logs := t\<rparr>" "res = map_sum id audit_log_dto_of r"
    using assms True t
    by (auto simp: audit_acreate_def create_audit_log_def simp del: json_ok.simps split: sum.splits)
  from t show ?thesis
  proof (cases rule: tbl_insert_cases)
    case (refused ex)
    then show ?thesis using that(1) res by simp
  next
    case inserted
    then show ?thesis using that(2) res True by simp
  qed
qed

lemma entry_of_audit_row [simp]: "entry_of_row (audit_row now e i) = e"
  by (simp add: entry_of_row_def audit_row_def)

interpretation trail: audit_writer "audit_acreate up inet_ok now" audit_trail sans_audit
  for up :: bool and inet_ok :: "string \<Rightarrow> bool" and now :: time
  by unfold_locales
    (auto simp: audit_trail_def sans_audit_def elim!: audit_acreate_cases)

lemma audit_acreate_frame [frame]:
  "audit_acreate up inet_ok now e s = (r, s') \<Longrightarrow> \<exists>t. s' = s\<lparr>audit_logs := t\<rparr>"
  by (erule audit_acreate_cases) auto

lemma db_ok_audit_acreate [inv_pres]:
  assumes "db_ok s" "audit_acreate up inet_ok now e s = (r, s')"
  shows "db_ok s'"
  using assms
  by (auto simp: audit_acreate_def audit_row_def split: if_splits prod.splits sum.splits
      intro: db_ok_create_audit_log)

lemma record_event_frame [frame]:
  "\<exists>t. record_event g (audit_acreate up inet_ok now) ev s = s\<lparr>audit_logs := t\<rparr>"
proof -
  let ?e = "audit_entry_of ev (with_actor_email g (ev_context ev) s)"
  obtain r s' where c: "audit_acreate up inet_ok now ?e s = (r, s')"
    by (cases "audit_acreate up inet_ok now ?e s")
  then show ?thesis using audit_acreate_frame [OF c] by (simp add: record_event_def split: sum.split)
qed

lemma db_ok_record_event [inv_pres]:
  "db_ok s \<Longrightarrow> db_ok (record_event g (audit_acreate up inet_ok now) ev s)"
  by (auto simp: record_event_def split: prod.splits sum.splits intro: db_ok_audit_acreate)

subsection \<open>The order of a listing\<close>

definition matches :: "audit_query \<Rightarrow> audit_log_row \<Rightarrow> bool" where
  "matches q r \<longleftrightarrow>
     (\<forall>v. q_actor_id q = Some v \<longrightarrow> a_actor_id r = Some v) \<and>
     (\<forall>v. q_action q = Some v \<longrightarrow> a_action r = v) \<and>
     (\<forall>v. q_outcome q = Some v \<longrightarrow> a_outcome r = v) \<and>
     (\<forall>v. q_from_at q = Some v \<longrightarrow> v \<le> a_created_at r) \<and>
     (\<forall>v. q_to_at q = Some v \<longrightarrow> a_created_at r \<le> v)"

lemma opt_filter_filter: "opt_filter v p rs = filter (\<lambda>r. \<forall>x. v = Some x \<longrightarrow> p r x) rs"
  by (cases v) (simp_all add: opt_filter_def)

lemma audit_queryset_matches: "audit_queryset q rs = filter (matches q) rs"
  unfolding audit_queryset_def opt_filter_filter filter_filter
  by (rule filter_cong) (auto simp: matches_def)

lemma sorted_wrt_insort_key:
  fixes f g :: "'a \<Rightarrow> int"
  assumes "sorted_wrt (\<lambda>a b. f a < f b \<or> f a = f b \<and> g a \<le> g b) ys"
    and "\<forall>y \<in> set ys. f y = f x \<longrightarrow> g x \<le> g y"
  shows "sorted_wrt (\<lambda>a b. f a < f b \<or> f a = f b \<and> g a \<le> g b) (insort_key f x ys)"
  using assms by (induction ys) (auto simp: set_insort_key)

lemma sorted_wrt_sort_key:
  fixes f g :: "'a \<Rightarrow> int"
  assumes "sorted_wrt (\<lambda>a b. g a \<le> g b) xs"
  shows "sorted_wrt (\<lambda>a b. f a < f b \<or> f a = f b \<and> g a \<le> g b) (sort_key f xs)"
  using assms by (induction xs) (auto intro: sorted_wrt_insort_key)

definition newer :: "audit_log_row \<Rightarrow> audit_log_row \<Rightarrow> bool" where
  "newer a b \<longleftrightarrow> a_created_at b < a_created_at a \<or>
     a_created_at b = a_created_at a \<and> a_id b \<le> a_id a"

lemma newest_first_sorted: "sorted_wrt newer (newest_first rs)"
proof -
  have "sorted_wrt (\<lambda>a b. - a_id a \<le> - a_id b) (sort_key (\<lambda>r. - a_id r) rs)"
    using sorted_sort_key [of "\<lambda>r. - a_id r" rs] by (simp add: sorted_map)
  from sorted_wrt_sort_key [OF this, of "\<lambda>r. - a_created_at r"]
  show ?thesis unfolding newest_first_def
    by (rule sorted_wrt_mono_rel [rotated]) (auto simp: newer_def)
qed

subsection \<open>Properties\<close>

text \<open>
  The audit trail only grows: recording an event keeps every earlier record as it is, adds at
  most one record, with the contents of the event, at the end, and changes no other table; it does
  so whether or not the database answers, and it never raises.
\<close>

theorem audit_append_only:
  "let s' = record_event g (audit_acreate up inet_ok now) ev s;
       e = audit_entry_of ev (with_actor_email g (ev_context ev) s)
   in (audit_trail s' = audit_trail s \<or> audit_trail s' = audit_trail s @ [e]) \<and>
      take (length (rows (audit_logs s))) (rows (audit_logs s')) = rows (audit_logs s) \<and>
      sans_audit s' = sans_audit s"
proof -
  let ?e = "audit_entry_of ev (with_actor_email g (ev_context ev) s)"
  let ?s' = "record_event g (audit_acreate up inet_ok now) ev s"
  obtain r s1 where c: "audit_acreate up inet_ok now ?e s = (r, s1)"
    by (cases "audit_acreate up inet_ok now ?e s")
  then have "?s' = s1" by (simp add: record_event_def split: sum.split)
  moreover from c have "take (length (rows (audit_logs s))) (rows (audit_logs s1)) = rows (audit_logs s)"
    by (cases rule: audit_acreate_cases) simp_all
  ultimately show ?thesis
    using trail.record_appends [of g up inet_ok now ev s] trail.record_rest [of g up inet_ok now ev s]
    unfolding Let_def by simp
qed

text \<open>
  Audit listings: the items are the requested page of the records that satisfy every given
  filter, ordered from the newest to the oldest and by descending id within one instant, and the
  total is the number of those records; an offset beyond 64 bits is an error of the database.
\<close>

theorem audit_alist_spec:
  "\<exists>full. mset full = mset (filter (matches q) (rows (audit_logs s))) \<and>
     sorted_wrt newer full \<and>
     audit_alist offset limit q s = (if offset < 2 ^ 63
       then Inr (map audit_log_dto_of (page offset limit full), int (length full)) else Inl DataError)"
proof (intro exI conjI)
  let ?full = "newest_first (filter (matches q) (rows (audit_logs s)))"
  show "mset ?full = mset (filter (matches q) (rows (audit_logs s)))"
    by (simp add: newest_first_def)
  show "sorted_wrt newer ?full" by (rule newest_first_sorted)
  show "audit_alist offset limit q s = (if offset < 2 ^ 63
      then Inr (map audit_log_dto_of (page offset limit ?full), int (length ?full)) else Inl DataError)"
    by (simp add: audit_alist_def audit_page_def audit_total_def sql_slice_def audit_queryset_matches
        newest_first_def)
qed

end
