(* ===== verification/AuthService.thy ===== *)
theory AuthService
  imports AuditTrail
begin

text \<open>
  The authentication use cases of \<open>apps/authz/services/auth.py\<close>.

  \<open>env\<close> holds what is fixed for a deployment: the settings the services read, and the functions
  of Django, PyJWT, hashlib and PostgreSQL that are parameters of the model. \<open>io\<close> holds what one
  call draws from its surroundings: clock readings, fresh random values, and whether Redis and the
  audit queries answer. The state is the world: the database and Redis.
\<close>

record settings =
  cfg_jwt_secret :: string
  cfg_access_lifetime :: time
  cfg_refresh_lifetime :: time
  cfg_refresh_bind_device :: bool
  cfg_refresh_bind_ip :: bool
  cfg_default_user_role :: string
  cfg_trusted_proxy_cidrs :: "string list"

record env = settings +
  env_normalize :: "string \<Rightarrow> string"
  env_make_password :: make_password
  env_check_password :: check_password
  env_import_salt :: string
  env_sha :: digest
  env_jwt_encode :: jwt_encode
  env_jwt_decode :: jwt_decode
  env_inet_ok :: "string \<Rightarrow> bool"
  env_email_str :: "string \<Rightarrow> string option"

record audit_io =
  ai_lookup :: bool
  ai_up :: bool
  ai_at :: time

record io =
  io_now :: time
  io_issued :: time
  io_redis_at :: time
  io_refresh :: string
  io_jti :: string
  io_family :: string
  io_salt :: string
  io_redis :: bool
  io_audit :: "nat \<Rightarrow> audit_io"

record token_pair =
  access_token :: string
  refresh_token :: string

subsection \<open>Helpers\<close>

definition access_token_ttl_seconds :: "'e env_scheme \<Rightarrow> int" where
  "access_token_ttl_seconds env = max 1 (cfg_access_lifetime env div sec)"

definition audit_get_user :: "bool \<Rightarrow> int \<Rightarrow> 'z db_scheme \<Rightarrow> exn + user_dto option" where
  "audit_get_user up uid s = (if up then Inr (aget_by_id uid s) else Inl DatabaseUnavailable)"

fun py_str :: "string option \<Rightarrow> pyval" where
  "py_str None = PNone"
| "py_str (Some s) = PStr s"

text \<open>The \<open>k\<close>-th audit event of a call.\<close>

definition audit_record ::
  "'e env_scheme \<Rightarrow> io \<Rightarrow> nat \<Rightarrow> audit_event \<Rightarrow> 'z db_scheme \<Rightarrow> 'z db_scheme" where
  "audit_record env io k ev s = record_event (audit_get_user (ai_lookup (io_audit io k)))
     (audit_acreate (ai_up (io_audit io k)) (env_inet_ok env) (ai_at (io_audit io k))) ev s"

definition event ::
  "audit_action \<Rightarrow> audit_context \<Rightarrow> bool \<Rightarrow> (string \<times> pyval) list option \<Rightarrow> audit_event" where
  "event action context ok md = \<lparr>ev_action = action_value action, ev_context = context,
     ev_target_type = None, ev_target_id = None,
     ev_outcome = (if ok then ''success'' else ''failure''), ev_metadata = md\<rparr>"

definition actor :: "int \<Rightarrow> audit_context \<Rightarrow> audit_context" where
  "actor uid context = context\<lparr>ctx_actor_id := Some uid\<rparr>"

definition context_for_user :: "audit_context \<Rightarrow> user_dto \<Rightarrow> audit_context" where
  "context_for_user context u =
     context\<lparr>ctx_actor_id := Some (ud_id u), ctx_actor_email := Some (ud_email u)\<rparr>"

definition dummy_hash :: "'e env_scheme \<Rightarrow> string" where
  "dummy_hash env = DUMMY_PASSWORD_HASH (env_make_password env) (env_import_salt env)"

definition encode_for ::
  "'e env_scheme \<Rightarrow> io \<Rightarrow> int \<Rightarrow> 'z db_scheme \<Rightarrow> exn + string" where
  "encode_for env io uid s = encode_access_token (env_jwt_encode env) (cfg_jwt_secret env)
     (cfg_access_lifetime env) (io_issued io) (io_jti io) (SubjInt uid)
     (aget_user_role_names uid s) (aget_user_permission_codes uid s) None None None"

subsection \<open>Registration and login\<close>

definition register ::
  "'e env_scheme \<Rightarrow> io \<Rightarrow> string \<Rightarrow> string \<Rightarrow> audit_context \<Rightarrow> bool \<Rightarrow> 'z world_scheme \<Rightarrow>
     (exn + user_dto) \<times> 'z world_scheme" where
  "register env io email password context record_registration w =
     (case aget_role_by_name (cfg_default_user_role env) w of
        None \<Rightarrow> (Inl (RuntimeError ''The configured default user role does not exist''), w)
      | Some default_role \<Rightarrow>
          (case acreate_user_with_role (env_normalize env) (io_now io) email
             (hash_password (env_make_password env) (io_salt io) password)
             (rd_id default_role) w of
             (Inl IntegrityError, w1) \<Rightarrow> (Inl (raise_domain EmailAlreadyExists), w1)
           | (Inl e, w1) \<Rightarrow> (Inl e, w1)
           | (Inr u, w1) \<Rightarrow>
               (Inr u, if record_registration
                  then audit_record env io 0 (event REGISTER (context_for_user context u) True None) w1
                  else w1)))"

text \<open>\<open>_issue_token_pair\<close>: the row is stored before the access token is signed.\<close>

definition issue_token_pair ::
  "'e env_scheme \<Rightarrow> io \<Rightarrow> int \<Rightarrow> string \<Rightarrow> int option \<Rightarrow> audit_context \<Rightarrow> 'z world_scheme \<Rightarrow>
     (exn + token_pair) \<times> 'z world_scheme" where
  "issue_token_pair env io uid family_id parent_id context w =
     (case add_timedelta (io_now io) (cfg_refresh_lifetime env) of
        Inl e \<Rightarrow> (Inl e, w)
      | Inr expires \<Rightarrow>
          (case token_acreate (env_inet_ok env) uid (hash_refresh_token (env_sha env) (io_refresh io))
             family_id parent_id expires (device_hash (env_sha env) (ctx_user_agent context))
             (ctx_ip context) w of
             (Inl e, w1) \<Rightarrow> (Inl e, w1)
           | (Inr _, w1) \<Rightarrow>
               (case encode_for env io uid w of
                  Inl e \<Rightarrow> (Inl e, w1)
                | Inr access \<Rightarrow>
                    (Inr \<lparr>access_token = access, refresh_token = io_refresh io\<rparr>, w1))))"

definition login ::
  "'e env_scheme \<Rightarrow> io \<Rightarrow> string \<Rightarrow> string \<Rightarrow> audit_context \<Rightarrow> 'z world_scheme \<Rightarrow>
     (exn + token_pair) \<times> 'z world_scheme" where
  "login env io email password context w =
     (let credentials = aget_credentials (env_normalize env) email w;
          is_valid = fst (verify_password (env_check_password env) (dummy_hash env) password
            (map_option cd_password_hash credentials));
          failed = (Inl (raise_domain InvalidCredentials),
            audit_record env io 0 (event LOGIN_FAILURE context False
              (Some [(''email'', PStr email)])) w)
      in case credentials of
           None \<Rightarrow> failed
         | Some c \<Rightarrow>
             if \<not> cd_is_active c \<or> \<not> is_valid then failed
             else case issue_token_pair env io (cd_id c) (io_family io) None context w of
               (Inl e, w1) \<Rightarrow> (Inl e, w1)
             | (Inr pair, w1) \<Rightarrow>
                 (Inr pair, audit_record env io 0 (event LOGIN_SUCCESS
                    (context\<lparr>ctx_actor_id := Some (cd_id c), ctx_actor_email := Some (cd_email c)\<rparr>)
                    True None) w1))"

subsection \<open>Refresh\<close>

text \<open>Both refusals of a replayed or misbound token: the access tokens go as well.\<close>

definition close_session_of ::
  "'e env_scheme \<Rightarrow> io \<Rightarrow> audit_action \<Rightarrow> audit_context \<Rightarrow> refresh_token_dto option \<Rightarrow>
     'z world_scheme \<Rightarrow> 'z world_scheme" where
  "close_session_of env io action context token w =
     (case token of
        None \<Rightarrow> w
      | Some t \<Rightarrow>
          audit_record env io 0 (event action (actor (rt_user_id t) context) False
              (Some [(''family_id'', PStr (rt_family_id t))]))
            (revoke_user (io_redis io) (rt_user_id t) (io_now io) (access_token_ttl_seconds env)
               (io_redis_at io) w))"

text \<open>The arguments of the rotation; the expiry is within range when it is called.\<close>

definition rotation_for ::
  "'e env_scheme \<Rightarrow> io \<Rightarrow> string \<Rightarrow> audit_context \<Rightarrow> rotation_request" where
  "rotation_for env io raw context =
    \<lparr>rq_token_hash = hash_refresh_token (env_sha env) raw,
     rq_replacement_hash = hash_refresh_token (env_sha env) (io_refresh io),
     rq_replacement_expires_at = io_now io + cfg_refresh_lifetime env, rq_rotated_at = io_now io,
     rq_device_hash = device_hash (env_sha env) (ctx_user_agent context),
     rq_ip = ctx_ip context\<rparr>"

text \<open>The part of \<open>refresh\<close> after the rotation.\<close>

definition after_rotation ::
  "'e env_scheme \<Rightarrow> io \<Rightarrow> audit_context \<Rightarrow> rotation_result \<Rightarrow> 'z world_scheme \<Rightarrow>
     (exn + token_pair) \<times> 'z world_scheme" where
  "after_rotation env io context rotation w1 =
     (case outcome rotation of
        BindingMismatch \<Rightarrow> (Inl (raise_domain RefreshTokenBindingMismatch),
          close_session_of env io TOKEN_BINDING_MISMATCH context (result_token rotation) w1)
      | Reused \<Rightarrow> (Inl (raise_domain TokenReused),
          close_session_of env io TOKEN_REUSE_DETECTED context (result_token rotation) w1)
      | Missing \<Rightarrow> (Inl (raise_domain InvalidToken), w1)
      | Expired \<Rightarrow> (Inl (raise_domain InvalidToken), w1)
      | Rotated \<Rightarrow>
          (case result_token rotation of
             None \<Rightarrow> (Inl (RuntimeError ''A successful refresh rotation must produce a token''), w1)
           | Some t \<Rightarrow>
               (let w2 = (if cfg_refresh_bind_ip env \<and> previous_issued_ip rotation \<noteq> None \<and>
                            previous_issued_ip rotation \<noteq> ctx_ip context
                      then audit_record env io 0 (event TOKEN_IP_CHANGED
                        (actor (rt_user_id t) context) True
                        (Some [(''previous_ip'', py_str (mask_ip (previous_issued_ip rotation))),
                               (''presented_ip'', py_str (mask_ip (ctx_ip context)))])) w1
                      else w1)
                in case encode_for env io (rt_user_id t) w2 of
                  Inl e \<Rightarrow> (Inl e, w2)
                | Inr access \<Rightarrow>
                    (Inr \<lparr>access_token = access, refresh_token = io_refresh io\<rparr>,
                     audit_record env io 1 (event TOKEN_REFRESHED
                       (actor (rt_user_id t) context) True
                       (Some [(''family_id'', PStr (rt_family_id t))])) w2))))"

definition refresh ::
  "'e env_scheme \<Rightarrow> io \<Rightarrow> string \<Rightarrow> audit_context \<Rightarrow> 'z world_scheme \<Rightarrow>
     (exn + token_pair) \<times> 'z world_scheme" where
  "refresh env io raw_refresh_token context w =
     (case add_timedelta (io_now io) (cfg_refresh_lifetime env) of
        Inl e \<Rightarrow> (Inl e, w)
      | Inr _ \<Rightarrow>
          (case arotate (cfg_refresh_bind_device env) (env_inet_ok env)
             (rotation_for env io raw_refresh_token context) w of
             (Inl e, w1) \<Rightarrow> (Inl e, w1)
           | (Inr rotation, w1) \<Rightarrow> after_rotation env io context rotation w1))"

subsection \<open>Logout\<close>

definition logout ::
  "'e env_scheme \<Rightarrow> io \<Rightarrow> string \<Rightarrow> audit_context \<Rightarrow> string option \<Rightarrow> int option \<Rightarrow>
     'z world_scheme \<Rightarrow> 'z world_scheme" where
  "logout env io raw_refresh_token context jti ttl w =
     (let w1 = (case (jti, ttl) of
            (Some j, Some n) \<Rightarrow> block_token (io_redis io) j n (io_redis_at io) w | _ \<Rightarrow> w)
      in case aget_by_hash (hash_refresh_token (env_sha env) raw_refresh_token) w1 of
           None \<Rightarrow> w1
         | Some t \<Rightarrow>
             audit_record env io 0 (event LOGOUT (actor (rt_user_id t) context) True
                 (Some [(''family_id'', PStr (rt_family_id t))]))
               (arevoke (rt_id t) (io_now io) w1))"

definition logout_all ::
  "'e env_scheme \<Rightarrow> io \<Rightarrow> int \<Rightarrow> audit_context \<Rightarrow> 'z world_scheme \<Rightarrow> 'z world_scheme" where
  "logout_all env io uid context w =
     audit_record env io 0 (event LOGOUT (actor uid context) True
         (Some [(''scope'', PStr ''all'')]))
       (arevoke_user uid (io_now io)
          (revoke_user (io_redis io) uid (io_now io) (access_token_ttl_seconds env)
             (io_redis_at io) w))"

definition aget_active_email :: "int \<Rightarrow> 'z db_scheme \<Rightarrow> exn + string" where
  "aget_active_email uid s = (case aget_by_id uid s of
     None \<Rightarrow> Inl (raise_domain InvalidToken) | Some u \<Rightarrow> Inr (ud_email u))"

subsection \<open>What auditing leaves alone\<close>

lemma audit_record_frame: "\<exists>t. audit_record env io k ev s = s\<lparr>audit_logs := t\<rparr>"
  unfolding audit_record_def by (rule record_event_frame)

lemma audit_record_simps [simp]:
  "users (audit_record env io k ev s) = users s"
  "roles (audit_record env io k ev s) = roles s"
  "permissions (audit_record env io k ev s) = permissions s"
  "user_roles (audit_record env io k ev s) = user_roles s"
  "role_permissions (audit_record env io k ev s) = role_permissions s"
  "refresh_tokens (audit_record env io k ev s) = refresh_tokens s"
  using audit_record_frame [of env io k ev s] by auto

lemma audit_record_redis [simp]:
  fixes w :: "'z world_scheme"
  shows "redis (audit_record env io k ev w) = redis w"
  using audit_record_frame [of env io k ev w] by auto

lemma db_ok_audit_record [inv_pres]: "db_ok s \<Longrightarrow> db_ok (audit_record env io k ev s)"
  unfolding audit_record_def by (rule db_ok_record_event)

lemma revoke_user_tables [simp]:
  "users (revoke_user up uid at ttl now w) = users w"
  "roles (revoke_user up uid at ttl now w) = roles w"
  "permissions (revoke_user up uid at ttl now w) = permissions w"
  "user_roles (revoke_user up uid at ttl now w) = user_roles w"
  "role_permissions (revoke_user up uid at ttl now w) = role_permissions w"
  "refresh_tokens (revoke_user up uid at ttl now w) = refresh_tokens w"
  "audit_logs (revoke_user up uid at ttl now w) = audit_logs w"
  by (simp_all add: revoke_user_def redis_set_def)

lemma block_token_tables [simp]:
  "users (block_token up j ttl now w) = users w"
  "roles (block_token up j ttl now w) = roles w"
  "permissions (block_token up j ttl now w) = permissions w"
  "user_roles (block_token up j ttl now w) = user_roles w"
  "role_permissions (block_token up j ttl now w) = role_permissions w"
  "refresh_tokens (block_token up j ttl now w) = refresh_tokens w"
  "audit_logs (block_token up j ttl now w) = audit_logs w"
  by (simp_all add: block_token_def redis_set_def)

lemma db_ok_redis [inv_pres]:
  "db_ok w \<Longrightarrow> db_ok (revoke_user up uid at ttl now w)"
  "db_ok w \<Longrightarrow> db_ok (block_token up j ttl now w)"
  by (simp_all add: db_ok_def ok_defs)

lemma redis_arevokes [simp]:
  fixes w :: "'z world_scheme"
  shows "redis (arevoke i at w) = redis w" "redis (arevoke_family fam at w) = redis w"
    "redis (arevoke_user uid at w) = redis w"
  by (simp_all add: arevoke_def arevoke_family_def arevoke_user_def revoke_tokens_def)

lemma is_blocked_cong:
  "redis w = redis w' \<Longrightarrow> is_blocked up j uid iat now w = is_blocked up j uid iat now w'"
  by (simp add: is_blocked_def redis_get_def)

lemma ttl_pos [simp]: "0 < access_token_ttl_seconds env"
  by (simp add: access_token_ttl_seconds_def)

subsection \<open>Login\<close>

text \<open>The user whom an e-mail address and a password identify.\<close>

definition authenticates :: "'e env_scheme \<Rightarrow> string \<Rightarrow> string \<Rightarrow> 'z db_scheme \<Rightarrow> user_row \<Rightarrow> bool" where
  "authenticates env email password s u \<longleftrightarrow>
     first (\<lambda>v. u_email v = normalize_email (env_normalize env) email) (rows (users s)) = Some u \<and>
     u_is_active u \<and> u_password u \<noteq> [] \<and> env_check_password env password (u_password u)"

lemma login_valid:
  assumes "authenticates env email password w u"
  shows "login env io email password context w =
    (case issue_token_pair env io (u_id u) (io_family io) None context w of
       (Inl e, w1) \<Rightarrow> (Inl e, w1)
     | (Inr pair, w1) \<Rightarrow> (Inr pair, audit_record env io 0 (event LOGIN_SUCCESS
          (context\<lparr>ctx_actor_id := Some (u_id u), ctx_actor_email := Some (u_email u)\<rparr>)
          True None) w1))"
  using assms
  by (simp add: login_def authenticates_def aget_credentials_def credentials_dto_from_model_def
      verify_password_def Let_def split: sum.split prod.split)

lemma login_invalid:
  assumes "\<nexists>u. authenticates env email password w u"
  shows "login env io email password context w = (Inl (raise_domain InvalidCredentials),
    audit_record env io 0 (event LOGIN_FAILURE context False (Some [(''email'', PStr email)])) w)"
proof (cases "first (\<lambda>v. u_email v = normalize_email (env_normalize env) email) (rows (users w))")
  case None
  then show ?thesis by (simp add: login_def aget_credentials_def Let_def)
next
  case (Some u)
  with assms have "\<not> (u_is_active u \<and> u_password u \<noteq> [] \<and> env_check_password env password (u_password u))"
    by (simp add: authenticates_def)
  with Some show ?thesis
    by (auto simp: login_def aget_credentials_def credentials_dto_from_model_def
        verify_password_def Let_def)
qed

lemma issue_token_pair_frame:
  assumes "issue_token_pair env io uid fam par context w = (res, w')"
  shows "\<exists>t. w' = w\<lparr>refresh_tokens := t\<rparr>"
proof -
  have "\<exists>t. w = w\<lparr>refresh_tokens := t\<rparr>" by (intro exI [of _ "refresh_tokens w"]) simp
  then show ?thesis
    using assms
    by (auto simp: issue_token_pair_def token_acreate_def split: sum.splits prod.splits
        dest: create_refresh_token_frame)
qed

lemma db_ok_issue [inv_pres]:
  assumes "db_ok w" "issue_token_pair env io uid fam par context w = (res, w')"
  shows "db_ok w'"
  using assms
  by (auto simp: issue_token_pair_def split: sum.splits prod.splits intro: db_ok_token_acreate)

lemma db_ok_login [inv_pres]:
  assumes "db_ok w" "login env io email password context w = (res, w')"
  shows "db_ok w'"
  using assms
  by (auto simp: login_def Let_def split: option.splits if_splits sum.splits prod.splits
      intro: db_ok_audit_record db_ok_issue)

text \<open>What storing a fresh token and signing an access token need to go through.\<close>

definition issuable :: "'e env_scheme \<Rightarrow> io \<Rightarrow> audit_context \<Rightarrow> 'z db_scheme \<Rightarrow> bool" where
  "issuable env io context s \<longleftrightarrow> digest_law (env_sha env) \<and>
     hash_refresh_token (env_sha env) (io_refresh io) \<notin> t_token_hash ` set (tokens s) \<and>
     \<not> bad_inet (env_inet_ok env) (ctx_ip context) \<and>
     datetime_ok (io_now io + cfg_refresh_lifetime env) \<and>
     datetime_ok (io_issued io + cfg_access_lifetime env)"

definition issued_row ::
  "'e env_scheme \<Rightarrow> io \<Rightarrow> int \<Rightarrow> audit_context \<Rightarrow> int \<Rightarrow> refresh_token_row" where
  "issued_row env io uid context i = \<lparr>t_id = i, t_user_id = uid,
     t_token_hash = hash_refresh_token (env_sha env) (io_refresh io), t_family_id = io_family io,
     t_parent_id = None, t_device_hash = device_hash (env_sha env) (ctx_user_agent context),
     t_issued_ip = ctx_ip context, t_expires_at = io_now io + cfg_refresh_lifetime env,
     t_revoked_at = None\<rparr>"

definition access_for :: "'e env_scheme \<Rightarrow> io \<Rightarrow> int \<Rightarrow> 'z db_scheme \<Rightarrow> string" where
  "access_for env io uid s = env_jwt_encode env
     (access_payload (str_of_int uid) (io_issued io + cfg_access_lifetime env) (io_issued io)
       (io_jti io) (aget_user_role_names uid s) (aget_user_permission_codes uid s))
     (cfg_jwt_secret env)"

lemma encode_for_ok:
  "datetime_ok (io_issued io + cfg_access_lifetime env) \<Longrightarrow>
    encode_for env io uid s = Inr (access_for env io uid s)"
  by (simp add: encode_for_def access_for_def encode_access_token_Inr)

lemma issue_token_pair_ok:
  assumes "issuable env io context w" "uid \<in> user_ids w"
  shows "\<exists>w1. issue_token_pair env io uid (io_family io) None context w =
      (Inr \<lparr>access_token = access_for env io uid w, refresh_token = io_refresh io\<rparr>, w1) \<and>
    tokens w1 = tokens w @ [issued_row env io uid context (next_id (refresh_tokens w))] \<and>
    (\<exists>t. w1 = w\<lparr>refresh_tokens := t\<rparr>)"
proof -
  have ok: "digest_law (env_sha env)"
    "hash_refresh_token (env_sha env) (io_refresh io) \<notin> t_token_hash ` set (tokens w)"
    "\<not> bad_inet (env_inet_ok env) (ctx_ip context)"
    "datetime_ok (io_now io + cfg_refresh_lifetime env)"
    "datetime_ok (io_issued io + cfg_access_lifetime env)"
    using assms(1) by (simp_all add: issuable_def)
  have "\<not> too_long 64 (device_hash (env_sha env) ua)" for ua
    using device_hash_fits [OF ok(1)] by (cases "device_hash (env_sha env) ua") (auto simp: too_long_def)
  then have check: "refresh_token_insert_check (env_inet_ok env) (map u_id (rows (users w))) (tokens w)
      (issued_row env io uid context i) = None" for i
    using ok(1-3) assms(2) by (simp add: refresh_token_insert_check_def issued_row_def)
  obtain r w1 where c: "create_refresh_token (env_inet_ok env) (issued_row env io uid context) w = (r, w1)"
    by (cases "create_refresh_token (env_inet_ok env) (issued_row env io uid context) w")
  from c have rw: "r = Inr (issued_row env io uid context (next_id (refresh_tokens w)))"
    "tokens w1 = tokens w @ [issued_row env io uid context (next_id (refresh_tokens w))]"
    by (cases rule: create_refresh_token_cases; simp add: check)+
  have eta: "(\<lambda>i. \<lparr>t_id = i, t_user_id = uid,
      t_token_hash = hash_refresh_token (env_sha env) (io_refresh io), t_family_id = io_family io,
      t_parent_id = None, t_device_hash = device_hash (env_sha env) (ctx_user_agent context),
      t_issued_ip = ctx_ip context, t_expires_at = io_now io + cfg_refresh_lifetime env,
      t_revoked_at = None\<rparr>) = issued_row env io uid context"
    by (rule ext) (simp add: issued_row_def)
  have "issue_token_pair env io uid (io_family io) None context w =
      (Inr \<lparr>access_token = access_for env io uid w, refresh_token = io_refresh io\<rparr>, w1)"
    using c rw(1) ok(4,5)
    by (simp add: issue_token_pair_def add_timedelta_def token_acreate_def eta encode_for_ok)
  with rw(2) create_refresh_token_frame [OF c] show ?thesis by blast
qed

text \<open>A pair that is issued is the signed token of its user and the token of the one new row.\<close>

lemma issue_token_pair_Inr:
  assumes "issue_token_pair env io uid (io_family io) None context w = (Inr pair, w1)"
  shows "pair = \<lparr>access_token = access_for env io uid w, refresh_token = io_refresh io\<rparr> \<and>
    tokens w1 = tokens w @ [issued_row env io uid context (next_id (refresh_tokens w))]"
proof -
  obtain expires r access where e: "add_timedelta (io_now io) (cfg_refresh_lifetime env) = Inr expires"
    and c: "token_acreate (env_inet_ok env) uid (hash_refresh_token (env_sha env) (io_refresh io))
      (io_family io) None expires (device_hash (env_sha env) (ctx_user_agent context))
      (ctx_ip context) w = (Inr r, w1)"
    and a: "encode_for env io uid w = Inr access"
    and p: "pair = \<lparr>access_token = access, refresh_token = io_refresh io\<rparr>"
    using assms by (auto simp: issue_token_pair_def split: sum.splits prod.splits)
  have expires: "expires = io_now io + cfg_refresh_lifetime env"
    using e by (auto simp: add_timedelta_def split: if_splits)
  have access: "access = access_for env io uid w"
    using a by (auto simp: encode_for_def access_for_def encode_access_token_def bind_sum_def
        add_timedelta_def split: if_splits sum.splits)
  have eta: "(\<lambda>i. \<lparr>t_id = i, t_user_id = uid,
      t_token_hash = hash_refresh_token (env_sha env) (io_refresh io), t_family_id = io_family io,
      t_parent_id = None, t_device_hash = device_hash (env_sha env) (ctx_user_agent context),
      t_issued_ip = ctx_ip context, t_expires_at = expires,
      t_revoked_at = None\<rparr>) = issued_row env io uid context"
    by (rule ext) (simp add: issued_row_def expires)
  obtain q where "create_refresh_token (env_inet_ok env) (issued_row env io uid context) w = (q, w1)"
    "is_ok q"
    using c by (auto simp: token_acreate_def eta split: sum.splits prod.splits)
  then have "tokens w1 = tokens w @ [issued_row env io uid context (next_id (refresh_tokens w))]"
    by (cases rule: create_refresh_token_cases) auto
  with p access show ?thesis by simp
qed

subsection \<open>Refresh\<close>

lemma rotation_for_simps [simp]:
  "rq_token_hash (rotation_for env io raw context) = hash_refresh_token (env_sha env) raw"
  "rq_replacement_hash (rotation_for env io raw context) = hash_refresh_token (env_sha env) (io_refresh io)"
  "rq_replacement_expires_at (rotation_for env io raw context) = io_now io + cfg_refresh_lifetime env"
  "rq_rotated_at (rotation_for env io raw context) = io_now io"
  "rq_device_hash (rotation_for env io raw context) = device_hash (env_sha env) (ctx_user_agent context)"
  "rq_ip (rotation_for env io raw context) = ctx_ip context"
  by (simp_all add: rotation_for_def)

lemma py_or_cases: "py_or a b = a \<or> py_or a b = b"
  by (auto simp: py_or_def split: option.splits)

text \<open>A replacement row that no constraint refuses is inserted.\<close>

lemma consume_accepted:
  assumes "t \<in> set (tokens s)" "t_user_id t \<in> user_ids s"
    and "length (rq_replacement_hash rq) \<le> 64"
    and "rq_replacement_hash rq \<notin> t_token_hash ` set (tokens s)"
    and "\<not> too_long 64 (t_device_hash t)" "\<not> too_long 64 (rq_device_hash rq)"
    and "\<not> bad_inet inet (rq_ip rq)"
  shows "\<exists>s2. consume inet rq t s = (Inr (replacement t rq (next_id (refresh_tokens s))), s2) \<and>
    tokens s2 = consume_row (t_id t) (rq_rotated_at rq) (tokens s) @
      [replacement t rq (next_id (refresh_tokens s))] \<and>
    (\<exists>tt. s2 = s\<lparr>refresh_tokens := tt\<rparr>)"
proof -
  obtain r s2 where c: "consume inet rq t s = (r, s2)" by (cases "consume inet rq t s")
  then show ?thesis
  proof (cases rule: consume_cases)
    case created
    with c show ?thesis by blast
  next
    case (refused e)
    let ?s1 = "revoke_tokens (\<lambda>u. t_id u = t_id t) (rq_rotated_at rq) s"
    have dev: "\<not> too_long 64 (py_or (t_device_hash t) (rq_device_hash rq))"
      using assms(5,6) py_or_cases [of "t_device_hash t" "rq_device_hash rq"] by metis
    have "map t_token_hash (tokens ?s1) = map t_token_hash (tokens s)"
      "map t_id (tokens ?s1) = map t_id (tokens s)" by (simp_all add: map_upd_where)
    from this [THEN arg_cong [of _ _ set]]
    have hashes: "t_token_hash ` set (tokens ?s1) = t_token_hash ` set (tokens s)"
      "t_id ` set (tokens ?s1) = t_id ` set (tokens s)" by (simp_all only: set_map)
    have "refresh_token_insert_check inet (map u_id (rows (users ?s1))) (tokens ?s1)
        (replacement t rq i) = None" for i
      using assms dev
      by (simp add: refresh_token_insert_check_def replacement_def hashes del: tokens_revoke)
    then have False
      using create_refresh_token_cases [OF c [unfolded consume_def]] refused by (metis sum.distinct(1) option.distinct(1))
    then show ?thesis ..
  qed
qed

lemma refresh_after:
  "datetime_ok (io_now io + cfg_refresh_lifetime env) \<Longrightarrow> refresh env io raw context w =
    (case arotate (cfg_refresh_bind_device env) (env_inet_ok env) (rotation_for env io raw context) w of
       (Inl e, w1) \<Rightarrow> (Inl e, w1)
     | (Inr rotation, w1) \<Rightarrow> after_rotation env io context rotation w1)"
  by (simp add: refresh_def add_timedelta_def)

lemma close_session_tables [simp]:
  "tokens (close_session_of env io a context tk w) = tokens w"
  "users (close_session_of env io a context tk w) = users w"
  by (simp_all add: close_session_of_def split: option.split)

lemma close_session_blocks:
  assumes "io_redis io" "datetime_ok (io_now io)" "iat < io_now io"
    and "now < io_redis_at io + access_token_ttl_seconds env * sec"
  shows "is_blocked True jti (rt_user_id t) iat now (close_session_of env io a context (Some t) w)"
proof -
  have "is_blocked True jti (rt_user_id t) iat now
      (revoke_user True (rt_user_id t) (io_now io) (access_token_ttl_seconds env) (io_redis_at io) w)"
    unfolding is_blocked_iff using assms by (intro disjI2 bl.revoke_before) simp_all
  then show ?thesis
    using assms(1) by (simp add: close_session_of_def cong: is_blocked_cong)
qed

lemma access_for_cong:
  assumes "roles s = roles s'" "permissions s = permissions s'" "user_roles s = user_roles s'"
    and "role_permissions s = role_permissions s'"
  shows "access_for env io uid s = access_for env io uid s'"
  using assms
  by (simp add: access_for_def aget_user_role_names_def aget_user_permission_codes_def has_role_def)

lemma authenticates_user:
  "authenticates env email password s u \<Longrightarrow> u \<in> set (rows (users s)) \<and> u_id u \<in> user_ids s"
  by (auto simp: authenticates_def dest: first_Some)

subsection \<open>Registration\<close>

lemma create_with_role_cases:
  assumes "acreate_user_with_role dj now e pw rid w = (res, w')"
  obtains (refused) ex where "res = Inl ex" "same_rows w w'"
    | (created) u l w1 where "res = Inr (user_dto_from_model u)"
      "create_user (normalize_email dj e) pw True False False now w = (Inr u, w1)"
      "create_user_role (u_id u) rid w1 = (Inr l, w')"
proof (cases res)
  case (Inl ex)
  then show ?thesis
    using refused run_in_transaction_atomic assms unfolding acreate_user_with_role_def by blast
next
  case (Inr x)
  have "create_user_with_role_body dj now e pw rid w = (Inr x, w')"
    using assms Inr by (simp add: acreate_user_with_role_def run_in_transaction_commit)
  then show ?thesis
    using created Inr by (auto simp: create_user_with_role_body_def split: prod.splits sum.splits)
qed

lemma user_role_ids_fresh:
  assumes "db_ok s" "uid \<notin> user_ids s"
  shows "user_role_ids uid s = {}"
  using assms by (auto simp: user_role_ids_def db_ok_def links_ok_def)

lemma acreate_user_with_role_ok:
  assumes "db_ok w" "acreate_user_with_role dj now e pw rid w = (Inr d, w')"
  shows "\<exists>u. rows (users w') = rows (users w) @ [u] \<and> d = user_dto_from_model u \<and>
    u_id u \<notin> user_ids w \<and> u_email u = normalize_email dj e \<and> u_password u = pw \<and>
    u_is_active u \<and> \<not> u_is_staff u \<and> \<not> u_is_superuser u \<and>
    user_role_ids (u_id u) w' = {rid} \<and>
    (\<forall>i. i \<noteq> u_id u \<longrightarrow> user_role_ids i w' = user_role_ids i w) \<and>
    permissions w' = permissions w \<and> role_permissions w' = role_permissions w \<and>
    roles w' = roles w \<and> refresh_tokens w' = refresh_tokens w"
  using assms(2)
proof (cases rule: create_with_role_cases)
  case (created u l w1)
  have u: "rows (users w1) = rows (users w) @ [u]" "u_email u = normalize_email dj e"
    "u_password u = pw" "u_is_active u" "\<not> u_is_staff u" "\<not> u_is_superuser u"
    using created(2) by (auto elim!: create_user_cases)
  have fresh: "u_id u \<notin> user_ids w"
    using aget_by_id_created [OF _ created(2)] assms(1) by (simp add: db_ok_def)
  obtain t where t: "w1 = w\<lparr>users := t\<rparr>" using create_user_frame [OF created(2)] by blast
  obtain t' where t': "w' = w1\<lparr>user_roles := t'\<rparr>" using create_user_role_frame [OF created(3)] by blast
  have l: "rows (user_roles w') = rows (user_roles w1) @ [l]" "ur_user_id l = u_id u" "ur_role_id l = rid"
    using created(3) by (auto elim!: create_user_role_cases)
  have ids: "user_role_ids i w' = (if i = u_id u then insert rid (user_role_ids i w) else user_role_ids i w)" for i
    using l by (auto simp: user_role_ids_def t)
  with user_role_ids_fresh [OF assms(1) fresh] u fresh created(1) show ?thesis
    by (intro exI [of _ u]) (simp add: t t')
qed simp

lemma refresh_rotates_tokens:
  assumes "db_ok w" "token_by_hash (hash_refresh_token (env_sha env) raw) w = Some t" "active t"
    and "io_now io < t_expires_at t"
    and "\<not> wrong_device (cfg_refresh_bind_device env) (rotation_for env io raw context) t"
    and "issuable env io context w" "\<not> too_long 64 (t_device_hash t)"
  shows "\<exists>w' u. refresh env io raw context w =
      (Inr \<lparr>access_token = access_for env io (t_user_id t) w, refresh_token = io_refresh io\<rparr>, w') \<and>
    tokens w' = consume_row (t_id t) (io_now io) (tokens w) @ [u] \<and>
    t_token_hash u = hash_refresh_token (env_sha env) (io_refresh io) \<and> active u \<and>
    t_user_id u = t_user_id t \<and> t_family_id u = t_family_id t \<and> t_parent_id u = Some (t_id t) \<and>
    t_expires_at u = io_now io + cfg_refresh_lifetime env"
proof -
  let ?rq = "rotation_for env io raw context" and ?n = "next_id (refresh_tokens w)"
  let ?u = "replacement t ?rq ?n"
  have iss: "digest_law (env_sha env)"
    "hash_refresh_token (env_sha env) (io_refresh io) \<notin> t_token_hash ` set (tokens w)"
    "\<not> bad_inet (env_inet_ok env) (ctx_ip context)"
    "datetime_ok (io_now io + cfg_refresh_lifetime env)"
    "datetime_ok (io_issued io + cfg_access_lifetime env)"
    using assms(6) by (simp_all add: issuable_def)
  have t: "t \<in> set (tokens w)" "t_user_id t \<in> user_ids w"
    using token_by_hash_Some [OF assms(2)] assms(1)
    by (auto simp: db_ok_def tokens_ok_def token_links_ok_def)
  have dev: "\<not> too_long 64 (device_hash (env_sha env) ua)" for ua
    using device_hash_fits [OF iss(1)]
    by (cases "device_hash (env_sha env) ua") (auto simp: too_long_def)
  obtain w1 where c: "consume (env_inet_ok env) ?rq t w = (Inr ?u, w1)"
    and w1: "tokens w1 = consume_row (t_id t) (io_now io) (tokens w) @ [?u]"
      "\<exists>tt. w1 = w\<lparr>refresh_tokens := tt\<rparr>"
    using consume_accepted [of t w ?rq "env_inet_ok env"] t assms(7) iss(1-3) dev by auto
  have "arotate (cfg_refresh_bind_device env) (env_inet_ok env) ?rq w =
      (Inr \<lparr>outcome = Rotated, result_token = Some (refresh_token_dto_of ?u),
         previous_issued_ip = t_issued_ip t\<rparr>, w1)"
    using arotate_live [of ?rq w t] assms(2-5) c by simp
  then have "refresh env io raw context w = after_rotation env io context
      \<lparr>outcome = Rotated, result_token = Some (refresh_token_dto_of ?u),
       previous_issued_ip = t_issued_ip t\<rparr> w1"
    by (simp add: refresh_after [OF iss(4)])
  moreover have "rt_user_id (refresh_token_dto_of ?u) = t_user_id t"
    by (simp add: refresh_token_dto_of_def replacement_def)
  moreover have "access_for env io i (audit_record env io 0 ev w1) = access_for env io i w"
    "access_for env io i w1 = access_for env io i w" for i ev
    using w1(2) by (auto intro!: access_for_cong)
  ultimately have "\<exists>w'. refresh env io raw context w =
      (Inr \<lparr>access_token = access_for env io (t_user_id t) w, refresh_token = io_refresh io\<rparr>, w') \<and>
      tokens w' = tokens w1"
    by (auto simp: after_rotation_def encode_for_ok [OF iss(5)] Let_def)
  with w1(1) show ?thesis by (auto simp: replacement_def)
qed

subsection \<open>A sample deployment\<close>

definition sample_env :: env where
  "sample_env = \<lparr>cfg_jwt_secret = ''key'', cfg_access_lifetime = 900 * sec,
     cfg_refresh_lifetime = 604800 * sec, cfg_refresh_bind_device = True,
     cfg_refresh_bind_ip = False, cfg_default_user_role = ''user'',
     cfg_trusted_proxy_cidrs = [''10.0.0.0/8''], env_normalize = (\<lambda>e. e),
     env_make_password = (\<lambda>salt p. ''pw'' @ (case p of Some s \<Rightarrow> s | None \<Rightarrow> [])),
     env_check_password = (\<lambda>p h. h = ''pw'' @ p), env_import_salt = ''s'',
     env_sha = (\<lambda>m. take 64 (map char_of m @ replicate 64 (CHR ''.''))),
     env_jwt_encode = (\<lambda>p k. case map_of p ''sub'' of Some (PStr s) \<Rightarrow> s | _ \<Rightarrow> []),
     env_jwt_decode = (\<lambda>now required tok k. Inl InvalidTokenError),
     env_inet_ok = (\<lambda>_. True), env_email_str = Some\<rparr>"

definition sample_io :: "string \<Rightarrow> io" where
  "sample_io fresh = \<lparr>io_now = 10 * sec, io_issued = 10 * sec, io_redis_at = 10 * sec,
     io_refresh = fresh, io_jti = ''j'' @ fresh, io_family = ''fam'' @ fresh, io_salt = ''salt'',
     io_redis = True, io_audit = (\<lambda>_. \<lparr>ai_lookup = True, ai_up = True, ai_at = 10 * sec\<rparr>)\<rparr>"

definition sample_context :: audit_context where
  "sample_context = \<lparr>ctx_actor_id = None, ctx_actor_email = None, ctx_ip = Some ''10.0.0.2'',
     ctx_user_agent = None, ctx_request_id = Some ''r1''\<rparr>"

lemma sample_issuable: "issuable sample_env (sample_io r) sample_context sample_world"
proof -
  have l: "length (env_sha sample_env m) = 64" for m by (simp add: sample_env_def)
  have gen: "x \<notin> f ` S" if "\<forall>t \<in> S. length (f t) = 2" "length x = 64"
    for x :: string and f :: "refresh_token_row \<Rightarrow> string" and S
    using that by auto
  have "\<forall>t \<in> set (tokens sample_world). length (t_token_hash t) = 2"
    by (simp add: sample_world_def sample_defs)
  then have "env_sha sample_env m \<notin> t_token_hash ` set (tokens sample_world)" for m
    using l [of m] by (rule gen)
  then have "hash_refresh_token (env_sha sample_env) x \<notin> t_token_hash ` set (tokens sample_world)" for x
    unfolding hash_refresh_token_def .
  moreover have "digest_law (env_sha sample_env)" by (simp add: digest_law_def l)
  moreover have "\<not> bad_inet (env_inet_ok sample_env) (ctx_ip sample_context)"
    "datetime_ok (io_now (sample_io r) + cfg_refresh_lifetime sample_env)"
    "datetime_ok (io_issued (sample_io r) + cfg_access_lifetime sample_env)"
    by (simp_all add: bad_inet_def datetime_ok_def sample_env_def sample_io_def sample_context_def)
  ultimately show ?thesis unfolding issuable_def by blast
qed

text \<open>The user with id 2 holds the one token \<open>t\<close>, perhaps revoked.\<close>

definition session_row :: "time option \<Rightarrow> refresh_token_row" where
  "session_row revoked = \<lparr>t_id = 7, t_user_id = 2,
     t_token_hash = hash_refresh_token (env_sha sample_env) ''t'', t_family_id = ''fam'',
     t_parent_id = None, t_device_hash = None, t_issued_ip = Some ''10.0.0.1'',
     t_expires_at = 100 * sec, t_revoked_at = revoked\<rparr>"

definition session_world :: "time option \<Rightarrow> world" where
  "session_world revoked =
     sample_world\<lparr>refresh_tokens := \<lparr>rows = [session_row revoked], next_id = 8\<rparr>\<rparr>"

lemma session_token: "token_by_hash (hash_refresh_token (env_sha sample_env) ''t'') (session_world rv) =
    Some (session_row rv)"
  by (simp add: token_by_hash_def session_world_def session_row_def)

lemma sample_hash_length [simp]: "length (hash_refresh_token (env_sha sample_env) x) = 64"
  by (simp add: hash_refresh_token_def sample_env_def)

lemma session_db_ok: "db_ok (session_world rv)"
proof -
  have "db_ok sample_world" unfolding sample_world_def by (rule sample_db_ok)
  moreover have "token_fits (session_row rv)"
    by (simp add: token_fits_def session_row_def too_long_def)
  ultimately show ?thesis
    by (simp add: db_ok_def ok_defs session_world_def session_row_def token_links_ok_def ids_ok_def
        sample_world_def sample_defs)
qed

lemma sample_hash: "hash_refresh_token (env_sha sample_env) [c] = char_of (py_ord c) # replicate 63 (CHR ''.'')"
  if "py_ord c < 128"
proof -
  have "utf8 [c] = [py_ord c]" using that by (simp add: utf8_def utf8_char_def Let_def)
  then show ?thesis by (simp add: hash_refresh_token_def sample_env_def) 
qed

lemma session_issuable: "issuable sample_env (sample_io ''r'') sample_context (session_world rv)"
  using sample_issuable [of "''r''"] sample_hash [of "CHR ''r''"] sample_hash [of "CHR ''t''"]
  by (simp add: issuable_def session_world_def session_row_def sample_io_def)

lemma sample_access: "access_for sample_env io 2 s = ''2''"
proof -
  have "str_of_int 2 = ''2''" by code_simp
  then show ?thesis by (simp add: access_for_def sample_env_def access_payload_def)
qed

lemma sample_authenticates:
  "authenticates sample_env ''ann@x.io'' ''ann@x.io'' sample_world (sample_user 2 ''ann@x.io'')"
  by (simp add: authenticates_def sample_env_def sample_world_def sample_defs
      normalize_email_def lower_def lower_char_def is_upper_char_def)

subsection \<open>Properties\<close>

text \<open>
  C11. Who can log in: a login with an address and a password that do not identify an active user
  fails with \<open>InvalidCredentials\<close>, whichever of the checks failed, stores no token, and changes
  nothing but the audit trail; a login that succeeds is that of the one active user with the
  normalized address whose stored hash the password matches, and the pair it answers is that
  user's: the access token is signed for the user's id, roles and permissions, and the refresh
  token is that of the one row the login adds, which belongs to the user, is live, carries the
  request's device and address and the configured expiry. The users stay as they were.
\<close>

theorem login_requires_credentials:
  assumes "login env io email password context w = (res, w')"
  shows "((\<nexists>u. authenticates env email password w u) \<longrightarrow>
      res = Inl (raise_domain InvalidCredentials) \<and> (\<exists>t. w' = w\<lparr>audit_logs := t\<rparr>)) \<and>
    (is_ok res \<longrightarrow> (\<exists>u. authenticates env email password w u \<and>
      res = Inr \<lparr>access_token = access_for env io (u_id u) w, refresh_token = io_refresh io\<rparr> \<and>
      tokens w' = tokens w @ [issued_row env io (u_id u) context (next_id (refresh_tokens w))])) \<and>
    users w' = users w"
proof (cases "\<exists>u. authenticates env email password w u")
  case False
  then show ?thesis using login_invalid [OF False] assms audit_record_frame by auto
next
  case True
  then obtain u where u: "authenticates env email password w u" ..
  obtain r w1 where i: "issue_token_pair env io (u_id u) (io_family io) None context w = (r, w1)"
    by (cases "issue_token_pair env io (u_id u) (io_family io) None context w")
  then have "users w1 = users w" using issue_token_pair_frame [OF i] by auto
  then have frame: "users w' = users w"
    using assms [unfolded login_valid [OF u] i] by (cases r) auto
  show ?thesis
  proof (cases r)
    case (Inl e)
    then show ?thesis using assms [unfolded login_valid [OF u] i] u frame by auto
  next
    case (Inr pair)
    have "res = Inr pair" "tokens w' = tokens w1"
      using assms [unfolded login_valid [OF u] i] Inr by auto
    with issue_token_pair_Inr [OF i [unfolded Inr]] u frame show ?thesis by auto
  qed
qed

theorem login_requires_credentials_witness:
  "fst (login sample_env (sample_io ''t'') ''ann@x.io'' ''wrong'' sample_context sample_world) =
    Inl (raise_domain InvalidCredentials) \<and>
   fst (login sample_env (sample_io ''t'') ''ann@x.io'' ''ann@x.io'' sample_context sample_world) =
    Inr \<lparr>access_token = ''2'', refresh_token = ''t''\<rparr>" (is "?wrong \<and> ?right")
proof
  have "\<nexists>u. authenticates sample_env ''ann@x.io'' ''wrong'' sample_world u"
    by (auto simp: authenticates_def sample_env_def sample_world_def sample_defs
        normalize_email_def lower_def lower_char_def is_upper_char_def)
  then show ?wrong
    using login_requires_credentials [of sample_env "sample_io ''t''"
      "''ann@x.io''" "''wrong''" sample_context sample_world, OF surjective_pairing] by blast
  let ?u = "sample_user 2 ''ann@x.io''"
  let ?l = "login sample_env (sample_io ''t'') ''ann@x.io'' ''ann@x.io'' sample_context sample_world"
  have u: "u_id ?u = 2" by (simp add: sample_user_def)
  obtain w1 p where "issue_token_pair sample_env (sample_io ''t'') (u_id ?u)
      (io_family (sample_io ''t'')) None sample_context sample_world = (Inr p, w1)"
    using issue_token_pair_ok [OF sample_issuable] authenticates_user [OF sample_authenticates] by blast
  then have "is_ok (fst ?l)" by (simp add: login_valid [OF sample_authenticates])
  then obtain v where v: "authenticates sample_env ''ann@x.io'' ''ann@x.io'' sample_world v"
    "fst ?l = Inr \<lparr>access_token = access_for sample_env (sample_io ''t'') (u_id v) sample_world,
      refresh_token = io_refresh (sample_io ''t'')\<rparr>"
    using login_requires_credentials [of sample_env "sample_io ''t''"
      "''ann@x.io''" "''ann@x.io''" sample_context sample_world, OF surjective_pairing] by blast
  have "v = ?u" using v(1) sample_authenticates by (simp add: authenticates_def)
  with v(2) show ?right by (simp add: u sample_access) (simp add: sample_io_def)
qed

text \<open>
  What a login gives: for an active user with the right password, when the random token is
  fresh, the address storable and the clock within range, login answers with a pair whose refresh
  token is stored, live, for that user, in a family of its own with the configured expiry and the
  request's device, and whose access token is signed for the roles and permissions of the database;
  every other token row stays as it was.
\<close>

theorem login_issues_tokens:
  assumes "authenticates env email password w u" "issuable env io context w"
  shows "\<exists>w'. login env io email password context w =
      (Inr \<lparr>access_token = access_for env io (u_id u) w, refresh_token = io_refresh io\<rparr>, w') \<and>
    tokens w' = tokens w @ [issued_row env io (u_id u) context (next_id (refresh_tokens w))] \<and>
    token_by_hash (hash_refresh_token (env_sha env) (io_refresh io)) w' =
      Some (issued_row env io (u_id u) context (next_id (refresh_tokens w)))"
proof -
  obtain w1 where i: "issue_token_pair env io (u_id u) (io_family io) None context w =
      (Inr \<lparr>access_token = access_for env io (u_id u) w, refresh_token = io_refresh io\<rparr>, w1)"
    "tokens w1 = tokens w @ [issued_row env io (u_id u) context (next_id (refresh_tokens w))]"
    using issue_token_pair_ok [OF assms(2)] authenticates_user [OF assms(1)] by blast
  have "\<forall>t \<in> set (tokens w). t_token_hash t \<noteq> hash_refresh_token (env_sha env) (io_refresh io)"
    using assms(2) unfolding issuable_def by (metis imageI)
  then show ?thesis
    using i by (auto simp: login_valid [OF assms(1)] token_by_hash_def issued_row_def)
qed

theorem login_issues_tokens_witness:
  "fst (login sample_env (sample_io ''t'') ''ann@x.io'' ''ann@x.io'' sample_context sample_world) =
    Inr \<lparr>access_token = ''2'', refresh_token = ''t''\<rparr>"
proof -
  have "u_id (sample_user 2 ''ann@x.io'') = 2" by (simp add: sample_user_def)
  then show ?thesis
    using login_issues_tokens [OF sample_authenticates sample_issuable, of "''t''"]
    by (auto simp: sample_access) (simp add: sample_io_def)
qed

text \<open>
  C19. Replay of a refresh token: presenting a revoked token is answered with \<open>TokenReused\<close>, leaves
  no live token in its family, and, when Redis answers, every access token of its user issued before
  the request is refused for as long as such a token could still be valid.
\<close>

theorem refresh_replay:
  assumes "token_by_hash (hash_refresh_token (env_sha env) raw) w = Some t" "\<not> active t"
    and "datetime_ok (io_now io + cfg_refresh_lifetime env)" "datetime_ok (io_now io)"
    and "refresh env io raw context w = (res, w')"
  shows "res = Inl (raise_domain TokenReused) \<and>
    (\<forall>u \<in> set (tokens w'). t_family_id u = t_family_id t \<longrightarrow> \<not> active u) \<and>
    (io_redis io \<longrightarrow> (\<forall>jti iat now. iat < io_now io \<longrightarrow>
       now < io_redis_at io + access_token_ttl_seconds env * sec \<longrightarrow>
       is_blocked True jti (t_user_id t) iat now w'))"
proof -
  let ?w1 = "arevoke_family (t_family_id t) (io_now io) w"
  have w': "w' = close_session_of env io TOKEN_REUSE_DETECTED context
      (Some (refresh_token_dto_of t)) ?w1" "res = Inl (raise_domain TokenReused)"
    using assms(5) arotate_reused [of "rotation_for env io raw context" w t] assms(1,2)
    by (auto simp: refresh_after [OF assms(3)] after_rotation_def)
  have "\<forall>u \<in> set (tokens w'). t_family_id u = t_family_id t \<longrightarrow> \<not> active u"
    unfolding w'(1) by (auto simp: arevoke_family_def set_upd_where)
  moreover have "rt_user_id (refresh_token_dto_of t) = t_user_id t"
    by (simp add: refresh_token_dto_of_def)
  ultimately show ?thesis
    using w' close_session_blocks [where t = "refresh_token_dto_of t", OF _ assms(4)] by auto
qed

theorem refresh_replay_witness:
  "fst (refresh sample_env (sample_io ''r'') ''t'' sample_context (session_world (Some (5 * sec)))) =
    Inl (raise_domain TokenReused)"
  using refresh_replay [OF session_token, of "Some (5 * sec)" "sample_io ''r''", OF _ _ _ surjective_pairing]
  by (simp add: session_row_def sample_io_def sample_env_def datetime_ok_def)

text \<open>
  C23. Rotation through the service: a live, unexpired token presented from its device is exchanged:
  the answer is the new pair with an access token for the current roles and permissions, the
  presented token is revoked, and the one new row is live, for the same user and family, with the
  presented token as its parent.
\<close>

theorem refresh_rotates:
  assumes "db_ok w" "token_by_hash (hash_refresh_token (env_sha env) raw) w = Some t" "active t"
    and "io_now io < t_expires_at t"
    and "\<not> wrong_device (cfg_refresh_bind_device env) (rotation_for env io raw context) t"
    and "issuable env io context w" "\<not> too_long 64 (t_device_hash t)"
  shows "\<exists>w' u. refresh env io raw context w =
      (Inr \<lparr>access_token = access_for env io (t_user_id t) w, refresh_token = io_refresh io\<rparr>, w') \<and>
    tokens w' = consume_row (t_id t) (io_now io) (tokens w) @ [u] \<and>
    t_token_hash u = hash_refresh_token (env_sha env) (io_refresh io) \<and> active u \<and>
    t_user_id u = t_user_id t \<and> t_family_id u = t_family_id t \<and> t_parent_id u = Some (t_id t) \<and>
    t_expires_at u = io_now io + cfg_refresh_lifetime env"
  using assms by (rule refresh_rotates_tokens)

theorem refresh_rotates_witness:
  "fst (refresh sample_env (sample_io ''r'') ''t'' sample_context (session_world None)) =
    Inr \<lparr>access_token = ''2'', refresh_token = ''r''\<rparr>"
proof -
  have "\<not> wrong_device b rq (session_row None)" for b rq
    by (simp add: wrong_device_def session_row_def)
  moreover have "io_now (sample_io ''r'') < t_expires_at (session_row None)"
    "active (session_row None)" "\<not> too_long 64 (t_device_hash (session_row None))"
    by (simp_all add: session_row_def sample_io_def too_long_def)
  moreover have "t_user_id (session_row None) = 2" "io_refresh (sample_io ''r'') = ''r''"
    by (simp_all add: session_row_def sample_io_def)
  ultimately obtain w' where "refresh sample_env (sample_io ''r'') ''t'' sample_context
      (session_world None) = (Inr \<lparr>access_token = access_for sample_env (sample_io ''r'') 2
        (session_world None), refresh_token = ''r''\<rparr>, w')"
    using refresh_rotates [OF session_db_ok session_token _ _ _ session_issuable] by metis
  then show ?thesis by (simp add: sample_access)
qed

text \<open>
  Logging out of all sessions: afterwards no refresh token of the user is live, the tokens of
  other users are as they were, and, when Redis answers, every access token of the user issued
  before the request is refused for as long as such a token could still be valid.
\<close>

theorem logout_all_revokes:
  assumes "datetime_ok (io_now io)"
  shows "let w' = logout_all env io uid context w in
    (\<forall>u \<in> set (tokens w'). t_user_id u = uid \<longrightarrow> \<not> active u) \<and>
    filter (\<lambda>u. t_user_id u \<noteq> uid) (tokens w') = filter (\<lambda>u. t_user_id u \<noteq> uid) (tokens w) \<and>
    (io_redis io \<longrightarrow> (\<forall>jti iat now. iat < io_now io \<longrightarrow>
       now < io_redis_at io + access_token_ttl_seconds env * sec \<longrightarrow>
       is_blocked True jti uid iat now w'))"
proof -
  let ?w' = "logout_all env io uid context w"
  have tk: "tokens ?w' = upd_where (\<lambda>t. t_user_id t = uid \<and> active t)
      (\<lambda>t. t\<lparr>t_revoked_at := Some (io_now io)\<rparr>) (tokens w)"
    by (simp add: logout_all_def arevoke_user_def)
  have "redis ?w' = redis (revoke_user (io_redis io) uid (io_now io) (access_token_ttl_seconds env)
      (io_redis_at io) w)"
    by (simp add: logout_all_def)
  note blk = is_blocked_cong [OF this]
  have "is_blocked True jti uid iat now ?w'"
    if "io_redis io" "iat < io_now io" "now < io_redis_at io + access_token_ttl_seconds env * sec"
    for jti iat now
    unfolding blk is_blocked_iff using that assms by (intro disjI2) (simp add: bl.revoke_before)
  moreover have "filter (\<lambda>u. t_user_id u \<noteq> uid) (upd_where (\<lambda>t. t_user_id t = uid \<and> active t)
      (\<lambda>t. t\<lparr>t_revoked_at := Some (io_now io)\<rparr>) rs) = filter (\<lambda>u. t_user_id u \<noteq> uid) rs" for rs
    by (induction rs) auto
  then have "filter (\<lambda>u. t_user_id u \<noteq> uid) (tokens ?w') = filter (\<lambda>u. t_user_id u \<noteq> uid) (tokens w)"
    unfolding tk by simp
  moreover have "\<forall>u \<in> set (tokens ?w'). t_user_id u = uid \<longrightarrow> \<not> active u"
    unfolding tk ball_upd_where by simp
  ultimately show ?thesis unfolding Let_def by blast
qed

theorem logout_all_revokes_witness:
  "filter (\<lambda>u. t_user_id u = 2 \<and> active u)
     (tokens (logout_all sample_env (sample_io ''r'') 2 sample_context (session_world None))) = []"
proof -
  have "datetime_ok (io_now (sample_io ''r''))" by (simp add: sample_io_def datetime_ok_def)
  from logout_all_revokes [OF this] show ?thesis unfolding Let_def filter_empty_conv by blast
qed

text \<open>
  Registration: a new account has the normalized address and the hash of the password, is
  active and not staff, carries exactly the default role and so exactly that role's permissions,
  and no other account, role link or token changes.
\<close>

theorem register_creates:
  assumes "db_ok w" "register env io email password context record w = (Inr d, w')"
  shows "\<exists>role u. aget_role_by_name (cfg_default_user_role env) w = Some role \<and>
    rows (users w') = rows (users w) @ [u] \<and> d = user_dto_from_model u \<and> u_id u \<notin> user_ids w \<and>
    u_email u = normalize_email (env_normalize env) email \<and>
    u_password u = hash_password (env_make_password env) (io_salt io) password \<and>
    u_is_active u \<and> \<not> u_is_staff u \<and> \<not> u_is_superuser u \<and>
    user_role_ids (u_id u) w' = {rd_id role} \<and>
    aget_user_permission_codes (u_id u) w' = role_codes (rd_id role) w \<and>
    (\<forall>i. i \<noteq> u_id u \<longrightarrow> user_role_ids i w' = user_role_ids i w) \<and>
    refresh_tokens w' = refresh_tokens w"
proof -
  obtain role w1 where role: "aget_role_by_name (cfg_default_user_role env) w = Some role"
    and c: "acreate_user_with_role (env_normalize env) (io_now io) email
      (hash_password (env_make_password env) (io_salt io) password) (rd_id role) w = (Inr d, w1)"
    and w': "w' = (if record then audit_record env io 0
      (event REGISTER (context_for_user context d) True None) w1 else w1)"
    using assms(2) by (auto simp: register_def split: option.splits prod.splits sum.splits exn.splits)
  obtain u where u: "rows (users w1) = rows (users w) @ [u]" "d = user_dto_from_model u"
    "u_id u \<notin> user_ids w" "u_email u = normalize_email (env_normalize env) email"
    "u_password u = hash_password (env_make_password env) (io_salt io) password"
    "u_is_active u" "\<not> u_is_staff u" "\<not> u_is_superuser u" "user_role_ids (u_id u) w1 = {rd_id role}"
    "\<forall>i. i \<noteq> u_id u \<longrightarrow> user_role_ids i w1 = user_role_ids i w"
    "permissions w1 = permissions w" "role_permissions w1 = role_permissions w"
    "roles w1 = roles w" "refresh_tokens w1 = refresh_tokens w"
    using acreate_user_with_role_ok [OF assms(1) c] by blast
  have ok: "db_ok w1" using db_ok_create_user_with_role [OF assms(1) c] .
  have same: "user_role_ids i w' = user_role_ids i w1" "role_codes i w' = role_codes i w1"
    "users w' = users w1" "refresh_tokens w' = refresh_tokens w1" "db_ok w'" for i
    using ok by (simp_all add: w' user_role_ids_def role_codes_def db_ok_audit_record)
  have "aget_user_permission_codes (u_id u) w' = role_codes (rd_id role) w"
    unfolding permission_codes_union [OF same(5)] same u(9) by (simp add: role_codes_def u(11,12))
  with role u same show ?thesis by (intro exI [of _ role] exI [of _ u]) simp
qed

theorem register_creates_witness:
  "aget_user_permission_codes 3 (snd (register sample_env (sample_io ''t'') ''bob@x.io'' ''hunter22''
     sample_context True sample_world)) = role_codes 2 sample_world"
proof -
  let ?r = "register sample_env (sample_io ''t'') ''bob@x.io'' ''hunter22'' sample_context True sample_world"
  have ok: "db_ok sample_world" unfolding sample_world_def by (rule sample_db_ok)
  have "fst ?r = Inr \<lparr>ud_id = 3, ud_email = ''bob@x.io'', ud_is_active = True, ud_is_staff = False,
      ud_date_joined = 10 * sec\<rparr>"
    "aget_role_by_name (cfg_default_user_role sample_env) sample_world = Some \<lparr>rd_id = 2, rd_name = ''user''\<rparr>"
    by code_simp+
  then obtain d where "?r = (Inr d, snd ?r)" "ud_id d = 3"
    "aget_role_by_name (cfg_default_user_role sample_env) sample_world = Some \<lparr>rd_id = 2, rd_name = ''user''\<rparr>"
    by (metis prod.collapse user_dto.select_convs(1))
  then show ?thesis
    using register_creates [OF ok \<open>?r = (Inr d, snd ?r)\<close>] by (auto simp: user_dto_from_model_def)
qed

text \<open>
  A refused registration leaves no trace of itself: when it raises, every table has the rows it
  had, so there is no account without its role; an address that is taken, in any letter case, is
  answered with \<open>EmailAlreadyExists\<close>.
\<close>

theorem register_refused:
  assumes "register env io email password context record w = (res, w')"
  shows "(\<not> is_ok res \<longrightarrow> same_rows w w') \<and>
    (aget_role_by_name (cfg_default_user_role env) w \<noteq> None \<and>
     normalize_email (env_normalize env) email \<in> email_key ` set (rows (users w)) \<and>
     length (normalize_email (env_normalize env) email) \<le> 254 \<and>
     length (hash_password (env_make_password env) (io_salt io) password) \<le> 128 \<longrightarrow>
     res = Inl (raise_domain EmailAlreadyExists))"
proof (cases "aget_role_by_name (cfg_default_user_role env) w")
  case None
  then show ?thesis using assms by (auto simp: register_def same_rows_def)
next
  case (Some role)
  let ?e = "normalize_email (env_normalize env) email"
  let ?pw = "hash_password (env_make_password env) (io_salt io) password"
  obtain r w1 where c: "acreate_user_with_role (env_normalize env) (io_now io) email ?pw
      (rd_id role) w = (r, w1)"
    by (cases "acreate_user_with_role (env_normalize env) (io_now io) email ?pw (rd_id role) w")
  have 1: "same_rows w w1" if "r = Inl e" for e
    using c by (cases rule: create_with_role_cases) (use that in auto)
  have 2: "r = Inl IntegrityError"
    if dup: "?e \<in> email_key ` set (rows (users w))" "length ?e \<le> 254" "length ?pw \<le> 128"
  proof -
    obtain u where "u \<in> set (rows (users w))" "?e = email_key u"
      using dup(1) by blast
    then have "u \<in> set (rows (users w))" "lower (u_email u) = lower ?e" by simp_all
    then obtain s' where "create_user ?e ?pw True False False (io_now io) w = (Inl IntegrityError, s')"
      using create_user_duplicate dup(2,3) by blast
    then show ?thesis
      using c by (simp add: acreate_user_with_role_def run_in_transaction_def create_user_with_role_body_def)
  qed
  have 3: "res = (case r of Inl IntegrityError \<Rightarrow> Inl (raise_domain EmailAlreadyExists) | _ \<Rightarrow> r)"
    "\<not> is_ok r \<longrightarrow> w' = w1"
    using assms by (auto simp: register_def Some c split: sum.splits exn.splits)
  then show ?thesis using 1 2 by (cases r) (auto split: exn.splits)
qed

theorem register_refused_witness:
  "fst (register sample_env (sample_io ''t'') ''Ann@X.io'' ''hunter22'' sample_context True sample_world) =
    Inl (raise_domain EmailAlreadyExists)"
proof -
  have "aget_role_by_name (cfg_default_user_role sample_env) sample_world \<noteq> None"
    "normalize_email (env_normalize sample_env) ''Ann@X.io'' \<in> email_key ` set (rows (users sample_world))"
    "length (normalize_email (env_normalize sample_env) ''Ann@X.io'') \<le> 254"
    "length (hash_password (env_make_password sample_env) (io_salt (sample_io ''t'')) ''hunter22'') \<le> 128"
    by code_simp+
  then show ?thesis
    using register_refused [of sample_env "sample_io ''t''" "''Ann@X.io''" "''hunter22''"
      sample_context True sample_world, OF surjective_pairing] by blast
qed

end
