(* ===== verification/AdminService.thy ===== *)
theory AdminService
  imports AuthService
begin

text \<open>
  The administrative use cases of \<open>apps/accounts/services/admin.py\<close>, over the user and RBAC
  repositories, the registration of \<open>AuthService\<close>, the blocklist and the audit trail. The readings
  of the clock and of the random sources of a call come from \<open>io\<close>, as in \<open>AuthService\<close>.
\<close>

definition target_event ::
  "audit_action \<Rightarrow> audit_context \<Rightarrow> int \<Rightarrow> (string \<times> pyval) list option \<Rightarrow> audit_event" where
  "target_event action context uid md = (event action context True md)
     \<lparr>ev_target_type := Some ''user'', ev_target_id := Some (TargetInt uid)\<rparr>"

definition admin_create_user ::
  "'e env_scheme \<Rightarrow> io \<Rightarrow> string \<Rightarrow> string \<Rightarrow> audit_context \<Rightarrow> 'z world_scheme \<Rightarrow>
     (exn + user_dto) \<times> 'z world_scheme" where
  "admin_create_user env io email password context w =
     (case register env io email password context False w of
        (Inl e, w1) \<Rightarrow> (Inl e, w1)
      | (Inr u, w1) \<Rightarrow>
          (Inr u, audit_record env io 0 (target_event A_USER_CREATE context (ud_id u) None) w1))"

definition user_not_found :: exn where
  "user_not_found = domain_error ResourceNotFound (Some ''User not found.'')"

definition role_not_found :: exn where
  "role_not_found = domain_error ResourceNotFound (Some ''Role not found.'')"

definition get_user :: "int \<Rightarrow> 'z db_scheme \<Rightarrow> exn + user_dto" where
  "get_user uid s = (case aget_by_id uid s of None \<Rightarrow> Inl user_not_found | Some u \<Rightarrow> Inr u)"

definition list_users :: "int \<Rightarrow> int \<Rightarrow> 'z db_scheme \<Rightarrow> exn + user_dto list \<times> int" where
  "list_users offset limit s = bind_sum (user_alist offset limit s) (\<lambda>us. Inr (us, user_acount s))"

definition list_roles :: "int \<Rightarrow> int \<Rightarrow> 'z db_scheme \<Rightarrow> exn + role_dto list \<times> int" where
  "list_roles offset limit s = bind_sum (alist_roles offset limit s) (\<lambda>rs. Inr (rs, acount_roles s))"

definition list_permissions :: "int \<Rightarrow> int \<Rightarrow> 'z db_scheme \<Rightarrow> exn + permission_dto list \<times> int" where
  "list_permissions offset limit s =
     bind_sum (alist_permissions offset limit s) (\<lambda>ps. Inr (ps, acount_permissions s))"

definition list_audit_logs ::
  "int \<Rightarrow> int \<Rightarrow> audit_query \<Rightarrow> 'z db_scheme \<Rightarrow> exn + audit_log_dto list \<times> int" where
  "list_audit_logs offset limit q s = audit_alist offset limit q s"

text \<open>\<open>fields\<close>, the columns an update sets, and the names of its keys in sorted order.\<close>

definition update_fields ::
  "'e env_scheme \<Rightarrow> io \<Rightarrow> string option \<Rightarrow> string option \<Rightarrow> bool option \<Rightarrow> user_fields" where
  "update_fields env io email password is_active =
     no_fields\<lparr>f_email := email,
       f_password := map_option (hash_password (env_make_password env) (io_salt io)) password,
       f_is_active := is_active\<rparr>"

definition changed_fields :: "user_fields \<Rightarrow> string list" where
  "changed_fields f =
     (if f_email f = None then [] else [''email'']) @
     (if f_is_active f = None then [] else [''is_active'']) @
     (if f_password f = None then [] else [''password''])"

definition admin_access_token_ttl_seconds :: "'e env_scheme \<Rightarrow> int" where
  "admin_access_token_ttl_seconds env = max 1 (cfg_access_lifetime env div sec)"

text \<open>The copy in \<open>accounts/services/admin.py\<close> agrees with the one of \<open>authz/services/auth.py\<close>.\<close>

lemma admin_ttl [simp]: "admin_access_token_ttl_seconds env = access_token_ttl_seconds env"
  by (simp add: admin_access_token_ttl_seconds_def access_token_ttl_seconds_def)

definition update_user ::
  "'e env_scheme \<Rightarrow> io \<Rightarrow> int \<Rightarrow> string option \<Rightarrow> string option \<Rightarrow> bool option \<Rightarrow> audit_context \<Rightarrow>
     'z world_scheme \<Rightarrow> (exn + user_dto) \<times> 'z world_scheme" where
  "update_user env io uid email password is_active context w =
     (let flds = update_fields env io email password is_active
      in if flds = no_fields then (get_user uid w, w)
         else case user_aupdate (env_normalize env) uid flds w of
           (Inl IntegrityError, w1) \<Rightarrow> (Inl (raise_domain EmailAlreadyExists), w1)
         | (Inl e, w1) \<Rightarrow> (Inl e, w1)
         | (Inr None, w1) \<Rightarrow> (Inl user_not_found, w1)
         | (Inr (Some u), w1) \<Rightarrow>
             (let w2 = (if is_active = Some False
                        then revoke_user (io_redis io) (ud_id u) (io_now io)
                          (admin_access_token_ttl_seconds env) (io_redis_at io) w1
                        else w1)
              in (Inr u, audit_record env io 0 (target_event A_USER_UPDATE context (ud_id u)
                    (Some [(''changed_fields'', PList (map PStr (changed_fields flds)))])) w2)))"

definition delete_user ::
  "'e env_scheme \<Rightarrow> io \<Rightarrow> int \<Rightarrow> audit_context \<Rightarrow> 'z world_scheme \<Rightarrow> (exn + unit) \<times> 'z world_scheme" where
  "delete_user env io uid context w =
     (case user_adelete uid w of
        (False, w1) \<Rightarrow> (Inl user_not_found, w1)
      | (True, w1) \<Rightarrow>
          (Inr (), audit_record env io 0 (target_event A_USER_DELETE context uid None) w1))"

definition assign_role ::
  "'e env_scheme \<Rightarrow> io \<Rightarrow> int \<Rightarrow> int \<Rightarrow> audit_context \<Rightarrow> 'z world_scheme \<Rightarrow>
     (exn + unit) \<times> 'z world_scheme" where
  "assign_role env io uid rid context w =
     (case get_user uid w of
        Inl e \<Rightarrow> (Inl e, w)
      | Inr _ \<Rightarrow>
          (case aget_role_by_id rid w of
             None \<Rightarrow> (Inl role_not_found, w)
           | Some role \<Rightarrow>
               (case aassign_role uid (rd_id role) w of
                  (Inl e, w1) \<Rightarrow> (Inl e, w1)
                | (Inr _, w1) \<Rightarrow>
                    (Inr (), audit_record env io 0 (target_event A_ROLE_ASSIGN context uid
                       (Some [(''role_id'', PInt (rd_id role)),
                              (''role_name'', PStr (rd_name role))])) w1))))"

subsection \<open>Updating an account\<close>

lemma set_fields_email_only [simp]:
  "u_email (set_fields f u) = dflt (u_email u) (f_email f)"
  "u_password (set_fields f u) = dflt (u_password u) (f_password f)"
  "u_is_active (set_fields f u) = dflt (u_is_active u) (f_is_active f)"
  "u_is_staff (set_fields f u) = dflt (u_is_staff u) (f_is_staff f)"
  "u_is_superuser (set_fields f u) = dflt (u_is_superuser u) (f_is_superuser f)"
  "u_date_joined (set_fields f u) = u_date_joined u"
  by (simp_all add: set_fields_def)

lemma update_fields_simps [simp]:
  "f_email (update_fields env io e p a) = e"
  "f_password (update_fields env io e p a) =
     map_option (hash_password (env_make_password env) (io_salt io)) p"
  "f_is_active (update_fields env io e p a) = a"
  "f_is_staff (update_fields env io e p a) = None"
  "f_is_superuser (update_fields env io e p a) = None"
  by (simp_all add: update_fields_def no_fields_def)

lemma user_fields_eq_iff:
  "f = no_fields \<longleftrightarrow> f_email f = None \<and> f_password f = None \<and> f_is_active f = None \<and>
     f_is_staff f = None \<and> f_is_superuser f = None"
  by (cases f) (auto simp: no_fields_def)

lemma normalize_fields_simps [simp]:
  "f_email (normalize_fields dj f) = map_option (normalize_email dj) (f_email f)"
  "f_password (normalize_fields dj f) = f_password f"
  "f_is_active (normalize_fields dj f) = f_is_active f"
  "f_is_staff (normalize_fields dj f) = f_is_staff f"
  "f_is_superuser (normalize_fields dj f) = f_is_superuser f"
  by (simp_all add: normalize_fields_def)

lemma normalize_fields_none [simp]: "normalize_fields dj f = no_fields \<longleftrightarrow> f = no_fields"
  by (simp add: user_fields_eq_iff)

text \<open>The three ways an update of one user by id ends.\<close>

lemma user_aupdate_cases:
  assumes "users_ok s" "f \<noteq> no_fields" "user_aupdate dj uid f s = (res, s')"
  obtains (refused) e where "res = Inl e" "s' = s"
      "user_update_check (upd_where (\<lambda>u. u_id u = uid) (set_fields (normalize_fields dj f))
         (rows (users s))) = Some e"
    | (missing) "res = Inr None" "uid \<notin> user_ids s" "rows (users s') = rows (users s)"
    | (updated) u where "u \<in> set (rows (users s))" "u_id u = uid"
      "res = Inr (Some (user_dto_from_model (set_fields (normalize_fields dj f) u)))"
      "rows (users s') = upd_where (\<lambda>u. u_id u = uid) (set_fields (normalize_fields dj f))
         (rows (users s))"
proof -
  let ?g = "set_fields (normalize_fields dj f)" and ?p = "\<lambda>u. u_id u = uid"
  let ?rs = "upd_where ?p ?g (rows (users s))"
  have eq: "user_aupdate dj uid f s = (case user_update_check ?rs of
      Some e \<Rightarrow> (Inl e, s)
    | None \<Rightarrow> let s1 = s\<lparr>users := (users s)\<lparr>rows := ?rs\<rparr>\<rparr> in
        (if filter ?p (rows (users s)) = [] then (Inr None, s1) else (Inr (aget_by_id uid s1), s1)))"
    using assms(2) by (simp add: user_aupdate_def update_users_def tbl_update_def Let_def
        split: option.split)
  show thesis
  proof (cases "user_update_check ?rs")
    case (Some e)
    with eq assms(3) refused show thesis by simp
  next
    case None
    let ?s1 = "s\<lparr>users := (users s)\<lparr>rows := ?rs\<rparr>\<rparr>"
    show thesis
    proof (cases "uid \<in> user_ids s")
      case False
      then have "filter ?p (rows (users s)) = []" "?rs = rows (users s)"
        by (auto simp: filter_empty_conv intro!: upd_where_id)
      with None eq assms(3) False missing show thesis by simp
    next
      case True
      then obtain u where u: "u \<in> set (rows (users s))" "u_id u = uid" by auto
      have "map u_id ?rs = map u_id (rows (users s))" by (simp add: map_upd_where)
      then have "distinct (map u_id (rows (users ?s1)))"
        using assms(1) by (simp add: users_ok_def ids_ok_def)
      moreover have "?g u \<in> set (rows (users ?s1))" using u by (force simp: set_upd_where)
      ultimately have "user_by_id uid ?s1 = Some (?g u)"
        unfolding user_by_id_def using u(2) first_key_iff [of u_id "rows (users ?s1)" uid "?g u"] by simp
      moreover have "filter ?p (rows (users s)) \<noteq> []" using u by (auto simp: filter_empty_conv)
      ultimately show thesis
        using None eq assms(3) u updated by (simp add: aget_by_id_def)
    qed
  qed
qed

lemma aget_by_id_Some: "aget_by_id uid s = Some d \<Longrightarrow> uid \<in> user_ids s"
  by (metis aget_by_id_None option.distinct(1))

lemma get_user_missing: "uid \<notin> user_ids s \<Longrightarrow> get_user uid s = Inl user_not_found"
  unfolding get_user_def using iffD2 [OF aget_by_id_None] by (metis option.case(1))

lemma get_user_found:
  assumes "uid \<in> user_ids s"
  obtains d where "get_user uid s = Inr d"
proof -
  obtain d where "aget_by_id uid s = Some d" using assms aget_by_id_None by fast
  then show thesis using that by (simp add: get_user_def)
qed

lemma users_update_check_ok:
  "users_ok s \<Longrightarrow> user_update_check (rows (users s)) = None"
  by (simp add: users_ok_def user_update_check_def)

lemma update_user_cases:
  assumes "users_ok w" "update_user env io uid email password act context w = (res, w')"
  obtains (unchanged) "update_fields env io email password act = no_fields"
      "res = get_user uid w" "w' = w"
    | (refused) e where "res = Inl (if e = IntegrityError then raise_domain EmailAlreadyExists else e)"
      "w' = w" "user_update_check (upd_where (\<lambda>u. u_id u = uid)
        (set_fields (normalize_fields (env_normalize env) (update_fields env io email password act)))
        (rows (users w))) = Some e"
    | (missing) "res = Inl user_not_found" "uid \<notin> user_ids w" "same_rows w w'"
      "user_aupdate (env_normalize env) uid (update_fields env io email password act) w = (Inr None, w')"
    | (updated) u w1 ev where "user_aupdate (env_normalize env) uid
         (update_fields env io email password act) w = (Inr (Some (user_dto_from_model (set_fields
           (normalize_fields (env_normalize env) (update_fields env io email password act)) u))), w1)"
      and "u \<in> set (rows (users w))" "u_id u = uid"
      "res = Inr (user_dto_from_model (set_fields (normalize_fields (env_normalize env)
         (update_fields env io email password act)) u))"
      "rows (users w1) = upd_where (\<lambda>u. u_id u = uid) (set_fields (normalize_fields (env_normalize env)
         (update_fields env io email password act))) (rows (users w))"
      "\<exists>t. w1 = w\<lparr>users := t\<rparr>"
      "w' = audit_record env io 0 ev (if act = Some False
         then revoke_user (io_redis io) uid (io_now io) (access_token_ttl_seconds env) (io_redis_at io) w1
         else w1)"
proof (cases "update_fields env io email password act = no_fields")
  case True
  have "update_user env io uid email password act context w = (get_user uid w, w)"
    unfolding update_user_def admin_ttl Let_def True by simp
  with assms(2) have "res = get_user uid w" "w' = w" by auto
  with True show thesis by (rule unchanged)
next
  case False
  let ?f = "update_fields env io email password act"
  obtain r w1 where a: "user_aupdate (env_normalize env) uid ?f w = (r, w1)"
    by (cases "user_aupdate (env_normalize env) uid ?f w")
  obtain t where t: "w1 = w\<lparr>users := t\<rparr>" using user_aupdate_frame [OF a] by blast
  from assms(1) False a show thesis
  proof (cases rule: user_aupdate_cases)
    case (refused e)
    have "update_user env io uid email password act context w =
        (Inl (if e = IntegrityError then raise_domain EmailAlreadyExists else e), w)"
      unfolding update_user_def admin_ttl Let_def a refused(1,2) if_not_P [OF False]
      by (cases e) simp_all
    with assms(2) have "res = Inl (if e = IntegrityError then raise_domain EmailAlreadyExists else e)"
      "w' = w" by auto
    from this refused(3) show thesis by (rule that(2))
  next
    case missing
    have "update_user env io uid email password act context w = (Inl user_not_found, w1)"
      unfolding update_user_def admin_ttl Let_def a missing(1) if_not_P [OF False] by simp
    with assms(2) missing(1,2,3) a t show thesis by (intro that(3)) (auto simp: same_rows_def)
  next
    case (updated u)
    let ?d = "user_dto_from_model (set_fields (normalize_fields (env_normalize env) ?f) u)"
    let ?ev = "target_event A_USER_UPDATE context uid
      (Some [(''changed_fields'', PList (map PStr (changed_fields ?f)))])"
    have id: "ud_id ?d = uid" using updated(2) by (simp add: user_dto_from_model_def)
    have "update_user env io uid email password act context w =
        (Inr ?d, audit_record env io 0 ?ev (if act = Some False
           then revoke_user (io_redis io) uid (io_now io) (access_token_ttl_seconds env) (io_redis_at io) w1
           else w1))"
      unfolding update_user_def admin_ttl Let_def a updated(3) if_not_P [OF False] prod.case sum.case
        option.case id ..
    with assms(2) have "res = Inr ?d" "w' = audit_record env io 0 ?ev (if act = Some False
        then revoke_user (io_redis io) uid (io_now io) (access_token_ttl_seconds env) (io_redis_at io) w1
        else w1)" by auto
    with updated(1,2,4) a [unfolded updated(3)] t show thesis by (intro that(4)) blast+
  qed
qed

text \<open>What reads only the RBAC tables.\<close>

lemma codes_cong:
  assumes "permissions s = permissions s'" "roles s = roles s'" "user_roles s = user_roles s'"
    "role_permissions s = role_permissions s'"
  shows "aget_user_permission_codes i s = aget_user_permission_codes i s'"
    "aget_user_role_names i s = aget_user_role_names i s'"
  using assms by (simp_all add: aget_user_permission_codes_def aget_user_role_names_def has_role_def)

lemma role_codes_cong:
  "permissions s = permissions s' \<Longrightarrow> role_permissions s = role_permissions s' \<Longrightarrow>
    role_codes rid s = role_codes rid s'"
  by (simp add: role_codes_def)

lemma db_ok_update_user [inv_pres]:
  assumes "db_ok w" "update_user env io uid email password act context w = (res, w')"
  shows "db_ok w'"
proof -
  have "users_ok w" using assms(1) by (simp add: db_ok_def)
  from this assms(2) show ?thesis
  proof (cases rule: update_user_cases)
    case missing
    then show ?thesis using db_ok_user_aupdate [OF assms(1)] by blast
  next
    case (updated u w1 ev)
    have "db_ok w1" using db_ok_user_aupdate [OF assms(1) updated(1)] .
    then show ?thesis using updated(7) by (auto intro: inv_pres)
  qed (use assms(1) in simp_all)
qed

lemma update_user_frame:
  assumes "users_ok w" "update_user env io uid email password act context w = (res, w')"
  shows "tokens w' = tokens w \<and> user_roles w' = user_roles w \<and> permissions w' = permissions w \<and>
    roles w' = roles w \<and> role_permissions w' = role_permissions w \<and>
    refresh_tokens w' = refresh_tokens w"
  using assms by (cases rule: update_user_cases) (auto dest!: user_aupdate_frame)

text \<open>The columns an update sets, in the words of its parameters.\<close>

lemma set_update_fields:
  "set_fields (normalize_fields dj (update_fields env io email password act)) = (\<lambda>u. u\<lparr>
     u_email := (case email of None \<Rightarrow> u_email u | Some e \<Rightarrow> normalize_email dj e),
     u_password := (case password of None \<Rightarrow> u_password u
       | Some p \<Rightarrow> hash_password (env_make_password env) (io_salt io) p),
     u_is_active := (case act of None \<Rightarrow> u_is_active u | Some b \<Rightarrow> b)\<rparr>)"
  by (rule ext) (simp add: set_fields_def dflt_def split: option.split)

lemma refused_update_known:
  assumes "users_ok w" "user_update_check (upd_where (\<lambda>u. u_id u = uid) g (rows (users w))) = Some e"
  shows "uid \<in> user_ids w"
proof (rule ccontr)
  assume "uid \<notin> user_ids w"
  then have "upd_where (\<lambda>u. u_id u = uid) g (rows (users w)) = rows (users w)"
    by (auto intro!: upd_where_id)
  with assms(2) users_update_check_ok [OF assms(1)] show False by simp
qed

lemma email_key_unique:
  assumes "users_ok s" "u \<in> set (rows (users s))" "v \<in> set (rows (users s))" "email_key u = email_key v"
  shows "u = v"
proof -
  have "inj_on email_key (set (rows (users s)))" using assms(1) by (simp add: users_ok_def distinct_map)
  with assms(2-4) show ?thesis by (meson inj_onD)
qed

text \<open>An update that leaves the address and the password alone meets no constraint.\<close>

lemma flag_update_accepted:
  assumes "users_ok w"
  shows "user_update_check (upd_where (\<lambda>u. u_id u = uid) (set_fields (normalize_fields dj
    (update_fields env io None None act))) (rows (users w))) = None"
proof -
  let ?rs = "upd_where (\<lambda>u. u_id u = uid) (set_fields (normalize_fields dj
    (update_fields env io None None act))) (rows (users w))"
  have "map email_key ?rs = map email_key (rows (users w))" by (rule map_upd_where) simp
  moreover have "list_all user_fits ?rs \<longleftrightarrow> list_all user_fits (rows (users w))"
    unfolding list_all_iff by (rule ball_upd_where_same) (simp add: user_fits_def)
  ultimately show ?thesis using assms by (simp add: user_update_check_def users_ok_def)
qed

subsection \<open>Properties of account administration\<close>

text \<open>
  Updating an account: on a consistent database a successful update sets exactly the given
  columns of that one account (the address normalized, the password hashed), leaves every other
  account as it was and answers with the account as now stored; an unknown account gives
  \<open>ResourceNotFound\<close>; an address another account has, in any letter case, gives
  \<open>EmailAlreadyExists\<close>; and a refused update changes no row.
\<close>

theorem update_user_applies:
  assumes "db_ok w" "update_user env io uid email password act context w = (res, w')"
  shows "(\<forall>d. res = Inr d \<longrightarrow> uid \<in> user_ids w \<and> aget_by_id uid w' = Some d \<and>
      rows (users w') = upd_where (\<lambda>u. u_id u = uid) (\<lambda>u. u\<lparr>
         u_email := (case email of None \<Rightarrow> u_email u | Some e \<Rightarrow> normalize_email (env_normalize env) e),
         u_password := (case password of None \<Rightarrow> u_password u
            | Some p \<Rightarrow> hash_password (env_make_password env) (io_salt io) p),
         u_is_active := (case act of None \<Rightarrow> u_is_active u | Some b \<Rightarrow> b)\<rparr>) (rows (users w))) \<and>
    (uid \<notin> user_ids w \<longrightarrow> res = Inl user_not_found) \<and>
    (\<not> is_ok res \<longrightarrow> same_rows w w') \<and>
    (\<forall>e v. email = Some e \<and> v \<in> set (rows (users w)) \<and> u_id v \<noteq> uid \<and> uid \<in> user_ids w \<and>
       email_key v = normalize_email (env_normalize env) e \<longrightarrow> \<not> is_ok res)"
proof -
  let ?g = "set_fields (normalize_fields (env_normalize env) (update_fields env io email password act))"
  have users: "users_ok w" using assms(1) by (simp add: db_ok_def)
  from users assms(2) show ?thesis
  proof (cases rule: update_user_cases)
    case unchanged
    then have none: "email = None" "password = None" "act = None"
      by (simp_all add: user_fields_eq_iff)
    then have "?g = (\<lambda>u. u)" unfolding set_update_fields by simp
    then show ?thesis
      unfolding set_update_fields [symmetric] using unchanged(2,3) none
      by (auto simp: get_user_def upd_where_def same_rows_def split: option.splits dest: aget_by_id_Some)
  next
    case (refused e)
    with refused_update_known [OF users refused(3)] show ?thesis by (simp add: same_rows_def)
  next
    case missing
    then show ?thesis by simp
  next
    case (updated u w1 ev)
    have rows: "rows (users w') = upd_where (\<lambda>u. u_id u = uid) ?g (rows (users w))"
      using updated(5) by (simp add: updated(7))
    have ok: "users_ok w'" using db_ok_update_user [OF assms] by (simp add: db_ok_def)
    have in': "?g u \<in> set (rows (users w'))" unfolding rows using updated(2,3) by (force simp: set_upd_where)
    have "user_by_id uid w' = Some (?g u)"
      using in' updated(3) by (simp add: user_by_id_iff [OF ok])
    moreover have "False" if "email = Some e" "v \<in> set (rows (users w))" "u_id v \<noteq> uid"
      "email_key v = normalize_email (env_normalize env) e" for e v
    proof -
      have "v \<in> set (rows (users w'))" unfolding rows using that(2,3) by (force simp: set_upd_where)
      then have "?g u = v" using that(1,4) by (intro email_key_unique [OF ok in']) simp_all
      with that(3) updated(3) show False by (metis set_fields_id)
    qed
    ultimately show ?thesis
      unfolding set_update_fields [symmetric] using updated(2,3,4) rows by (auto simp: aget_by_id_def)
  qed
qed

text \<open>Deactivating the user 2 of the sample database.\<close>

abbreviation deactivate :: "world \<Rightarrow> (exn + user_dto) \<times> world" where
  "deactivate \<equiv> update_user sample_env (sample_io ''d'') 2 None None (Some False) sample_context"

theorem update_user_applies_witness:
  "fst (update_user sample_env (sample_io ''d'') 9 None None (Some False) sample_context
     (session_world None)) = Inl user_not_found"
proof -
  have "9 \<notin> user_ids (session_world None)"
    by (simp add: session_world_def sample_world_def sample_defs)
  then show ?thesis
    using update_user_applies [OF session_db_ok, OF surjective_pairing] by metis
qed

text \<open>
  C15. Deactivation locks the account out: when an administrator deactivates an existing account and
  Redis answers, no login identifies that user any more, and every access token issued to the user
  before is refused for as long as it could still be valid.
\<close>

theorem deactivation_locks_out:
  assumes "db_ok w" "uid \<in> user_ids w" "io_redis io" "datetime_ok (io_now io)"
    and "update_user env io uid None None (Some False) context w = (res, w')"
  shows "is_ok res \<and> (\<nexists>u pw e. authenticates env e pw w' u \<and> u_id u = uid) \<and>
    (\<forall>jti iat now. iat < io_now io \<longrightarrow> now < io_redis_at io + access_token_ttl_seconds env * sec \<longrightarrow>
       is_blocked True jti uid iat now w')"
proof -
  have users: "users_ok w" using assms(1) by (simp add: db_ok_def)
  from users assms(5) show ?thesis
  proof (cases rule: update_user_cases)
    case unchanged
    then show ?thesis by (simp add: user_fields_eq_iff)
  next
    case (refused e)
    with flag_update_accepted [OF users, of uid "env_normalize env" env io "Some False"]
    show ?thesis by simp
  next
    case missing
    with assms(2) show ?thesis by simp
  next
    case (updated u w1 ev)
    have w': "users w' = users w1" by (simp add: updated(7))
    have "\<not> u_is_active v" if v: "v \<in> set (rows (users w'))" "u_id v = uid" for v
    proof -
      obtain x where "v = (if u_id x = uid then set_fields (normalize_fields (env_normalize env)
          (update_fields env io None None (Some False))) x else x)"
        using v(1) unfolding w' updated(5) set_upd_where by blast
      with v(2) show ?thesis by (auto split: if_splits)
    qed
    then have "\<not> (authenticates env e pw w' v \<and> u_id v = uid)" for v pw e
      using authenticates_user [of env e pw w' v] unfolding authenticates_def by blast
    then have "\<nexists>u pw e. authenticates env e pw w' u \<and> u_id u = uid" by blast
    moreover have "is_blocked True jti uid iat now w'"
      if "iat < io_now io" "now < io_redis_at io + access_token_ttl_seconds env * sec" for jti iat now
    proof -
      have "is_blocked True jti uid iat now (revoke_user True uid (io_now io)
          (access_token_ttl_seconds env) (io_redis_at io) w1)"
        unfolding is_blocked_iff using assms(4) that by (intro disjI2 bl.revoke_before) simp_all
      then show ?thesis using updated(7) assms(3) by (simp cong: is_blocked_cong)
    qed
    ultimately show ?thesis using updated(4) by simp
  qed
qed

theorem deactivation_locks_out_witness:
  "is_blocked True ''j'' 2 (9 * sec) (20 * sec) (snd (deactivate (session_world None)))"
proof -
  have "2 \<in> user_ids (session_world None)" "io_redis (sample_io ''d'')"
    "datetime_ok (io_now (sample_io ''d''))" "9 * sec < io_now (sample_io ''d'')"
    "20 * sec < io_redis_at (sample_io ''d'') + access_token_ttl_seconds sample_env * sec"
    by (simp_all add: session_world_def sample_world_def sample_defs sample_io_def datetime_ok_def
        access_token_ttl_seconds_def sample_env_def)
  with deactivation_locks_out [OF session_db_ok this(1-3), OF surjective_pairing]
  show ?thesis by blast
qed

text \<open>
  C33. What deactivation leaves behind: the refresh tokens of a deactivated user stay live, so a token
  that was live, unexpired and presented from its device before the deactivation is still exchanged
  after it for a new pair, whose access token carries the user's roles and permissions.
\<close>

theorem deactivation_keeps_sessions:
  assumes "db_ok w" "token_by_hash (hash_refresh_token (env_sha env) raw) w = Some t" "active t"
    and "io_now io < t_expires_at t"
    and "\<not> wrong_device (cfg_refresh_bind_device env) (rotation_for env io raw context) t"
    and "issuable env io context w" "\<not> too_long 64 (t_device_hash t)"
    and "update_user env io' (t_user_id t) None None (Some False) context' w = (res, w1)"
  shows "\<exists>w2. refresh env io raw context w1 =
    (Inr \<lparr>access_token = access_for env io (t_user_id t) w, refresh_token = io_refresh io\<rparr>, w2)"
proof -
  have "users_ok w" using assms(1) by (simp add: db_ok_def)
  from update_user_frame [OF this assms(8)]
  have same: "refresh_tokens w1 = refresh_tokens w" "roles w1 = roles w" "user_roles w1 = user_roles w"
    "permissions w1 = permissions w" "role_permissions w1 = role_permissions w" by simp_all
  have "token_by_hash (hash_refresh_token (env_sha env) raw) w1 = Some t"
    using assms(2) by (simp add: token_by_hash_def same)
  moreover have "issuable env io context w1" using assms(6) by (simp add: issuable_def same)
  moreover have "access_for env io (t_user_id t) w1 = access_for env io (t_user_id t) w"
    using same by (intro access_for_cong)
  ultimately show ?thesis
    using refresh_rotates_tokens [OF db_ok_update_user [OF assms(1,8)] _ assms(3-5) _ assms(7)]
    by metis
qed

theorem deactivation_keeps_sessions_witness:
  "fst (refresh sample_env (sample_io ''r'') ''t'' sample_context
     (snd (deactivate (session_world None)))) =
    Inr \<lparr>access_token = ''2'', refresh_token = ''r''\<rparr>"
proof -
  have t: "active (session_row None)" "io_now (sample_io ''r'') < t_expires_at (session_row None)"
    "\<not> wrong_device (cfg_refresh_bind_device sample_env)
       (rotation_for sample_env (sample_io ''r'') ''t'' sample_context) (session_row None)"
    "\<not> too_long 64 (t_device_hash (session_row None))" "t_user_id (session_row None) = 2"
    by (simp_all add: session_row_def sample_io_def wrong_device_def too_long_def)
  have "io_refresh (sample_io ''r'') = ''r''" by (simp add: sample_io_def)
  with deactivation_keeps_sessions [OF session_db_ok session_token t(1-3) session_issuable t(4),
      of "sample_io ''d''" sample_context, OF surjective_pairing]
  show ?thesis by (auto simp: t(5) sample_access)
qed

text \<open>
  Deleting an account: an existing account is deleted together with its role links and refresh
  tokens; every other account, its role links and its refresh tokens stay (a token of theirs loses
  at most its parent link), and the deleted user's access tokens are refused or accepted exactly as
  before. An unknown account gives \<open>ResourceNotFound\<close> and no row changes.
\<close>

theorem delete_user_cascades:
  assumes "db_ok w" "delete_user env io uid context w = (res, w')"
  shows "(uid \<in> user_ids w \<longrightarrow> res = Inr ()) \<and>
    (uid \<notin> user_ids w \<longrightarrow> res = Inl user_not_found \<and> same_rows w w') \<and>
    rows (users w') = filter (\<lambda>u. u_id u \<noteq> uid) (rows (users w)) \<and>
    rows (user_roles w') = filter (\<lambda>l. ur_user_id l \<noteq> uid) (rows (user_roles w)) \<and>
    map (\<lambda>t. t\<lparr>t_parent_id := None\<rparr>) (tokens w') =
      map (\<lambda>t. t\<lparr>t_parent_id := None\<rparr>) (filter (\<lambda>t. t_user_id t \<noteq> uid) (tokens w)) \<and>
    is_blocked up jti uid iat now w' = is_blocked up jti uid iat now w"
proof -
  obtain b w1 where d: "user_adelete uid w = (b, w1)" by (cases "user_adelete uid w")
  have b: "b \<longleftrightarrow> uid \<in> user_ids w" using user_adelete_found [of uid w] d by simp
  have res: "res = (if b then Inr () else Inl user_not_found)"
    "w' = (if b then audit_record env io 0 (target_event A_USER_DELETE context uid None) w1 else w1)"
    using assms(2) d by (auto simp: delete_user_def split: if_splits)
  let ?gone = "map u_id (filter (\<lambda>u. u_id u = uid) (rows (users w)))"
  have gone: "x \<in> set ?gone \<longleftrightarrow> x = uid" if "x \<in> user_ids w" for x
    using that by auto
  have links: "\<forall>l \<in> set (rows (user_roles w)). ur_user_id l \<in> user_ids w"
    "\<forall>t \<in> set (tokens w). t_user_id t \<in> user_ids w"
    using assms(1) by (simp_all add: db_ok_def links_ok_def tokens_ok_def token_links_ok_def)
  have w1: "rows (users w1) = filter (\<lambda>u. u_id u \<noteq> uid) (rows (users w))"
    "rows (user_roles w1) = filter (\<lambda>l. ur_user_id l \<notin> set ?gone) (rows (user_roles w))"
    "\<exists>g. tokens w1 = map (clear_parent g) (filter (\<lambda>t. t_user_id t \<notin> set ?gone) (tokens w))"
    "redis w1 = redis w"
    using d by (auto simp: user_adelete_def delete_users_def Let_def tbl_delete_def
        delete_refresh_tokens_def)
  have f: "filter (\<lambda>l. ur_user_id l \<notin> set ?gone) (rows (user_roles w)) =
      filter (\<lambda>l. ur_user_id l \<noteq> uid) (rows (user_roles w))"
    "filter (\<lambda>t. t_user_id t \<notin> set ?gone) (tokens w) = filter (\<lambda>t. t_user_id t \<noteq> uid) (tokens w)"
    using links gone by (auto intro!: filter_cong simp del: set_map set_filter)
  have p: "(clear_parent g t)\<lparr>t_parent_id := None\<rparr> = t\<lparr>t_parent_id := None\<rparr>" for g t
    by (simp add: clear_parent_def split: option.split)
  have unchanged: "same_rows w w1" if "\<not> b"
  proof -
    have none: "filter (\<lambda>u. u_id u = uid) (rows (users w)) = []"
      using that b by (auto simp: filter_empty_conv)
    have "clear_parent [] = (\<lambda>t. t)"
      by (rule ext) (simp add: clear_parent_def split: option.split)
    then show ?thesis
      using d none by (auto simp: user_adelete_def delete_users_def Let_def tbl_delete_def
          delete_refresh_tokens_def same_rows_def filter_empty_conv intro!: filter_True)
  qed
  show ?thesis
    using res b w1 unchanged unfolding f by (auto simp: p comp_def cong: is_blocked_cong)
qed

theorem delete_user_cascades_witness:
  "fst (delete_user sample_env (sample_io ''d'') 2 sample_context (session_world None)) = Inr () \<and>
   map t_user_id (tokens (snd (delete_user sample_env (sample_io ''d'') 2 sample_context
     (session_world None)))) = []"
proof -
  let ?w' = "snd (delete_user sample_env (sample_io ''d'') 2 sample_context (session_world None))"
  have u: "2 \<in> user_ids (session_world None)"
    "filter (\<lambda>t. t_user_id t \<noteq> 2) (tokens (session_world None)) = []"
    by (simp_all add: session_world_def sample_world_def sample_defs session_row_def)
  from delete_user_cascades [OF session_db_ok, of sample_env "sample_io ''d''" 2 sample_context,
      OF surjective_pairing]
  have "(2 \<in> user_ids (session_world None) \<longrightarrow>
      fst (delete_user sample_env (sample_io ''d'') 2 sample_context (session_world None)) = Inr ())"
    "map (\<lambda>t. t\<lparr>t_parent_id := None\<rparr>) (tokens ?w') = map (\<lambda>t. t\<lparr>t_parent_id := None\<rparr>)
       (filter (\<lambda>t. t_user_id t \<noteq> 2) (tokens (session_world None)))" by blast+
  with u show ?thesis by simp
qed

lemma assign_role_found:
  assumes "uid \<in> user_ids w" "rid \<in> role_ids w"
  shows "\<exists>ev w1. assign_role env io uid rid context w = (Inr (), audit_record env io 0 ev w1) \<and>
    aassign_role uid rid w = (Inr \<lparr>urd_user_id = uid, urd_role_id = rid\<rparr>, w1)"
proof -
  obtain d where d: "get_user uid w = Inr d" using assms(1) by (rule get_user_found)
  obtain r where r: "first (\<lambda>r. r_id r = rid) (rows (roles w)) = Some r" "r_id r = rid"
    using assms(2) by (cases "first (\<lambda>r. r_id r = rid) (rows (roles w))")
      (auto simp: first_None dest: first_Some)
  from assms obtain w1 where "aassign_role uid rid w = (Inr \<lparr>urd_user_id = uid, urd_role_id = rid\<rparr>, w1)"
    by (rule aassign_role_ok)
  with d r show ?thesis by (auto simp: assign_role_def aget_role_by_id_def role_dto_of_def)
qed

lemma assign_role_refused:
  assumes "\<not> (uid \<in> user_ids w \<and> rid \<in> role_ids w)"
  shows "assign_role env io uid rid context w =
    (Inl (if uid \<in> user_ids w then role_not_found else user_not_found), w)"
proof (cases "uid \<in> user_ids w")
  case False
  then have "get_user uid w = Inl user_not_found" by (rule get_user_missing)
  with False show ?thesis by (simp add: assign_role_def)
next
  case True
  then obtain d where d: "get_user uid w = Inr d" by (rule get_user_found)
  have "aget_role_by_id rid w = None"
    using assms True by (auto simp: aget_role_by_id_def first_None)
  with d True show ?thesis by (simp add: assign_role_def)
qed

text \<open>
  Assigning a role: it succeeds exactly for an existing user and an existing role; then the user
  has the permissions it had and those of the role, no other user's permissions change, and assigning
  the same role again changes no link. A refused assignment changes nothing.
\<close>

theorem assign_role_unions:
  assumes "db_ok w" "assign_role env io uid rid context w = (res, w')"
  shows "(is_ok res \<longleftrightarrow> uid \<in> user_ids w \<and> rid \<in> role_ids w) \<and>
    (\<not> is_ok res \<longrightarrow> w' = w) \<and>
    (is_ok res \<longrightarrow>
       aget_user_permission_codes uid w' = aget_user_permission_codes uid w \<union> role_codes rid w \<and>
       user_roles (snd (assign_role env io' uid rid context' w')) = user_roles w') \<and>
    (\<forall>v. v \<noteq> uid \<longrightarrow> aget_user_permission_codes v w' = aget_user_permission_codes v w)"
proof (cases "uid \<in> user_ids w \<and> rid \<in> role_ids w")
  case False
  then have "res = Inl (if uid \<in> user_ids w then role_not_found else user_not_found)" "w' = w"
    using assms(2) unfolding assign_role_refused [OF False] by auto
  with False show ?thesis by auto
next
  case True
  then obtain ev w1 where a: "assign_role env io uid rid context w = (Inr (), audit_record env io 0 ev w1)"
    "aassign_role uid rid w = (Inr \<lparr>urd_user_id = uid, urd_role_id = rid\<rparr>, w1)"
    using assign_role_found by blast
  then have w': "res = Inr ()" "w' = audit_record env io 0 ev w1" using assms(2) by auto
  have "db_ok w'" unfolding w' using db_ok_aassign_role [OF assms(1) a(2)] by (rule db_ok_audit_record)
  obtain t where t: "w1 = w\<lparr>user_roles := t\<rparr>" using aassign_role_frame [OF a(2)] by blast
  have T: "uid \<in> user_ids w" "rid \<in> role_ids w" using True by blast+
  have "user_role_ids uid w1 = insert rid (user_role_ids uid w) \<and>
      (\<forall>u. u \<noteq> uid \<longrightarrow> user_role_ids u w1 = user_role_ids u w)"
    by (rule aassign_role_ok [OF T]) (use a(2) in simp)
  moreover have "user_role_ids u w' = user_role_ids u w1" for u
    by (simp add: w'(2) user_role_ids_def)
  ultimately have ids: "user_role_ids uid w' = insert rid (user_role_ids uid w)"
    "\<And>u. u \<noteq> uid \<Longrightarrow> user_role_ids u w' = user_role_ids u w" by blast+
  have codes: "role_codes r w' = role_codes r w" for r
    by (rule role_codes_cong) (simp_all add: w' t)
  have "rid \<in> user_role_ids uid w'" unfolding ids(1) by (rule insertI1)
  then obtain l where l: "l \<in> set (rows (user_roles w'))" "ur_user_id l = uid" "ur_role_id l = rid"
    by (auto simp: user_role_ids_def)
  then have "\<exists>l. first (\<lambda>l. ur_user_id l = uid \<and> ur_role_id l = rid) (rows (user_roles w')) = Some l"
    using first_None [of "\<lambda>l. ur_user_id l = uid \<and> ur_role_id l = rid"] by fastforce
  then have again: "snd (aassign_role uid rid w') = w'" by (auto simp: aassign_role_def)
  have "user_ids w' = user_ids w" "role_ids w' = role_ids w" by (simp_all add: w' t)
  with True obtain ev' w2 where "assign_role env io' uid rid context' w' =
      (Inr (), audit_record env io' 0 ev' w2)" "aassign_role uid rid w' =
      (Inr \<lparr>urd_user_id = uid, urd_role_id = rid\<rparr>, w2)"
    using assign_role_found by metis
  with again have "user_roles (snd (assign_role env io' uid rid context' w')) = user_roles w'" by simp
  with True w'(1) ids codes show ?thesis
    by (auto simp: permission_codes_union [OF assms(1)] permission_codes_union [OF \<open>db_ok w'\<close>])
qed

theorem assign_role_unions_witness:
  "aget_user_permission_codes 2 (snd (assign_role sample_env (sample_io ''d'') 2 1 sample_context
     (session_world None))) =
   aget_user_permission_codes 2 (session_world None) \<union> role_codes 1 (session_world None)"
proof -
  have "2 \<in> user_ids (session_world None)" "1 \<in> role_ids (session_world None)"
    by (simp_all add: session_world_def sample_world_def sample_defs)
  with assign_role_unions [OF session_db_ok, of sample_env "sample_io ''d''" 2 1 sample_context,
      OF surjective_pairing]
  show ?thesis by blast
qed

end
