(* ===== verification/ApiAuth.thy ===== *)
theory ApiAuth
  imports AdminService
begin

text \<open>
  Bearer authentication and the permission guard of \<open>apps/authz/api/auth.py\<close>.

  \<open>jwt_call\<close> is the authentication callback the routes carry: \<open>Inr None\<close> is a request without a
  bearer token, which Ninja answers with status 401. A \<open>view\<close> is a function from the principal and
  the world to its result and the world after it.
\<close>

record principal =
  pr_user_id :: int
  pr_jti :: string
  pr_issued_at :: time
  pr_expires_at :: time
  pr_roles :: "string set"
  pr_permissions :: "string set"

definition principal_of :: "int \<Rightarrow> access_token_claims \<Rightarrow> principal" where
  "principal_of uid claims = \<lparr>pr_user_id = uid, pr_jti = c_token_id claims,
     pr_issued_at = c_issued_at claims, pr_expires_at = c_expires_at claims,
     pr_roles = c_roles claims, pr_permissions = c_permissions claims\<rparr>"

definition authenticate ::
  "'e env_scheme \<Rightarrow> io \<Rightarrow> string \<Rightarrow> 'z world_scheme \<Rightarrow> exn + principal" where
  "authenticate env io token w =
     bind_sum (decode_access_token (env_jwt_decode env) (cfg_jwt_secret env) (io_now io) token None)
       (\<lambda>claims. case int_of_str (c_subject claims) of
          None \<Rightarrow> Inl (raise_domain InvalidToken)
        | Some uid \<Rightarrow>
            if uid \<le> 0 then Inl (raise_domain InvalidToken)
            else if is_blocked (io_redis io) (c_token_id claims) uid (c_issued_at claims)
                 (io_redis_at io) w then Inl (raise_domain InvalidToken)
            else Inr (principal_of uid claims))"

definition openapi_scheme :: string where
  "openapi_scheme = ''bearer''"

definition jwt_call ::
  "'e env_scheme \<Rightarrow> io \<Rightarrow> http_request \<Rightarrow> 'z world_scheme \<Rightarrow> exn + principal option" where
  "jwt_call env io request w =
     (case h_authorization request of
        None \<Rightarrow> Inr None
      | Some auth_value \<Rightarrow>
          if auth_value = [] then Inr None
          else (let parts = split_on (CHR '' '') auth_value
                in if lower (hd parts) \<noteq> openapi_scheme then Inr None
                   else bind_sum (authenticate env io (join '' '' (tl parts)) w) (\<lambda>p. Inr (Some p))))"

definition require_permission ::
  "string \<Rightarrow> principal option \<Rightarrow> (principal \<Rightarrow> 's \<Rightarrow> (exn + 'a) \<times> 's) \<Rightarrow> 's \<Rightarrow> (exn + 'a) \<times> 's" where
  "require_permission permission_code auth view w =
     (case auth of
        None \<Rightarrow> (Inl (raise_domain PermissionDenied), w)
      | Some p \<Rightarrow>
          if permission_code \<notin> pr_permissions p then (Inl (raise_domain PermissionDenied), w)
          else view p w)"

subsection \<open>The bearer header\<close>

lemma split_on_head:
  assumes "sep \<notin> set scheme"
  shows "hd (split_on sep (scheme @ sep # tok)) = scheme"
    "join [sep] (tl (split_on sep (scheme @ sep # tok))) = tok"
  using assms by (simp_all add: split_on_append_sep join_split_on)

text \<open>The bearer token of a header: what follows the first space, after the scheme.\<close>

definition bearer :: "string \<Rightarrow> string \<Rightarrow> bool" where
  "bearer header tok \<longleftrightarrow> (\<exists>scheme. lower scheme = ''bearer'' \<and>
     (header = scheme @ '' '' @ tok \<or> header = scheme \<and> tok = []))"

lemma bearer_scheme_no_space: "lower scheme = ''bearer'' \<Longrightarrow> CHR '' '' \<notin> set scheme"
proof
  assume "lower scheme = ''bearer''" "CHR '' '' \<in> set scheme"
  then have "lower_char (CHR '' '') \<in> set ''bearer''"
    unfolding lower_def by (metis image_eqI list.set_map)
  then show False by (simp add: lower_char_def is_upper_char_def)
qed

lemma jwt_call_bearer:
  assumes "h_authorization request = Some header" "bearer header tok"
  shows "jwt_call env io request w = bind_sum (authenticate env io tok w) (\<lambda>p. Inr (Some p))"
proof -
  obtain scheme where s: "lower scheme = ''bearer''"
    "header = scheme @ '' '' @ tok \<or> header = scheme \<and> tok = []"
    using assms(2) by (auto simp: bearer_def)
  have sp: "CHR '' '' \<notin> set scheme" using s(1) by (rule bearer_scheme_no_space)
  have "header \<noteq> []" using s by auto
  moreover have "lower (hd (split_on (CHR '' '') header)) = openapi_scheme"
    "join '' '' (tl (split_on (CHR '' '') header)) = tok"
    using s split_on_head [OF sp] split_on_no_sep [OF sp] by (auto simp: openapi_scheme_def)
  ultimately show ?thesis using assms(1) by (simp add: jwt_call_def Let_def)
qed

lemma jwt_call_no_bearer:
  assumes "\<nexists>header tok. h_authorization request = Some header \<and> bearer header tok"
  shows "jwt_call env io request w = Inr None"
proof (cases "h_authorization request")
  case (Some header)
  have "lower (hd (split_on (CHR '' '') header)) \<noteq> openapi_scheme"
  proof
    assume a: "lower (hd (split_on (CHR '' '') header)) = openapi_scheme"
    let ?ps = "split_on (CHR '' '') header"
    have "header = join '' '' ?ps" by (simp add: join_split_on)
    moreover obtain p ps where "?ps = p # ps" by (cases ?ps) (use split_on_not_Nil in auto)
    ultimately have "bearer header (join '' '' ps)"
      using a by (cases ps) (auto simp: bearer_def openapi_scheme_def)
    with assms Some show False by blast
  qed
  with Some show ?thesis by (simp add: jwt_call_def Let_def)
qed (simp add: jwt_call_def)

subsection \<open>Properties\<close>

lemma authenticate_Inr:
  "authenticate env io tok w = Inr p \<longleftrightarrow>
    (\<exists>c uid. decode_access_token (env_jwt_decode env) (cfg_jwt_secret env) (io_now io) tok None = Inr c \<and>
       int_of_str (c_subject c) = Some uid \<and> 0 < uid \<and>
       \<not> is_blocked (io_redis io) (c_token_id c) uid (c_issued_at c) (io_redis_at io) w \<and>
       p = principal_of uid c)"
  by (auto simp: authenticate_def bind_sum_eq_Inr split: option.splits if_splits)

text \<open>
  Who is authenticated: a request is, exactly when it carries a bearer token (in any letter case
  of the scheme) that decodes under the JWT secret, whose subject is a positive integer, and that the
  blocklist does not refuse; the principal is that subject with the roles and permissions of the token.
\<close>

theorem jwt_call_accepts_iff:
  "jwt_call env io request w = Inr (Some p) \<longleftrightarrow>
    (\<exists>header tok c uid. h_authorization request = Some header \<and> bearer header tok \<and>
       decode_access_token (env_jwt_decode env) (cfg_jwt_secret env) (io_now io) tok None = Inr c \<and>
       int_of_str (c_subject c) = Some uid \<and> 0 < uid \<and>
       \<not> is_blocked (io_redis io) (c_token_id c) uid (c_issued_at c) (io_redis_at io) w \<and>
       p = principal_of uid c)"
proof (cases "\<exists>header tok. h_authorization request = Some header \<and> bearer header tok")
  case True
  then obtain header tok where h: "h_authorization request = Some header" "bearer header tok" by blast
  have "jwt_call env io request w = Inr (Some p) \<longleftrightarrow> authenticate env io tok w = Inr p"
    unfolding jwt_call_bearer [OF h] by (simp add: bind_sum_eq_Inr)
  moreover have "tok' = tok" if "bearer header tok'" for tok'
  proof -
    from h(2) that obtain a b where ab: "lower a = ''bearer''" "lower b = ''bearer''"
      "header = a @ '' '' @ tok \<or> header = a \<and> tok = []"
      "header = b @ '' '' @ tok' \<or> header = b \<and> tok' = []" unfolding bearer_def by blast
    have "length a = 6" "length b = 6"
      using arg_cong [OF ab(1), of length] arg_cong [OF ab(2), of length] by simp_all
    with ab(3,4) show ?thesis by auto
  qed
  ultimately show ?thesis using h unfolding authenticate_Inr by (metis option.inject)
next
  case False
  then show ?thesis using jwt_call_no_bearer [of request env io w] by auto
qed

text \<open>The token a service call issues, and the claims it decodes to.\<close>

definition payload_for :: "'e env_scheme \<Rightarrow> io \<Rightarrow> int \<Rightarrow> 'z db_scheme \<Rightarrow> payload" where
  "payload_for env io uid s = access_payload (str_of_int uid) (io_issued io + cfg_access_lifetime env)
     (io_issued io) (io_jti io) (aget_user_role_names uid s) (aget_user_permission_codes uid s)"

definition jwt_honest :: "'e env_scheme \<Rightarrow> io \<Rightarrow> int \<Rightarrow> 'z db_scheme \<Rightarrow> bool" where
  "jwt_honest env io uid s \<longleftrightarrow>
     jwt_law (env_jwt_encode env) (env_jwt_decode env) (cfg_jwt_secret env) (payload_for env io uid s) \<and>
     io_jti io \<noteq> [] \<and> datetime_ok (io_issued io) \<and>
     datetime_ok (io_issued io + cfg_access_lifetime env)"

definition claims_for :: "'e env_scheme \<Rightarrow> io \<Rightarrow> int \<Rightarrow> 'z db_scheme \<Rightarrow> access_token_claims" where
  "claims_for env io uid s = \<lparr>c_subject = str_of_int uid,
     c_expires_at = (io_issued io + cfg_access_lifetime env) div sec * sec,
     c_issued_at = io_issued io div sec * sec, c_token_id = io_jti io,
     c_roles = aget_user_role_names uid s, c_permissions = aget_user_permission_codes uid s\<rparr>"

lemma str_of_int_not_Nil [simp]: "str_of_int i \<noteq> []"
  by (simp add: str_of_int_def)

lemma decode_access_for:
  assumes "jwt_honest env io uid s"
  shows "decode_access_token (env_jwt_decode env) (cfg_jwt_secret env) now (access_for env io uid s) None =
    (if io_issued io div sec * sec \<le> now \<and> now < (io_issued io + cfg_access_lifetime env) div sec * sec
     then Inr (claims_for env io uid s) else Inl (raise_domain InvalidToken))"
proof -
  have e: "encode_access_token (env_jwt_encode env) (cfg_jwt_secret env) (cfg_access_lifetime env)
      (io_issued io) (io_jti io) (SubjInt uid) (aget_user_role_names uid s)
      (aget_user_permission_codes uid s) None None None = Inr (access_for env io uid s)"
    using assms by (simp add: encode_access_token_Inr access_for_def jwt_honest_def)
  have fin: "finite (aget_user_role_names uid s)" "finite (aget_user_permission_codes uid s)"
    by (simp_all add: aget_user_role_names_def aget_user_permission_codes_def)
  have law: "jwt_law (env_jwt_encode env) (env_jwt_decode env) (cfg_jwt_secret env)
      (access_payload (str_of_subject (SubjInt uid)) (io_issued io + cfg_access_lifetime env)
        (io_issued io) (io_jti io) (aget_user_role_names uid s) (aget_user_permission_codes uid s))"
    using assms by (simp add: jwt_honest_def payload_for_def)
  have ok: "str_of_subject (SubjInt uid) \<noteq> []" "io_jti io \<noteq> []" "datetime_ok (io_issued io)"
    using assms by (simp_all add: jwt_honest_def)
  show ?thesis
    unfolding claims_for_def by (subst token_roundtrip [OF e law ok(1,2) fin ok(3)]) simp
qed

lemma lower_Bearer: "lower ''Bearer'' = ''bearer''"
  by code_simp

lemma issued_accepted:
  assumes "jwt_honest env io uid s" "0 < uid" "uid < 2 ^ 63"
    and "h_authorization request = Some (''Bearer '' @ access_for env io uid s)"
    and "io_issued io div sec * sec \<le> io_now io'"
    and "io_now io' < (io_issued io + cfg_access_lifetime env) div sec * sec"
    and "\<not> is_blocked (io_redis io') (io_jti io) uid (io_issued io div sec * sec) (io_redis_at io') w"
  shows "jwt_call env io' request w = Inr (Some \<lparr>pr_user_id = uid, pr_jti = io_jti io,
    pr_issued_at = io_issued io div sec * sec,
    pr_expires_at = (io_issued io + cfg_access_lifetime env) div sec * sec,
    pr_roles = aget_user_role_names uid s, pr_permissions = aget_user_permission_codes uid s\<rparr>)"
proof -
  have b: "bearer (''Bearer '' @ access_for env io uid s) (access_for env io uid s)"
    unfolding bearer_def
    by (rule exI [of _ "''Bearer''"]) (simp add: lower_Bearer)
  have i: "int_of_str (str_of_int uid) = Some uid"
    using assms(2,3) by (intro int_of_str_small) simp
  have "authenticate env io' (access_for env io uid s) w = Inr (principal_of uid (claims_for env io uid s))"
    unfolding authenticate_Inr
    using assms(2,5-7) i by (intro exI [of _ "claims_for env io uid s"] exI [of _ uid])
      (simp add: decode_access_for [OF assms(1)] claims_for_def)
  then show ?thesis
    by (simp add: jwt_call_bearer [OF assms(4) b] principal_of_def claims_for_def)
qed

text \<open>
  C12. From login to an authenticated request: the access token the service signs for a user is
  accepted, as a bearer token, from the second of its issue until the second of its expiry unless the
  blocklist refuses it, and the principal is that user with exactly the role names and permission
  codes the database gave the user when the token was signed.
\<close>

theorem issued_token_authenticates:
  assumes "jwt_honest env io uid s" "0 < uid" "uid < 2 ^ 63"
    and "h_authorization request = Some (''Bearer '' @ access_for env io uid s)"
    and "io_issued io div sec * sec \<le> io_now io'"
    and "io_now io' < (io_issued io + cfg_access_lifetime env) div sec * sec"
    and "\<not> is_blocked (io_redis io') (io_jti io) uid (io_issued io div sec * sec) (io_redis_at io') w"
  shows "jwt_call env io' request w = Inr (Some \<lparr>pr_user_id = uid, pr_jti = io_jti io,
    pr_issued_at = io_issued io div sec * sec,
    pr_expires_at = (io_issued io + cfg_access_lifetime env) div sec * sec,
    pr_roles = aget_user_role_names uid s, pr_permissions = aget_user_permission_codes uid s\<rparr>)"
  using assms by (rule issued_accepted)

text \<open>A deployment whose tokens are the subject, issued at 10 s for 900 s.\<close>

definition jwt_env :: env where
  "jwt_env = sample_env\<lparr>env_jwt_encode := (\<lambda>p k. ''tok''),
     env_jwt_decode := (\<lambda>now required tok k.
       if tok = ''tok'' \<and> 10 * sec \<le> now \<and> now < 910 * sec
       then Inr (numeric_dates (payload_for sample_env (sample_io ''t'') 2 (session_world None)))
       else Inl InvalidTokenError)\<rparr>"

lemma jwt_env_payload:
  "payload_for jwt_env io uid s = payload_for sample_env io uid s"
  by (simp add: payload_for_def jwt_env_def)

lemma jwt_env_honest: "jwt_honest jwt_env (sample_io ''t'') 2 (session_world None)"
proof -
  have "io_issued (sample_io ''t'') = 10 * sec" "cfg_access_lifetime jwt_env = 900 * sec"
    "io_jti (sample_io ''t'') \<noteq> []" by (simp_all add: sample_io_def jwt_env_def sample_env_def)
  moreover from this have "map_of (payload_for sample_env (sample_io ''t'') 2 (session_world None)) ''iat'' =
      Some (PDatetime (10 * sec))"
    "map_of (payload_for sample_env (sample_io ''t'') 2 (session_world None)) ''exp'' =
      Some (PDatetime (910 * sec))"
    by (simp_all add: payload_for_def access_payload_def jwt_env_def)
  ultimately show ?thesis
    by (auto simp: jwt_honest_def jwt_law_def jwt_env_payload datetime_ok_def)
      (auto simp: jwt_env_def)
qed

definition bearer_request :: "string \<Rightarrow> http_request" where
  "bearer_request tok = \<lparr>remote_addr = Some ''198.51.100.7'', h_forwarded_for = None,
     h_user_agent = None, h_request_id = None, h_authorization = Some (''Bearer '' @ tok)\<rparr>"

lemma jwt_env_access [simp]: "access_for jwt_env io uid s = ''tok''"
  by (simp add: access_for_def jwt_env_def)

lemma session_redis [simp]: "redis (session_world rv) = (\<lambda>_. None)"
  using sample_world_redis by (auto simp: session_world_def)

lemma jwt_env_sample [simp]:
  "io_issued (sample_io r) = 10 * sec" "io_now (sample_io r) = 10 * sec"
  "io_redis_at (sample_io r) = 10 * sec" "io_redis (sample_io r)" "io_jti (sample_io r) = ''j'' @ r"
  "cfg_access_lifetime jwt_env = 900 * sec"
  by (simp_all add: sample_io_def jwt_env_def sample_env_def)

lemma sample_not_blocked:
  "\<not> is_blocked (io_redis (sample_io r)) j i t (io_redis_at (sample_io r)) (session_world rv)"
  by (simp add: is_blocked_def redis_get_def)

definition sample_principal :: principal where
  "sample_principal = \<lparr>pr_user_id = 2, pr_jti = ''jt'', pr_issued_at = 10 * sec,
     pr_expires_at = 910 * sec, pr_roles = {''user''}, pr_permissions = {}\<rparr>"

lemma session_rbac:
  "aget_user_role_names 2 (session_world rv) = {''user''}"
  "aget_user_permission_codes 2 (session_world rv) = {}"
  by (simp_all add: aget_user_role_names_def aget_user_permission_codes_def has_role_def
      session_world_def sample_world_def sample_defs)

lemma sample_call:
  "jwt_call jwt_env (sample_io r) (bearer_request ''tok'') (session_world rv) =
    Inr (Some sample_principal)"
  using issued_accepted [OF jwt_env_honest, of "bearer_request ''tok''" "sample_io r" "session_world rv"]
    sample_not_blocked
  by (simp add: bearer_request_def sample_principal_def session_rbac)

theorem issued_token_authenticates_witness:
  "jwt_call jwt_env (sample_io ''u'') (bearer_request ''tok'') (session_world None) =
    Inr (Some sample_principal)"
  using issued_token_authenticates [OF jwt_env_honest, of "bearer_request ''tok''" "sample_io ''u''"
      "session_world None"] sample_not_blocked
  by (simp add: bearer_request_def sample_principal_def session_rbac)

end
