(* ===== verification/Routers.thy ===== *)
theory Routers
  imports ApiAuth
begin

text \<open>
  The HTTP layer: the schemas of \<open>apps/authz/api/schemas.py\<close>, the handlers of
  \<open>apps/authz/api/routers/\<close> and \<open>apps/common/api/system.py\<close>, and the way Ninja serves a request
  with them: authentication, throttling, validation of the payload, the guard, the view, and the
  exception handlers of \<open>config/api.py\<close>.

  A handler takes the principal of the request (\<open>request.auth\<close>), the validated payload and the
  world. Pydantic's \<open>EmailStr\<close> is the parameter \<open>env_email_str\<close>: the address it gives back, or
  \<open>None\<close> where it refuses. Pydantic's parsing of JSON and query strings into strings, integers,
  booleans and datetimes is not modelled.
\<close>

subsection \<open>Input schemas\<close>

record register_in =
  in_email :: string
  in_password :: string

record user_update_in =
  up_email :: "string option"
  up_password :: "string option"
  up_is_active :: "bool option"

definition password_ok :: "string \<Rightarrow> bool" where
  "password_ok p \<longleftrightarrow> 8 \<le> length p \<and> length p \<le> 128"

definition email_str :: "'e env_scheme \<Rightarrow> string \<Rightarrow> exn + string" where
  "email_str env e = (case env_email_str env e of None \<Rightarrow> Inl ValidationError | Some a \<Rightarrow> Inr a)"

definition valid_register :: "'e env_scheme \<Rightarrow> string \<Rightarrow> string \<Rightarrow> exn + register_in" where
  "valid_register env email password =
     bind_sum (email_str env email) (\<lambda>e.
       if password_ok password then Inr \<lparr>in_email = e, in_password = password\<rparr>
       else Inl ValidationError)"

definition valid_refresh :: "string \<Rightarrow> exn + string" where
  "valid_refresh token = (if 1 \<le> length token then Inr token else Inl ValidationError)"

definition valid_user_update ::
  "'e env_scheme \<Rightarrow> string option \<Rightarrow> string option \<Rightarrow> bool option \<Rightarrow> exn + user_update_in" where
  "valid_user_update env email password is_active =
     bind_sum (case email of None \<Rightarrow> Inr None | Some e \<Rightarrow> bind_sum (email_str env e) (\<lambda>a. Inr (Some a)))
       (\<lambda>e. if (case password of None \<Rightarrow> True | Some p \<Rightarrow> password_ok p)
            then Inr \<lparr>up_email = e, up_password = password, up_is_active = is_active\<rparr>
            else Inl ValidationError)"

definition valid_assign_role :: "int \<Rightarrow> exn + int" where
  "valid_assign_role role_id = (if 0 < role_id then Inr role_id else Inl ValidationError)"

subsection \<open>Output schemas\<close>

record token_pair_out =
  out_access_token :: string
  out_refresh_token :: string
  out_token_type :: string

record me_out =
  me_id :: int
  me_email :: string
  me_roles :: "string list"
  me_permissions :: "string list"

record user_out =
  uo_id :: int
  uo_email :: string
  uo_is_active :: bool
  uo_is_staff :: bool
  uo_date_joined :: time

record role_out =
  ro_id :: int
  ro_name :: string

record permission_out =
  po_id :: int
  po_code :: string

record audit_log_out =
  ao_id :: int
  ao_created_at :: time
  ao_action :: string
  ao_actor_id :: "int option"
  ao_actor_email :: "string option"
  ao_target_type :: "string option"
  ao_target_id :: "string option"
  ao_outcome :: string
  ao_ip :: "string option"
  ao_user_agent :: "string option"
  ao_metadata :: "(string \<times> pyval) list"

record 'a page_out =
  pg_items :: "'a list"
  pg_total :: int
  pg_offset :: int
  pg_limit :: int

datatype api_data =
    UserData user_out
  | TokenPairData token_pair_out
  | MeData me_out
  | UsersPage "user_out page_out"
  | RolesPage "role_out page_out"
  | PermissionsPage "permission_out page_out"
  | AuditLogsPage "audit_log_out page_out"
  | StatusData "(string \<times> string) list"

text \<open>An output schema validates as well: an address \<open>EmailStr\<close> refuses raises.\<close>

definition out_email :: "'e env_scheme \<Rightarrow> string \<Rightarrow> exn + string" where
  "out_email env e =
     (case env_email_str env e of None \<Rightarrow> Inl (ValueError ''email'') | Some a \<Rightarrow> Inr a)"

definition make_user_out :: "'e env_scheme \<Rightarrow> user_dto \<Rightarrow> exn + user_out" where
  "make_user_out env u = bind_sum (out_email env (ud_email u)) (\<lambda>e.
     Inr \<lparr>uo_id = ud_id u, uo_email = e, uo_is_active = ud_is_active u,
          uo_is_staff = ud_is_staff u, uo_date_joined = ud_date_joined u\<rparr>)"

primrec map_result :: "('a \<Rightarrow> exn + 'b) \<Rightarrow> 'a list \<Rightarrow> exn + 'b list" where
  "map_result f [] = Inr []"
| "map_result f (x # xs) = bind_sum (f x) (\<lambda>y. bind_sum (map_result f xs) (\<lambda>ys. Inr (y # ys)))"

definition make_role_out :: "role_dto \<Rightarrow> role_out" where
  "make_role_out r = \<lparr>ro_id = rd_id r, ro_name = rd_name r\<rparr>"

definition make_permission_out :: "permission_dto \<Rightarrow> permission_out" where
  "make_permission_out p = \<lparr>po_id = pd_id p, po_code = pd_code p\<rparr>"

definition make_audit_log_out :: "'e env_scheme \<Rightarrow> audit_log_dto \<Rightarrow> exn + audit_log_out" where
  "make_audit_log_out env a =
     bind_sum (case ad_actor_email a of None \<Rightarrow> Inr None
               | Some e \<Rightarrow> bind_sum (out_email env e) (\<lambda>x. Inr (Some x))) (\<lambda>e.
       Inr \<lparr>ao_id = ad_id a, ao_created_at = ad_created_at a, ao_action = ad_action a,
            ao_actor_id = ad_actor_id a, ao_actor_email = e, ao_target_type = ad_target_type a,
            ao_target_id = ad_target_id a, ao_outcome = ad_outcome a, ao_ip = ad_ip a,
            ao_user_agent = ad_user_agent a, ao_metadata = ad_metadata a\<rparr>)"

definition token_pair_response :: "token_pair \<Rightarrow> token_pair_out" where
  "token_pair_response p = \<lparr>out_access_token = access_token p, out_refresh_token = refresh_token p,
     out_token_type = ''bearer''\<rparr>"

definition pagination :: "int \<Rightarrow> int \<Rightarrow> int \<times> int" where
  "pagination off lim = (max off 0, min (max lim 1) 100)"

text \<open>The helpers that \<open>routers/auth.py\<close> and \<open>routers/admin_rbac.py\<close> hold a copy of, and that they agree.\<close>

definition auth_user_out :: "'e env_scheme \<Rightarrow> user_dto \<Rightarrow> exn + user_out" where
  "auth_user_out env u = bind_sum (out_email env (ud_email u)) (\<lambda>e.
     Inr \<lparr>uo_id = ud_id u, uo_email = e, uo_is_active = ud_is_active u,
          uo_is_staff = ud_is_staff u, uo_date_joined = ud_date_joined u\<rparr>)"

definition rbac_pagination :: "int \<Rightarrow> int \<Rightarrow> int \<times> int" where
  "rbac_pagination off lim = (max off 0, min (max lim 1) 100)"

lemma copied_helpers [simp]: "auth_user_out = make_user_out" "rbac_pagination = pagination"
  by (simp_all add: fun_eq_iff auth_user_out_def make_user_out_def rbac_pagination_def pagination_def)

type_synonym reply = "int \<times> api_data build_response"

definition reply_ok :: "api_data option \<Rightarrow> string \<Rightarrow> reply" where
  "reply_ok d m = (200, success_response d 200 m)"

definition reply_created :: "api_data \<Rightarrow> string \<Rightarrow> reply" where
  "reply_created d m = (201, success_response (Some d) 201 m)"

subsection \<open>Handlers\<close>

text \<open>The audit context is built before the service is called.\<close>

definition with_context ::
  "'e env_scheme \<Rightarrow> http_request \<Rightarrow> principal option \<Rightarrow>
     (audit_context \<Rightarrow> 's \<Rightarrow> (exn + 'a) \<times> 's) \<Rightarrow> 's \<Rightarrow> (exn + 'a) \<times> 's" where
  "with_context env request auth f w =
     (case from_request (cfg_trusted_proxy_cidrs env) request (map_option pr_user_id auth) of
        Inl e \<Rightarrow> (Inl e, w)
      | Inr context \<Rightarrow> f context w)"

definition answer :: "(exn + 'a) \<times> 's \<Rightarrow> ('a \<Rightarrow> exn + reply) \<Rightarrow> (exn + reply) \<times> 's" where
  "answer r k = (bind_sum (fst r) k, snd r)"

definition the_principal :: "principal option \<Rightarrow> exn + principal" where
  "the_principal auth = (case auth of
     None \<Rightarrow> Inl (RuntimeError ''JWTAuth did not supply a principal'') | Some p \<Rightarrow> Inr p)"

definition remaining_access_ttl :: "io \<Rightarrow> principal \<Rightarrow> int" where
  "remaining_access_ttl io p = max 0 (ceil_seconds (pr_expires_at p - io_now io))"

definition api_register ::
  "'e env_scheme \<Rightarrow> io \<Rightarrow> http_request \<Rightarrow> register_in \<Rightarrow> 'z world_scheme \<Rightarrow>
     (exn + reply) \<times> 'z world_scheme" where
  "api_register env io request payload w =
     answer (with_context env request None
         (\<lambda>context. register env io (in_email payload) (in_password payload) context True) w)
       (\<lambda>u. bind_sum (auth_user_out env u) (\<lambda>o'. Inr (reply_created (UserData o') ''User registered.'')))"

definition api_login ::
  "'e env_scheme \<Rightarrow> io \<Rightarrow> http_request \<Rightarrow> register_in \<Rightarrow> 'z world_scheme \<Rightarrow>
     (exn + reply) \<times> 'z world_scheme" where
  "api_login env io request payload w =
     answer (with_context env request None
         (\<lambda>context. login env io (in_email payload) (in_password payload) context) w)
       (\<lambda>p. Inr (reply_ok (Some (TokenPairData (token_pair_response p))) ''Authenticated.''))"

definition api_refresh ::
  "'e env_scheme \<Rightarrow> io \<Rightarrow> http_request \<Rightarrow> string \<Rightarrow> 'z world_scheme \<Rightarrow>
     (exn + reply) \<times> 'z world_scheme" where
  "api_refresh env io request token w =
     answer (with_context env request None (\<lambda>context. refresh env io token context) w)
       (\<lambda>p. Inr (reply_ok (Some (TokenPairData (token_pair_response p))) ''Token refreshed.''))"

definition api_logout ::
  "'e env_scheme \<Rightarrow> io \<Rightarrow> http_request \<Rightarrow> principal option \<Rightarrow> string \<Rightarrow> 'z world_scheme \<Rightarrow>
     (exn + reply) \<times> 'z world_scheme" where
  "api_logout env io request auth token w =
     (case the_principal auth of
        Inl e \<Rightarrow> (Inl e, w)
      | Inr p \<Rightarrow>
          answer (with_context env request auth (\<lambda>context w. (Inr (), logout env io token context
              (Some (pr_jti p)) (Some (remaining_access_ttl io p)) w)) w)
            (\<lambda>_. Inr (reply_ok None ''Logged out.'')))"

definition api_logout_all ::
  "'e env_scheme \<Rightarrow> io \<Rightarrow> http_request \<Rightarrow> principal option \<Rightarrow> 'z world_scheme \<Rightarrow>
     (exn + reply) \<times> 'z world_scheme" where
  "api_logout_all env io request auth w =
     (case the_principal auth of
        Inl e \<Rightarrow> (Inl e, w)
      | Inr p \<Rightarrow>
          answer (with_context env request auth
              (\<lambda>context w. (Inr (), logout_all env io (pr_user_id p) context w)) w)
            (\<lambda>_. Inr (reply_ok None ''Logged out from all sessions.'')))"

definition api_me ::
  "'e env_scheme \<Rightarrow> principal option \<Rightarrow> 'z world_scheme \<Rightarrow> (exn + reply) \<times> 'z world_scheme" where
  "api_me env auth w =
     (bind_sum (the_principal auth) (\<lambda>p.
      bind_sum (aget_active_email (pr_user_id p) w) (\<lambda>email.
      bind_sum (out_email env email) (\<lambda>e.
        Inr (reply_ok (Some (MeData \<lparr>me_id = pr_user_id p, me_email = e,
          me_roles = sorted_list_of_set (pr_roles p),
          me_permissions = sorted_list_of_set (pr_permissions p)\<rparr>)) ''Profile fetched.'')))), w)"

definition api_list_users ::
  "'e env_scheme \<Rightarrow> int \<Rightarrow> int \<Rightarrow> 'z world_scheme \<Rightarrow> (exn + reply) \<times> 'z world_scheme" where
  "api_list_users env off lim w =
     (let (off, lim) = pagination off lim
      in (bind_sum (list_users off lim w) (\<lambda>(us, n).
          bind_sum (map_result (make_user_out env) us) (\<lambda>its.
            Inr (reply_ok (Some (UsersPage \<lparr>pg_items = its, pg_total = n, pg_offset = off,
              pg_limit = lim\<rparr>)) ''Users fetched.''))), w))"

definition api_create_user ::
  "'e env_scheme \<Rightarrow> io \<Rightarrow> http_request \<Rightarrow> principal \<Rightarrow> register_in \<Rightarrow> 'z world_scheme \<Rightarrow>
     (exn + reply) \<times> 'z world_scheme" where
  "api_create_user env io request p payload w =
     answer (with_context env request (Some p)
         (\<lambda>context. admin_create_user env io (in_email payload) (in_password payload) context) w)
       (\<lambda>u. bind_sum (make_user_out env u) (\<lambda>o'. Inr (reply_created (UserData o') ''User created.'')))"

definition api_get_user ::
  "'e env_scheme \<Rightarrow> int \<Rightarrow> 'z world_scheme \<Rightarrow> (exn + reply) \<times> 'z world_scheme" where
  "api_get_user env uid w =
     (bind_sum (get_user uid w) (\<lambda>u. bind_sum (make_user_out env u) (\<lambda>o'.
        Inr (reply_ok (Some (UserData o')) ''User fetched.''))), w)"

definition api_update_user ::
  "'e env_scheme \<Rightarrow> io \<Rightarrow> http_request \<Rightarrow> principal \<Rightarrow> int \<Rightarrow> user_update_in \<Rightarrow> 'z world_scheme \<Rightarrow>
     (exn + reply) \<times> 'z world_scheme" where
  "api_update_user env io request p uid payload w =
     answer (with_context env request (Some p) (\<lambda>context. update_user env io uid (up_email payload)
         (up_password payload) (up_is_active payload) context) w)
       (\<lambda>u. bind_sum (make_user_out env u) (\<lambda>o'. Inr (reply_ok (Some (UserData o')) ''User updated.'')))"

definition api_delete_user ::
  "'e env_scheme \<Rightarrow> io \<Rightarrow> http_request \<Rightarrow> principal \<Rightarrow> int \<Rightarrow> 'z world_scheme \<Rightarrow>
     (exn + reply) \<times> 'z world_scheme" where
  "api_delete_user env io request p uid w =
     answer (with_context env request (Some p) (\<lambda>context. delete_user env io uid context) w)
       (\<lambda>_. Inr (reply_ok None ''User deleted.''))"

definition api_assign_role ::
  "'e env_scheme \<Rightarrow> io \<Rightarrow> http_request \<Rightarrow> principal \<Rightarrow> int \<Rightarrow> int \<Rightarrow> 'z world_scheme \<Rightarrow>
     (exn + reply) \<times> 'z world_scheme" where
  "api_assign_role env io request p uid rid w =
     answer (with_context env request (Some p) (\<lambda>context. assign_role env io uid rid context) w)
       (\<lambda>_. Inr (reply_ok None ''Role assigned.''))"

definition api_list_roles ::
  "int \<Rightarrow> int \<Rightarrow> 'z world_scheme \<Rightarrow> (exn + reply) \<times> 'z world_scheme" where
  "api_list_roles off lim w =
     (let (off, lim) = rbac_pagination off lim
      in (bind_sum (list_roles off lim w) (\<lambda>(rs, n).
            Inr (reply_ok (Some (RolesPage \<lparr>pg_items = map make_role_out rs, pg_total = n,
              pg_offset = off, pg_limit = lim\<rparr>)) ''Roles fetched.'')), w))"

definition api_list_permissions ::
  "int \<Rightarrow> int \<Rightarrow> 'z world_scheme \<Rightarrow> (exn + reply) \<times> 'z world_scheme" where
  "api_list_permissions off lim w =
     (let (off, lim) = rbac_pagination off lim
      in (bind_sum (list_permissions off lim w) (\<lambda>(ps, n).
            Inr (reply_ok (Some (PermissionsPage \<lparr>pg_items = map make_permission_out ps, pg_total = n,
              pg_offset = off, pg_limit = lim\<rparr>)) ''Permissions fetched.'')), w))"

definition api_list_audit_logs ::
  "'e env_scheme \<Rightarrow> int \<Rightarrow> int \<Rightarrow> int option \<Rightarrow> audit_action option \<Rightarrow> string option \<Rightarrow>
     time option \<Rightarrow> time option \<Rightarrow> 'z world_scheme \<Rightarrow> (exn + reply) \<times> 'z world_scheme" where
  "api_list_audit_logs env off lim aid action res from_at to_at w =
     (let (off, lim) = rbac_pagination off lim
      in (bind_sum (list_audit_logs off lim \<lparr>q_actor_id = aid,
            q_action = map_option action_value action, q_outcome = res, q_from_at = from_at,
            q_to_at = to_at\<rparr> w) (\<lambda>(as, n).
          bind_sum (map_result (make_audit_log_out env) as) (\<lambda>its.
            Inr (reply_ok (Some (AuditLogsPage \<lparr>pg_items = its, pg_total = n, pg_offset = off,
              pg_limit = lim\<rparr>)) ''Audit logs fetched.''))), w))"

definition api_health :: "'s \<Rightarrow> (exn + reply) \<times> 's" where
  "api_health w = (Inr (reply_ok (Some (StatusData [(''status'', ''ok'')])) ''Service is healthy.''), w)"

subsection \<open>Serving a request\<close>

text \<open>
  The routes with the parameters of their path, query and body. Ninja runs the authentication
  callback of the route, then its throttle (\<open>allowed\<close> is the throttle's answer), then validates the
  payload, then calls the guarded view; \<open>None\<close> is a response of Django's own with status 500.
\<close>

datatype api_call =
    PostRegister string string
  | PostLogin string string
  | PostRefresh string
  | PostLogout string
  | PostLogoutAll
  | GetMe
  | GetUsers int int
  | PostUsers string string
  | GetUser int
  | PatchUser int "string option" "string option" "bool option"
  | DeleteUser int
  | PostUserRoles int int
  | GetRoles int int
  | GetPermissions int int
  | GetAuditLogs int int "int option" "audit_action option" "string option" "time option" "time option"
  | GetHealth

definition validated ::
  "exn + 'p \<Rightarrow> ('p \<Rightarrow> 's \<Rightarrow> (exn + 'a) \<times> 's) \<Rightarrow> 's \<Rightarrow> (exn + 'a) \<times> 's" where
  "validated payload view w = (case payload of Inl e \<Rightarrow> (Inl e, w) | Inr p \<Rightarrow> view p w)"

fun run_route ::
  "'e env_scheme \<Rightarrow> io \<Rightarrow> http_request \<Rightarrow> principal option \<Rightarrow> api_call \<Rightarrow> 'z world_scheme \<Rightarrow>
     (exn + reply) \<times> 'z world_scheme" where
  "run_route env io request auth (PostRegister e p) =
     validated (valid_register env e p) (api_register env io request)"
| "run_route env io request auth (PostLogin e p) =
     validated (valid_register env e p) (api_login env io request)"
| "run_route env io request auth (PostRefresh t) =
     validated (valid_refresh t) (api_refresh env io request)"
| "run_route env io request auth (PostLogout t) =
     validated (valid_refresh t) (api_logout env io request auth)"
| "run_route env io request auth PostLogoutAll = api_logout_all env io request auth"
| "run_route env io request auth GetMe = api_me env auth"
| "run_route env io request auth (GetUsers off lim) =
     require_permission ''user.read'' auth (\<lambda>_. api_list_users env off lim)"
| "run_route env io request auth (PostUsers e p) = validated (valid_register env e p)
     (\<lambda>pl. require_permission ''user.create'' auth (\<lambda>pr. api_create_user env io request pr pl))"
| "run_route env io request auth (GetUser i) =
     require_permission ''user.read'' auth (\<lambda>_. api_get_user env i)"
| "run_route env io request auth (PatchUser i e p a) = validated (valid_user_update env e p a)
     (\<lambda>pl. require_permission ''user.update'' auth (\<lambda>pr. api_update_user env io request pr i pl))"
| "run_route env io request auth (DeleteUser i) =
     require_permission ''user.delete'' auth (\<lambda>pr. api_delete_user env io request pr i)"
| "run_route env io request auth (PostUserRoles i r) = validated (valid_assign_role r)
     (\<lambda>rid. require_permission ''role.assign'' auth (\<lambda>pr. api_assign_role env io request pr i rid))"
| "run_route env io request auth (GetRoles off lim) =
     require_permission ''role.read'' auth (\<lambda>_. api_list_roles off lim)"
| "run_route env io request auth (GetPermissions off lim) =
     require_permission ''permission.read'' auth (\<lambda>_. api_list_permissions off lim)"
| "run_route env io request auth (GetAuditLogs off lim aid action res from_at to_at) =
     require_permission ''audit.read'' auth
       (\<lambda>_. api_list_audit_logs env off lim aid action res from_at to_at)"
| "run_route env io request auth GetHealth = api_health"

text \<open>The routes declared with \<open>auth=JWTAuth()\<close> and with a throttle.\<close>

fun needs_auth :: "api_call \<Rightarrow> bool" where
  "needs_auth (PostRegister _ _) = False"
| "needs_auth (PostLogin _ _) = False"
| "needs_auth (PostRefresh _) = False"
| "needs_auth GetHealth = False"
| "needs_auth _ = True"

fun throttled :: "api_call \<Rightarrow> bool" where
  "throttled (PostRegister _ _) = True"
| "throttled (PostLogin _ _) = True"
| "throttled (PostRefresh _) = True"
| "throttled _ = False"

definition run_checked ::
  "'e env_scheme \<Rightarrow> io \<Rightarrow> bool \<Rightarrow> http_request \<Rightarrow> api_call \<Rightarrow> 'z world_scheme \<Rightarrow>
     (exn + reply) \<times> 'z world_scheme" where
  "run_checked env io allowed request call w =
     (if needs_auth call
      then case jwt_call env io request w of
          Inl e \<Rightarrow> (Inl e, w)
        | Inr None \<Rightarrow> (Inl (HttpError 401), w)
        | Inr (Some p) \<Rightarrow> run_route env io request (Some p) call w
      else if throttled call \<and> \<not> allowed then (Inl (HttpError 429), w)
      else run_route env io request None call w)"

definition respond :: "exn + reply \<Rightarrow> reply option" where
  "respond r = (case r of Inl e \<Rightarrow> error_response e | Inr a \<Rightarrow> Some a)"

definition serve ::
  "'e env_scheme \<Rightarrow> io \<Rightarrow> bool \<Rightarrow> http_request \<Rightarrow> api_call \<Rightarrow> 'z world_scheme \<Rightarrow>
     reply option \<times> 'z world_scheme" where
  "serve env io allowed request call w =
     (case run_checked env io allowed request call w of (r, w') \<Rightarrow> (respond r, w'))"

subsection \<open>What a response says\<close>

text \<open>The permission a route asks for.\<close>

fun route_permission :: "api_call \<Rightarrow> string option" where
  "route_permission (GetUsers _ _) = Some ''user.read''"
| "route_permission (GetUser _) = Some ''user.read''"
| "route_permission (PostUsers _ _) = Some ''user.create''"
| "route_permission (PatchUser _ _ _ _) = Some ''user.update''"
| "route_permission (DeleteUser _) = Some ''user.delete''"
| "route_permission (PostUserRoles _ _) = Some ''role.assign''"
| "route_permission (GetRoles _ _) = Some ''role.read''"
| "route_permission (GetPermissions _ _) = Some ''permission.read''"
| "route_permission (GetAuditLogs _ _ _ _ _ _ _) = Some ''audit.read''"
| "route_permission _ = None"

lemma validated_Inr [simp]: "validated (Inr p) view w = view p w"
  and validated_Inl [simp]: "validated (Inl e) view w = (Inl e, w)"
  by (simp_all add: validated_def)

text \<open>The permissions the principal of a request carries.\<close>

definition granted :: "principal option \<Rightarrow> string set" where
  "granted auth = (case auth of None \<Rightarrow> {} | Some p \<Rightarrow> pr_permissions p)"

lemma require_permission_denied:
  "c \<notin> granted auth \<Longrightarrow>
    require_permission c auth view w = (Inl (raise_domain PermissionDenied), w)"
  by (auto simp: require_permission_def granted_def split: option.splits)

lemma validated_denied:
  "c \<notin> granted auth \<Longrightarrow>
    \<exists>e. validated payload (\<lambda>x. require_permission c auth (view x)) w = (Inl e, w)"
  by (cases payload) (simp_all add: require_permission_denied)

lemma run_route_denied:
  assumes "route_permission call = Some c" "c \<notin> granted auth"
  shows "\<exists>e. run_route env io request auth call w = (Inl e, w)"
  using assms by (cases call) (auto simp: require_permission_denied validated_denied)

lemma route_permission_needs_auth: "route_permission call = Some c \<Longrightarrow> needs_auth call"
  by (cases call) auto

lemma error_response_failure: "error_response e = Some (st, r) \<Longrightarrow> \<not> success r"
  using error_response_envelope by blast

lemma serve_refused:
  assumes "needs_auth call"
    and "\<nexists>p. jwt_call env io request w = Inr (Some p) \<and>
      (\<forall>c. route_permission call = Some c \<longrightarrow> c \<in> pr_permissions p)"
  shows "\<exists>r. serve env io allowed request call w = (r, w) \<and>
    (\<forall>st b. r = Some (st, b) \<longrightarrow> \<not> success b \<and> code b = st \<and> data b = None)"
proof -
  have "\<exists>e. run_checked env io allowed request call w = (Inl e, w)"
  proof (cases "jwt_call env io request w")
    case (Inr a)
    show ?thesis
    proof (cases a)
      case (Some p)
      with assms(2) Inr obtain c where "route_permission call = Some c" "c \<notin> granted a"
        by (auto simp: granted_def)
      with assms(1) Inr Some run_route_denied show ?thesis by (fastforce simp: run_checked_def)
    qed (simp add: assms(1) Inr run_checked_def)
  qed (simp add: assms(1) run_checked_def)
  then obtain e where "serve env io allowed request call w = (error_response e, w)"
    by (auto simp: serve_def respond_def)
  then show ?thesis using error_response_envelope by blast
qed

subsection \<open>Properties\<close>

text \<open>
  No administrative effect without the permission: a request to an administrative route whose
  bearer token is missing, invalid, revoked, or does not carry the permission of the route leaves
  the database and Redis exactly as they were, and the response, if the API gives one, is a failure
  without data.
\<close>

theorem admin_routes_guarded:
  assumes "route_permission call = Some c"
    and "\<nexists>p. jwt_call env io request w = Inr (Some p) \<and> c \<in> pr_permissions p"
  shows "\<exists>r. serve env io allowed request call w = (r, w) \<and>
    (\<forall>st b. r = Some (st, b) \<longrightarrow> \<not> success b \<and> code b = st \<and> data b = None)"
  using route_permission_needs_auth [OF assms(1)] by (rule serve_refused) (use assms in auto)

theorem admin_routes_guarded_witness:
  "snd (serve jwt_env (sample_io ''u'') True (bearer_request ''tok'') (DeleteUser 2)
     (session_world None)) = session_world None"
proof -
  have "\<nexists>p. jwt_call jwt_env (sample_io ''u'') (bearer_request ''tok'') (session_world None) =
      Inr (Some p) \<and> ''user.delete'' \<in> pr_permissions p"
    by (simp add: sample_call sample_principal_def)
  from admin_routes_guarded [OF _ this, of "DeleteUser 2" True]
  show ?thesis by (metis route_permission.simps(5) snd_conv)
qed

lemma pagination_bounds:
  "pagination off lim = (o', l) \<Longrightarrow> 0 \<le> o' \<and> 1 \<le> l \<and> l \<le> 100"
  by (auto simp: pagination_def)

lemma map_result_Inr:
  "map_result f xs = Inr ys \<longleftrightarrow> list_all2 (\<lambda>x y. f x = Inr y) xs ys"
  by (induction xs arbitrary: ys) (auto simp: bind_sum_eq_Inr list_all2_Cons1)

lemma map_result_ok: "is_ok (map_result f xs) \<longleftrightarrow> (\<forall>x \<in> set xs. is_ok (f x))"
proof (induction xs)
  case (Cons x xs)
  then show ?case by (cases "f x"; cases "map_result f xs") simp_all
qed simp

lemma make_user_out_Inr:
  "make_user_out env (user_dto_from_model u) = Inr x \<longleftrightarrow>
     env_email_str env (u_email u) = Some (uo_email x) \<and>
     x = \<lparr>uo_id = u_id u, uo_email = uo_email x, uo_is_active = u_is_active u,
       uo_is_staff = u_is_staff u, uo_date_joined = u_date_joined u\<rparr>"
  by (auto simp: make_user_out_def out_email_def user_dto_from_model_def bind_sum_eq_Inr
      split: option.splits)

lemma make_user_out_ok:
  "is_ok (make_user_out env (user_dto_from_model u)) \<longleftrightarrow> env_email_str env (u_email u) \<noteq> None"
  by (auto simp: make_user_out_def out_email_def user_dto_from_model_def split: option.split)

lemma map_result_map: "map_result f (map g xs) = map_result (\<lambda>x. f (g x)) xs"
  by (induction xs) simp_all

text \<open>What a listing shows of an account.\<close>

definition shows_user :: "'e env_scheme \<Rightarrow> user_row \<Rightarrow> user_out \<Rightarrow> bool" where
  "shows_user env u x \<longleftrightarrow> uo_id x = u_id u \<and> uo_is_active x = u_is_active u \<and>
     uo_is_staff x = u_is_staff u \<and> env_email_str env (u_email u) = Some (uo_email x)"

lemma make_user_out_shows: "make_user_out env (user_dto_from_model u) = Inr x \<Longrightarrow> shows_user env u x"
  unfolding make_user_out_Inr shows_user_def by (metis user_out.select_convs(1,3,4))

text \<open>The pages a listing answers with: what a page holds, whatever was asked for.\<close>

definition page_sound :: "'a page_out \<Rightarrow> 'b list \<Rightarrow> ('b \<Rightarrow> 'a \<Rightarrow> bool) \<Rightarrow> bool" where
  "page_sound pg all R \<longleftrightarrow> 0 \<le> pg_offset pg \<and> 1 \<le> pg_limit pg \<and> pg_limit pg \<le> 100 \<and>
     length (pg_items pg) \<le> 100 \<and> pg_total pg = int (length all) \<and>
     list_all2 R (take (nat (pg_limit pg)) (drop (nat (pg_offset pg)) all)) (pg_items pg)"

text \<open>
  C31. Listings are bounded pages in id order: whatever offset and limit a request gives, negative ones
  included, a successful user listing has between one and a hundred as its limit, a non-negative
  offset, the number of all accounts as its total, and as its items exactly that slice of the accounts
  in the order of their ids, each shown without its password. It succeeds exactly when the offset is
  below 2 to the 63, the most PostgreSQL takes (the handler only clamps it from below: a larger one is
  the database's \<open>DataError\<close>, an internal error of the API), and every address on the page is one
  that \<open>EmailStr\<close> accepts. It changes nothing.
\<close>

theorem list_users_page:
  "let (r, w') = api_list_users env off lim w; us = sort_key u_id (rows (users w))
   in w' = w \<and>
     (\<forall>rep. r = Inr rep \<longrightarrow> (\<exists>pg. rep = reply_ok (Some (UsersPage pg)) ''Users fetched.'' \<and>
        page_sound pg us (shows_user env))) \<and>
     (off < 2 ^ 63 \<or> r = Inl DataError) \<and>
     (is_ok r \<longleftrightarrow> off < 2 ^ 63 \<and>
        (\<forall>u \<in> set (page (fst (pagination off lim)) (snd (pagination off lim)) us).
           env_email_str env (u_email u) \<noteq> None))"
proof (cases "off < 2 ^ 63")
  case False
  then have "api_list_users env off lim w = (Inl DataError, w)"
    by (simp add: api_list_users_def list_users_def user_alist_def sql_slice_def pagination_def)
  with False show ?thesis by simp
next
  case True
  obtain o' l where p: "pagination off lim = (o', l)" by (cases "pagination off lim")
  let ?us = "sort_key u_id (rows (users w))"
  let ?page = "page o' l ?us"
  let ?f = "\<lambda>u. make_user_out env (user_dto_from_model u)"
  have o': "o' < 2 ^ 63" using p True by (auto simp: pagination_def)
  have call: "api_list_users env off lim w = (bind_sum (map_result ?f ?page) (\<lambda>its.
      Inr (reply_ok (Some (UsersPage \<lparr>pg_items = its, pg_total = int (length ?us), pg_offset = o',
        pg_limit = l\<rparr>)) ''Users fetched.'')), w)"
    using o' by (simp add: api_list_users_def p list_users_def user_alist_def sql_slice_def
        user_acount_def map_result_map)
  have ok: "is_ok (map_result ?f ?page) \<longleftrightarrow> (\<forall>u \<in> set ?page. env_email_str env (u_email u) \<noteq> None)"
    unfolding map_result_ok make_user_out_ok ..
  show ?thesis
  proof (cases "map_result ?f ?page")
    case (Inl e)
    with call ok True show ?thesis by (simp add: p)
  next
    case (Inr its)
    then have rel: "list_all2 (\<lambda>u x. ?f u = Inr x) ?page its" by (simp add: map_result_Inr)
    have "length its \<le> nat l"
      using list_all2_lengthD [OF rel] length_page [of o' l ?us] by simp
    also have "nat l \<le> 100" using pagination_bounds [OF p] by (simp add: nat_le_iff)
    finally have "length its \<le> 100" .
    moreover have "list_all2 (shows_user env) ?page its"
      by (rule list_all2_mono [OF rel]) (rule make_user_out_shows)
    ultimately have "page_sound \<lparr>pg_items = its, pg_total = int (length ?us), pg_offset = o', pg_limit = l\<rparr>
        ?us (shows_user env)"
      using pagination_bounds [OF p] by (simp add: page_sound_def page_def)
    then show ?thesis using Inr call ok True by (simp add: p del: split_paired_All) blast
  qed
qed

theorem list_users_page_witness:
  "is_ok (fst (api_list_users sample_env (- 5) 1000 (session_world None))) \<and>
   fst (api_list_users sample_env 9223372036854775808 10 (session_world None)) = Inl DataError"
proof
  have e: "env_email_str sample_env e \<noteq> None" for e by (simp add: sample_env_def)
  obtain r w' where a: "api_list_users sample_env (- 5) 1000 (session_world None) = (r, w')"
    by (cases "api_list_users sample_env (- 5) 1000 (session_world None)")
  from list_users_page [of sample_env "- 5" 1000 "session_world None"] have "is_ok r"
    unfolding a Let_def prod.case using e by (simp add: a)
  with a show "is_ok (fst (api_list_users sample_env (- 5) 1000 (session_world None)))" by simp
  obtain q v where b: "api_list_users sample_env 9223372036854775808 10 (session_world None) = (q, v)"
    by (cases "api_list_users sample_env 9223372036854775808 10 (session_world None)")
  from list_users_page [of sample_env 9223372036854775808 10 "session_world None"] have "q = Inl DataError"
    unfolding b Let_def prod.case by simp
  with b show "fst (api_list_users sample_env 9223372036854775808 10 (session_world None)) = Inl DataError"
    by simp
qed

text \<open>The remaining lifetime covers the rest of the token's life.\<close>

lemma remaining_ttl_covers:
  assumes "io_now io \<le> t" "now < pr_expires_at p"
  shows "now < t + remaining_access_ttl io p * sec \<or> pr_expires_at p \<le> io_now io"
proof (cases "pr_expires_at p \<le> io_now io")
  case False
  have "pr_expires_at p - io_now io \<le> ceil_seconds (pr_expires_at p - io_now io) * sec"
    by (rule ceil_seconds_bounds)
  also have "\<dots> \<le> remaining_access_ttl io p * sec"
    unfolding remaining_access_ttl_def by (intro mult_right_mono) simp_all
  finally show ?thesis using assms by simp
qed simp

lemma remaining_ttl_pos: "io_now io < pr_expires_at p \<Longrightarrow> 0 < remaining_access_ttl io p"
  using ceil_seconds_bounds(1) [of "pr_expires_at p - io_now io"]
  by (cases "ceil_seconds (pr_expires_at p - io_now io) \<le> 0")
    (auto simp: remaining_access_ttl_def mult_le_0_iff)

text \<open>Logging out rewrites one column of one row of the token table.\<close>

lemma logout_tokens:
  assumes "tokens_ok w"
  shows "tokens (logout env io raw context jti ttl w) =
    upd_where (\<lambda>t. t_token_hash t = hash_refresh_token (env_sha env) raw \<and> active t)
      (\<lambda>t. t\<lparr>t_revoked_at := Some (io_now io)\<rparr>) (tokens w)"
proof -
  let ?h = "hash_refresh_token (env_sha env) raw"
  let ?w1 = "case (jti, ttl) of (Some j, Some n) \<Rightarrow> block_token (io_redis io) j n (io_redis_at io) w | _ \<Rightarrow> w"
  have w1: "refresh_tokens ?w1 = refresh_tokens w" by (simp split: option.split)
  show ?thesis
  proof (cases "token_by_hash ?h w")
    case None
    then have "logout env io raw context jti ttl w = ?w1"
      using w1 by (simp add: logout_def aget_by_hash_def token_by_hash_def)
    moreover have "\<forall>t \<in> set (tokens w). t_token_hash t \<noteq> ?h"
      using None unfolding token_by_hash_None by (metis imageI)
    then have "upd_where (\<lambda>t. t_token_hash t = ?h \<and> active t)
        (\<lambda>t. t\<lparr>t_revoked_at := Some (io_now io)\<rparr>) (tokens w) = tokens w"
      unfolding upd_where_def by (intro map_idI) simp
    ultimately show ?thesis using w1 by simp
  next
    case (Some u)
    then have l: "aget_by_hash ?h ?w1 = Some (refresh_token_dto_of u)"
      using w1 by (simp add: aget_by_hash_def token_by_hash_def)
    then have lo: "tokens (logout env io raw context jti ttl w) =
        upd_where (\<lambda>t. t_id t = t_id u \<and> active t) (\<lambda>t. t\<lparr>t_revoked_at := Some (io_now io)\<rparr>) (tokens w)"
      using w1 by (simp add: logout_def refresh_token_dto_of_def arevoke_def revoke_tokens_def)
    have u: "u \<in> set (tokens w)" "t_token_hash u = ?h" using token_by_hash_Some [OF Some] by auto
    have "t_id v = t_id u \<longleftrightarrow> t_token_hash v = ?h" if v: "v \<in> set (tokens w)" for v
    proof
      assume "t_id v = t_id u"
      then have "v = u" by (rule tokens_ok_id_eq [OF assms v u(1)])
      with u(2) show "t_token_hash v = ?h" by simp
    next
      assume "t_token_hash v = ?h"
      with v have "token_by_hash ?h w = Some v" by (simp add: token_by_hash_iff [OF assms])
      with Some show "t_id v = t_id u" by simp
    qed
    then show ?thesis unfolding lo upd_where_def by simp
  qed
qed

text \<open>
  C16. Logging out ends the session and nothing else: the request succeeds whether or not its refresh
  token is known; afterwards the token table is, row for row, the one before with the presented
  token, if it was live, revoked at the request's time, so that no row with that refresh token is
  live; and, when Redis answers, the access token of the request is refused until it expires by
  itself.
\<close>

theorem logout_ends_session:
  assumes "db_ok w" "from_request (cfg_trusted_proxy_cidrs env) request (Some (pr_user_id p)) = Inr context"
    and "api_logout env io request (Some p) raw w = (res, w')"
  shows "res = Inr (reply_ok None ''Logged out.'') \<and>
    tokens w' = upd_where (\<lambda>t. t_token_hash t = hash_refresh_token (env_sha env) raw \<and> active t)
      (\<lambda>t. t\<lparr>t_revoked_at := Some (io_now io)\<rparr>) (tokens w) \<and>
    (\<forall>t \<in> set (tokens w'). t_token_hash t = hash_refresh_token (env_sha env) raw \<longrightarrow> \<not> active t) \<and>
    (\<forall>uid iat now. io_redis io \<and> io_now io < pr_expires_at p \<and> io_now io \<le> io_redis_at io \<and>
       now < pr_expires_at p \<longrightarrow> is_blocked True (pr_jti p) uid iat now w')"
proof -
  let ?ttl = "remaining_access_ttl io p"
  have w': "w' = logout env io raw context (Some (pr_jti p)) (Some ?ttl) w"
    "res = Inr (reply_ok None ''Logged out.'')"
    using assms(2,3) by (auto simp: api_logout_def the_principal_def with_context_def answer_def)
  have "tokens_ok w" using assms(1) by (simp add: db_ok_def)
  note tok = logout_tokens [OF this, of env io raw "context" "Some (pr_jti p)" "Some ?ttl"]
  have dead: "\<forall>t \<in> set (tokens w'). t_token_hash t = hash_refresh_token (env_sha env) raw \<longrightarrow> \<not> active t"
    unfolding w'(1) tok ball_upd_where by simp
  have "is_blocked True (pr_jti p) uid iat now w'"
    if h: "io_redis io" "io_now io < pr_expires_at p" "io_now io \<le> io_redis_at io" "now < pr_expires_at p"
    for uid iat now
  proof -
    have "now < io_redis_at io + ?ttl * sec" using remaining_ttl_covers [OF h(3,4)] h(2) by simp
    then have "is_blocked True (pr_jti p) uid iat now
        (block_token True (pr_jti p) ?ttl (io_redis_at io) w)"
      unfolding is_blocked_iff using remaining_ttl_pos [OF h(2)] by (simp add: bl.block_jti)
    moreover have "redis w' = redis (block_token True (pr_jti p) ?ttl (io_redis_at io) w)"
      using h(1) by (simp add: w'(1) logout_def Let_def split: option.split)
    ultimately show ?thesis by (simp cong: is_blocked_cong)
  qed
  with tok dead w' show ?thesis by simp
qed

theorem logout_ends_session_witness:
  "is_blocked True ''jt'' 2 (10 * sec) (20 * sec) (snd (api_logout jwt_env (sample_io ''u'')
     (bearer_request ''tok'') (Some sample_principal) ''t'' (session_world None)))"
proof -
  have ip: "ip_address ''198.51.100.7'' = Some (V4 3325256711)"
    "ip_network ''10.0.0.0/8'' = Some (Net4 167772160 8)"
    by code_simp+
  obtain ctx where c: "from_request (cfg_trusted_proxy_cidrs jwt_env) (bearer_request ''tok'')
      (Some (pr_user_id sample_principal)) = Inr ctx"
    by (cases "from_request (cfg_trusted_proxy_cidrs jwt_env) (bearer_request ''tok'')
      (Some (pr_user_id sample_principal))")
      (auto simp: from_request_def client_ip_def bearer_request_def ip jwt_env_def sample_env_def
        bind_sum_eq_Inl split: if_splits)
  from logout_ends_session [OF session_db_ok c, OF surjective_pairing, of "sample_io ''u''" "''t''" None]
  show ?thesis by (simp add: sample_principal_def)
qed

subsection \<open>The envelope\<close>

definition success_reply :: "reply \<Rightarrow> bool" where
  "success_reply rep \<longleftrightarrow> fst rep \<in> {200, 201} \<and> success (snd rep) \<and> code (snd rep) = fst rep"

lemma success_reply_simps [simp]: "success_reply (reply_ok d m)" "success_reply (reply_created x m)"
  by (simp_all add: success_reply_def reply_ok_def reply_created_def success_response_def)

text \<open>A view all of whose answers are successes.\<close>

definition sound_view :: "(exn + reply) \<times> 's \<Rightarrow> bool" where
  "sound_view r \<longleftrightarrow> (\<forall>rep. fst r = Inr rep \<longrightarrow> success_reply rep)"

lemma sound_view_simps [simp]:
  "sound_view (Inl e, w)" "sound_view (Inr rep, w) \<longleftrightarrow> success_reply rep"
  by (simp_all add: sound_view_def)

lemma sound_bind: "(\<And>x. sound_view (k x, w)) \<Longrightarrow> sound_view (bind_sum r k, w)"
  by (cases r) simp_all

lemma sound_answer: "(\<And>x. sound_view (k x, snd r)) \<Longrightarrow> sound_view (answer r k)"
  unfolding answer_def by (rule sound_bind)

lemma sound_require:
  "(\<And>p. sound_view (view p w)) \<Longrightarrow> sound_view (require_permission c auth view w)"
  by (simp add: require_permission_def split: option.split)

lemma sound_validated:
  "(\<And>p. sound_view (view p w)) \<Longrightarrow> sound_view (validated payload view w)"
  by (cases payload) simp_all

lemma sound_case: "(\<And>p. sound_view (k p)) \<Longrightarrow> sound_view (case r of Inl e \<Rightarrow> (Inl e, w) | Inr p \<Rightarrow> k p)"
  by (cases r) simp_all

lemmas sound_intros = sound_answer sound_bind sound_require sound_validated sound_case

lemmas view_defs =
  api_register_def api_login_def api_refresh_def api_logout_def api_logout_all_def api_me_def
  api_list_users_def api_create_user_def api_get_user_def api_update_user_def api_delete_user_def
  api_assign_role_def api_list_roles_def api_list_permissions_def api_list_audit_logs_def api_health_def

lemma sound_run_route: "sound_view (run_route env io request auth call w)"
  by (cases call) (auto simp: view_defs Let_def intro!: sound_intros split: prod.split)

text \<open>
  C29. One envelope for every answer: whatever the request, a response of the API carries its HTTP
  status as its code; it is a success only with status 200 or 201, and a failure carries no data and
  only the fixed message of its status, so no detail of the exception reaches the client.
\<close>

theorem serve_envelope:
  assumes "serve env io allowed request call w = (Some (st, b), w')"
  shows "code b = st \<and> (success b \<longrightarrow> st \<in> {200, 201}) \<and>
    (\<not> success b \<longrightarrow> data b = None \<and> message b = safe_error_message st)"
proof -
  obtain r where r: "run_checked env io allowed request call w = (r, w')" "respond r = Some (st, b)"
    using assms by (auto simp: serve_def split: prod.splits)
  show ?thesis
  proof (cases r)
    case (Inl e)
    then show ?thesis using r(2) error_response_envelope [of e st b] by (simp add: respond_def)
  next
    case (Inr rep)
    have "\<exists>auth. run_route env io request auth call w = (Inr rep, w')"
      using r(1) unfolding run_checked_def Inr
      by (auto split: if_splits sum.splits option.splits)
    then have "success_reply rep" using sound_run_route unfolding sound_view_def by (metis fst_conv)
    with r(2) Inr show ?thesis by (auto simp: respond_def success_reply_def)
  qed
qed

theorem serve_envelope_witness:
  "serve sample_env (sample_io ''t'') False (bearer_request ''x'') (PostRefresh ''t'') sample_world =
     (Some (429, \<lparr>success = False, code = 429, message = ''Too many requests.'', data = None\<rparr>),
      sample_world)"
proof -
  have "serve sample_env (sample_io ''t'') False (bearer_request ''x'') (PostRefresh ''t'') sample_world =
      (Some (handle_http_error 429), sample_world)"
    by (simp add: serve_def run_checked_def respond_def)
  moreover from this [unfolded handle_http_error_def] have "code (snd (handle_http_error 429 :: reply)) = 429"
    using serve_envelope by (metis handle_http_error_def snd_conv)
  ultimately show ?thesis by (simp add: handle_http_error_def safe_error_message_def SAFE_ERROR_MESSAGES_def)
qed

end
