(* ===== verification/Commands.thy ===== *)
theory Commands
  imports AdminService
begin

text \<open>
  The management commands of \<open>apps/common/management/commands/\<close>: \<open>bootstrap_admin\<close>, which
  creates or repairs an administrator in one transaction, and \<open>wait_for_db\<close>, a polling loop.

  What the loop meets is given by two functions of the attempt: \<open>conn k\<close> is the outcome of the
  \<open>k\<close>-th \<open>ensure_connection\<close> (\<open>None\<close> a connection, \<open>Some DatabaseUnavailable\<close> Django's
  \<open>OperationalError\<close>, another exception as it is) and \<open>clock k\<close> is what \<open>monotonic\<close> reads after
  that attempt failed. The command's two numbers are Python floats: a finite one is a number of
  microseconds.
\<close>

subsection \<open>bootstrap_admin\<close>

text \<open>
  \<open>_password\<close>: the environment variable, then the terminal. \<open>typed\<close> is \<open>None\<close> when standard
  input is not a terminal.
\<close>

definition bootstrap_password :: "string option \<Rightarrow> string option \<Rightarrow> exn + string" where
  "bootstrap_password env_var typed =
     (case nonempty env_var of
        Some p \<Rightarrow> Inr p
      | None \<Rightarrow>
          (case nonempty typed of
             Some p \<Rightarrow> Inr p
           | None \<Rightarrow> Inl (CommandError
               ''Set BOOTSTRAP_ADMIN_PASSWORD when creating a new administrator.'')))"

text \<open>Sets the flags that are not set, and saves only when one was not.\<close>

definition ensure_django_admin_flags :: "user_row \<Rightarrow> 'z db_scheme \<Rightarrow> (exn + unit) \<times> 'z db_scheme" where
  "ensure_django_admin_flags u s =
     (let f = no_fields\<lparr>f_is_active := (if u_is_active u then None else Some True),
                f_is_staff := (if u_is_staff u then None else Some True),
                f_is_superuser := (if u_is_superuser u then None else Some True)\<rparr>
      in if f = no_fields then (Inr (), s)
         else case update_users (\<lambda>v. u_id v = u_id u) (set_fields f) s of
           (Inl e, s') \<Rightarrow> (Inl e, s') | (Inr n, s') \<Rightarrow> (Inr (), s'))"

text \<open>\<open>UserRole.objects.get_or_create(user=user, role=role)\<close>, and whether it created.\<close>

definition get_or_create_user_role ::
  "int \<Rightarrow> int \<Rightarrow> 'z db_scheme \<Rightarrow> (exn + bool) \<times> 'z db_scheme" where
  "get_or_create_user_role uid rid s =
     (case first (\<lambda>l. ur_user_id l = uid \<and> ur_role_id l = rid) (rows (user_roles s)) of
        Some l \<Rightarrow> (Inr False, s)
      | None \<Rightarrow> (case create_user_role uid rid s of
          (Inl e, s') \<Rightarrow> (Inl e, s') | (Inr l, s') \<Rightarrow> (Inr True, s')))"

record bootstrap_report =
  br_created :: bool
  br_email :: string
  br_role_created :: bool

definition bootstrap_user ::
  "(string \<Rightarrow> string) \<Rightarrow> make_password \<Rightarrow> string \<Rightarrow> time \<Rightarrow> string \<Rightarrow> string option \<Rightarrow> string option \<Rightarrow>
     'z db_scheme \<Rightarrow> (exn + bool \<times> user_row) \<times> 'z db_scheme" where
  "bootstrap_user dj mkpw salt now email env_var typed s =
     (case first (\<lambda>u. u_email u = email) (rows (users s)) of
        None \<Rightarrow>
          (case bootstrap_password env_var typed of
             Inl e \<Rightarrow> (Inl e, s)
           | Inr p \<Rightarrow>
               (case manager_create_superuser dj mkpw salt now email (Some p) no_fields s of
                  (Inl e, s') \<Rightarrow> (Inl e, s') | (Inr u, s') \<Rightarrow> (Inr (True, u), s')))
      | Some u \<Rightarrow>
          (case ensure_django_admin_flags u s of
             (Inl e, s') \<Rightarrow> (Inl e, s') | (Inr _, s') \<Rightarrow> (Inr (False, u), s')))"

definition bootstrap_body ::
  "(string \<Rightarrow> string) \<Rightarrow> make_password \<Rightarrow> string \<Rightarrow> time \<Rightarrow> string \<Rightarrow> string option \<Rightarrow> string option \<Rightarrow>
     'z db_scheme \<Rightarrow> (exn + bootstrap_report) \<times> 'z db_scheme" where
  "bootstrap_body dj mkpw salt now email env_var typed s =
     (case first (\<lambda>r. r_name r = ''admin'') (rows (roles s)) of
        None \<Rightarrow> (Inl (CommandError ''The authz admin role does not exist. Run migrate first.''), s)
      | Some admin_role \<Rightarrow>
          (case bootstrap_user dj mkpw salt now email env_var typed s of
             (Inl e, s1) \<Rightarrow> (Inl e, s1)
           | (Inr (new, u), s1) \<Rightarrow>
               (case get_or_create_user_role (u_id u) (r_id admin_role) s1 of
                  (Inl e, s2) \<Rightarrow> (Inl e, s2)
                | (Inr role_new, s2) \<Rightarrow>
                    (Inr \<lparr>br_created = new, br_email = u_email u, br_role_created = role_new\<rparr>, s2))))"

definition bootstrap_admin ::
  "(string \<Rightarrow> string) \<Rightarrow> make_password \<Rightarrow> string \<Rightarrow> time \<Rightarrow> string \<Rightarrow> string option \<Rightarrow> string option \<Rightarrow>
     'z db_scheme \<Rightarrow> (exn + bootstrap_report) \<times> 'z db_scheme" where
  "bootstrap_admin dj mkpw salt now email env_var typed s =
     run_in_transaction
       (bootstrap_body dj mkpw salt now (normalize_email dj email) env_var typed) s"

text \<open>The address is a required option: without it argparse refuses the command, as \<open>usage\<close> says.\<close>

definition bootstrap_arguments :: "exn \<Rightarrow> string option \<Rightarrow> exn + string" where
  "bootstrap_arguments usage email = (case email of None \<Rightarrow> Inl usage | Some e \<Rightarrow> Inr e)"

definition bootstrap_command ::
  "(string \<Rightarrow> string) \<Rightarrow> make_password \<Rightarrow> string \<Rightarrow> time \<Rightarrow> exn \<Rightarrow> string option \<Rightarrow>
     string option \<Rightarrow> string option \<Rightarrow> 'z db_scheme \<Rightarrow> (exn + bootstrap_report) \<times> 'z db_scheme" where
  "bootstrap_command dj mkpw salt now usage email env_var typed s =
     (case bootstrap_arguments usage email of
        Inl e \<Rightarrow> (Inl e, s)
      | Inr e \<Rightarrow> bootstrap_admin dj mkpw salt now e env_var typed s)"

subsection \<open>wait_for_db\<close>

datatype pyfloat = Num int | PosInf | NegInf | NaN

fun less_zero :: "pyfloat \<Rightarrow> bool" where
  "less_zero (Num x) = (x < 0)"
| "less_zero NegInf = True"
| "less_zero _ = False"

fun at_most_zero :: "pyfloat \<Rightarrow> bool" where
  "at_most_zero (Num x) = (x \<le> 0)"
| "at_most_zero NegInf = True"
| "at_most_zero _ = False"

fun add_float :: "int \<Rightarrow> pyfloat \<Rightarrow> pyfloat" where
  "add_float c (Num x) = Num (c + x)"
| "add_float c f = f"

text \<open>\<open>c >= f\<close>: false for a NaN.\<close>

fun reached :: "int \<Rightarrow> pyfloat \<Rightarrow> bool" where
  "reached c (Num x) = (x \<le> c)"
| "reached c NegInf = True"
| "reached c _ = False"

text \<open>\<open>time.sleep\<close> refuses a NaN and what does not fit 64 bits of nanoseconds.\<close>

fun sleep_error :: "pyfloat \<Rightarrow> exn option" where
  "sleep_error (Num x) = (if 2 ^ 63 \<le> x * 1000 then Some OverflowError else None)"
| "sleep_error NaN = Some (ValueError ''Invalid value NaN (not a number)'')"
| "sleep_error _ = Some OverflowError"

partial_function (option) wait_loop ::
  "(nat \<Rightarrow> exn option) \<Rightarrow> (nat \<Rightarrow> int) \<Rightarrow> pyfloat \<Rightarrow> pyfloat \<Rightarrow> nat \<Rightarrow> (exn + nat) option" where
  "wait_loop conn clock deadline interval k =
     (case conn k of
        None \<Rightarrow> Some (Inr k)
      | Some e \<Rightarrow>
          if e \<noteq> DatabaseUnavailable then Some (Inl e)
          else if reached (clock k) deadline
          then Some (Inl (CommandError ''Database did not become available before timeout.''))
          else (case sleep_error interval of
                  Some e' \<Rightarrow> Some (Inl e')
                | None \<Rightarrow> wait_loop conn clock deadline interval (k + 1)))"

text \<open>The result is the number of attempts that failed before the connection.\<close>

definition wait_for_db ::
  "(nat \<Rightarrow> exn option) \<Rightarrow> int \<Rightarrow> (nat \<Rightarrow> int) \<Rightarrow> pyfloat \<Rightarrow> pyfloat \<Rightarrow> (exn + nat) option" where
  "wait_for_db conn start clock timeout interval =
     (if less_zero timeout then Some (Inl (CommandError ''--timeout must be zero or greater''))
      else if at_most_zero interval
      then Some (Inl (CommandError ''--interval must be greater than zero''))
      else wait_loop conn clock (add_float start timeout) interval 0)"

text \<open>
  The options as argparse gives them: \<open>float_arg\<close> is its conversion of a text, whose failure it
  reports itself.
\<close>

definition wait_arguments ::
  "(string \<Rightarrow> exn + pyfloat) \<Rightarrow> string option \<Rightarrow> string option \<Rightarrow> exn + pyfloat \<times> pyfloat" where
  "wait_arguments float_arg timeout interval =
     bind_sum (case timeout of None \<Rightarrow> Inr (Num (60 * sec)) | Some t \<Rightarrow> float_arg t) (\<lambda>t.
     bind_sum (case interval of None \<Rightarrow> Inr (Num (1 * sec)) | Some i \<Rightarrow> float_arg i) (\<lambda>i.
       Inr (t, i)))"

definition wait_command ::
  "(string \<Rightarrow> exn + pyfloat) \<Rightarrow> (nat \<Rightarrow> exn option) \<Rightarrow> int \<Rightarrow> (nat \<Rightarrow> int) \<Rightarrow> string option \<Rightarrow>
     string option \<Rightarrow> (exn + nat) option" where
  "wait_command float_arg conn start clock timeout interval =
     (case wait_arguments float_arg timeout interval of
        Inl e \<Rightarrow> Some (Inl e)
      | Inr (t, i) \<Rightarrow> wait_for_db conn start clock t i)"

text \<open>The defaults pass the guards.\<close>

lemma wait_command_default:
  "wait_command float_arg conn start clock None None =
    wait_loop conn clock (Num (start + 60 * sec)) (Num sec) 0"
  by (simp add: wait_command_def wait_arguments_def wait_for_db_def)

subsection \<open>The polling loop\<close>

text \<open>What ends the loop at an attempt, and what it then gives.\<close>

definition wait_stops :: "(nat \<Rightarrow> exn option) \<Rightarrow> (nat \<Rightarrow> int) \<Rightarrow> pyfloat \<Rightarrow> nat \<Rightarrow> bool" where
  "wait_stops conn clock deadline k \<longleftrightarrow>
     conn k \<noteq> Some DatabaseUnavailable \<or> reached (clock k) deadline"

definition wait_result :: "(nat \<Rightarrow> exn option) \<Rightarrow> nat \<Rightarrow> exn + nat" where
  "wait_result conn k = (case conn k of
     None \<Rightarrow> Inr k
   | Some e \<Rightarrow> Inl (if e = DatabaseUnavailable
       then CommandError ''Database did not become available before timeout.'' else e))"

lemma wait_loop_stop:
  "wait_stops conn clock deadline k \<Longrightarrow>
    wait_loop conn clock deadline interval k = Some (wait_result conn k)"
  by (auto simp: wait_loop.simps wait_stops_def wait_result_def split: option.split)

lemma wait_loop_step:
  "\<not> wait_stops conn clock deadline k \<Longrightarrow> sleep_error interval = None \<Longrightarrow>
    wait_loop conn clock deadline interval k = wait_loop conn clock deadline interval (k + 1)"
  by (subst wait_loop.simps) (simp add: wait_stops_def)

lemma wait_loop_first:
  assumes "wait_stops conn clock deadline n" "\<And>j. i \<le> j \<Longrightarrow> j < n \<Longrightarrow> \<not> wait_stops conn clock deadline j"
    and "i \<le> n" "sleep_error interval = None"
  shows "wait_loop conn clock deadline interval i = Some (wait_result conn n)"
  using assms(3,2)
proof (induction rule: inc_induct)
  case base
  then show ?case using wait_loop_stop [OF assms(1)] by simp
next
  case (step m)
  then show ?case using wait_loop_step [OF _ assms(4), of conn clock deadline m] by simp
qed

text \<open>A loop that no attempt ends does not return.\<close>

lemma wait_loop_returns:
  assumes "wait_loop conn clock deadline interval k = Some y"
  shows "(\<exists>n. wait_stops conn clock deadline n) \<or> sleep_error interval \<noteq> None"
proof (rule wait_loop.raw_induct [OF _ assms])
  fix loop conn clock deadline interval k y
  assume IH: "\<And>conn clock deadline interval k y. loop conn clock deadline interval k = Some y \<Longrightarrow>
      (\<exists>n. wait_stops conn clock deadline n) \<or> sleep_error interval \<noteq> None"
    and step: "(case conn k of None \<Rightarrow> Some (Inr k)
      | Some e \<Rightarrow> if e \<noteq> DatabaseUnavailable then Some (Inl e)
          else if reached (clock k) deadline
          then Some (Inl (CommandError ''Database did not become available before timeout.''))
          else (case sleep_error interval of Some e' \<Rightarrow> Some (Inl e')
                | None \<Rightarrow> loop conn clock deadline interval (k + 1))) = Some y"
  show "(\<exists>n. wait_stops conn clock deadline n) \<or> sleep_error interval \<noteq> None"
  proof (cases "wait_stops conn clock deadline k")
    case False
    then have "conn k = Some DatabaseUnavailable" "\<not> reached (clock k) deadline"
      by (simp_all add: wait_stops_def)
    with step have "sleep_error interval \<noteq> None \<or> loop conn clock deadline interval (k + 1) = Some y"
      by (cases "sleep_error interval") simp_all
    with IH show ?thesis by blast
  qed blast
qed

lemma wait_loop_forever:
  assumes "\<And>k. \<not> wait_stops conn clock deadline k" "sleep_error interval = None"
  shows "wait_loop conn clock deadline interval k = None"
  using wait_loop_returns [of conn clock deadline interval k] assms
  by (cases "wait_loop conn clock deadline interval k") auto

text \<open>
  C39. Waiting for the database ends: with a finite timeout \<open>T\<close> and a finite positive interval \<open>I\<close>
  (microseconds), when the clock starts at \<open>start\<close> and every sleep takes at least the interval, the
  command returns after at most \<open>T div I + 2\<close> attempts. It stops at the first attempt that connects
  (success), that raises something other than \<open>OperationalError\<close> (that exception) or that fails with
  the deadline reached (\<open>CommandError\<close>), and at no earlier one.
\<close>

theorem wait_for_db_returns:
  assumes "0 \<le> T" "0 < I" "I * 1000 < 2 ^ 63" "start \<le> clock 0"
    and "\<And>k. clock k + I \<le> clock (k + 1)"
  shows "\<exists>n \<le> nat (T div I) + 1.
    wait_for_db conn start clock (Num T) (Num I) = Some (wait_result conn n) \<and>
    wait_stops conn clock (Num (start + T)) n \<and>
    (\<forall>j < n. \<not> wait_stops conn clock (Num (start + T)) j)"
proof -
  let ?stop = "wait_stops conn clock (Num (start + T))" and ?N = "nat (T div I) + 1"
  have clock: "start + int k * I \<le> clock k" for k
  proof (induction k)
    case (Suc k)
    then show ?case using assms(5) [of k] by (simp add: algebra_simps)
  qed (use assms(4) in simp)
  have "T < (T div I + 1) * I"
  proof -
    have "T = T div I * I + T mod I" "T mod I < I" using assms(2) by simp_all
    then show ?thesis unfolding distrib_right by linarith
  qed
  moreover have "int ?N = T div I + 1" using assms(1,2) by (simp add: pos_imp_zdiv_nonneg_iff)
  ultimately have "T < int ?N * I" by (simp only:)
  with clock [of ?N] have "start + T \<le> clock ?N" by linarith
  then have N: "?stop ?N" by (simp add: wait_stops_def)
  define n where "n = (LEAST k. ?stop k)"
  have n: "?stop n" "n \<le> ?N" "\<And>j. j < n \<Longrightarrow> \<not> ?stop j"
    unfolding n_def using N by (auto intro: LeastI Least_le dest: not_less_Least)
  have "sleep_error (Num I) = None" using assms(3) by simp
  then have "wait_loop conn clock (Num (start + T)) (Num I) 0 = Some (wait_result conn n)"
    using n wait_loop_first [of conn clock "Num (start + T)" n 0 "Num I"] by simp
  then have "wait_for_db conn start clock (Num T) (Num I) = Some (wait_result conn n)"
    using assms(1,2) by (simp add: wait_for_db_def)
  with n show ?thesis by blast
qed

theorem wait_for_db_returns_witness:
  "wait_for_db (\<lambda>k. Some DatabaseUnavailable) 0 (\<lambda>k. int k * 1000000) (Num 5000000) (Num 1000000) =
    Some (Inl (CommandError ''Database did not become available before timeout.''))"
proof -
  obtain n where "wait_for_db (\<lambda>k. Some DatabaseUnavailable) 0 (\<lambda>k. int k * 1000000) (Num 5000000)
      (Num 1000000) = Some (wait_result (\<lambda>k. Some DatabaseUnavailable) n)"
    using wait_for_db_returns [of 5000000 1000000 0 "\<lambda>k. int k * 1000000" "\<lambda>k. Some DatabaseUnavailable"]
    by auto
  then show ?thesis by (simp add: wait_result_def)
qed

text \<open>A timeout that is not a number passes the check and is never reached.\<close>

lemma wait_for_db_nan:
  assumes "\<And>k. conn k = Some DatabaseUnavailable" "0 < I" "I * 1000 < 2 ^ 63"
  shows "wait_for_db conn start clock NaN (Num I) = None"
proof -
  have "\<not> wait_stops conn clock NaN k" for k by (simp add: wait_stops_def assms(1))
  with wait_loop_forever [of conn clock NaN "Num I" 0] assms(2,3) show ?thesis
    by (simp add: wait_for_db_def)
qed

subsection \<open>The administrator\<close>

lemma first_upd_where:
  assumes "\<And>r. P (f r) = P r"
  shows "first P (upd_where p f rs) = map_option (\<lambda>r. if p r then f r else r) (first P rs)"
  using assms by (induction rs) auto

definition admin_row :: "user_row \<Rightarrow> bool" where
  "admin_row u \<longleftrightarrow> u_is_active u \<and> u_is_staff u \<and> u_is_superuser u"

definition has_link :: "int \<Rightarrow> int \<Rightarrow> 'z db_scheme \<Rightarrow> bool" where
  "has_link uid rid s \<longleftrightarrow> first (\<lambda>l. ur_user_id l = uid \<and> ur_role_id l = rid) (rows (user_roles s)) \<noteq> None"

lemma get_or_create_user_role_ok:
  assumes "get_or_create_user_role uid rid s = (Inr b, s')"
  shows "has_link uid rid s' \<and> (b \<longleftrightarrow> \<not> has_link uid rid s) \<and> (\<exists>t. s' = s\<lparr>user_roles := t\<rparr>)"
proof (cases "first (\<lambda>l. ur_user_id l = uid \<and> ur_role_id l = rid) (rows (user_roles s))")
  case None
  then obtain l where c: "create_user_role uid rid s = (Inr l, s')" "b"
    using assms by (auto simp: get_or_create_user_role_def split: prod.splits sum.splits)
  from c(1) obtain "rows (user_roles s') = rows (user_roles s) @ [l]" "ur_pair l = (uid, rid)"
    by (cases rule: create_user_role_cases) auto
  then have "has_link uid rid s'" by (auto simp: has_link_def first_None)
  with None c create_user_role_frame [OF c(1)] show ?thesis by (simp add: has_link_def)
next
  case (Some l)
  with assms show ?thesis
    by (auto simp: get_or_create_user_role_def has_link_def intro: exI [of _ "user_roles s"])
qed

lemma get_or_create_user_role_again:
  "has_link uid rid s \<Longrightarrow> get_or_create_user_role uid rid s = (Inr False, s)"
  by (auto simp: get_or_create_user_role_def has_link_def)

lemma ensure_flags_again: "admin_row u \<Longrightarrow> ensure_django_admin_flags u s = (Inr (), s)"
  by (simp add: ensure_django_admin_flags_def admin_row_def no_fields_def)

lemma ensure_flags_ok:
  assumes "users_ok s" "u \<in> set (rows (users s))" "ensure_django_admin_flags u s = (Inr x, s')"
  shows "rows (users s') = upd_where (\<lambda>v. u_id v = u_id u) (\<lambda>v. v\<lparr>u_is_active := True,
      u_is_staff := True, u_is_superuser := True\<rparr>) (rows (users s)) \<and> (\<exists>t. s' = s\<lparr>users := t\<rparr>)"
proof -
  let ?f = "no_fields\<lparr>f_is_active := (if u_is_active u then None else Some True),
    f_is_staff := (if u_is_staff u then None else Some True),
    f_is_superuser := (if u_is_superuser u then None else Some True)\<rparr>"
  let ?g = "\<lambda>v. v\<lparr>u_is_active := True, u_is_staff := True, u_is_superuser := True\<rparr>"
  have same: "v = u" if "v \<in> set (rows (users s))" "u_id v = u_id u" for v
    using that assms(1,2) by (auto simp: users_ok_def ids_ok_def distinct_map dest: inj_onD)
  have "set_fields ?f u = ?g u" by (cases u) (simp add: set_fields_def no_fields_def)
  then have upd: "upd_where (\<lambda>v. u_id v = u_id u) (set_fields ?f) (rows (users s)) =
      upd_where (\<lambda>v. u_id v = u_id u) ?g (rows (users s))"
    unfolding upd_where_def by (intro map_cong) (auto dest: same)
  show ?thesis
  proof (cases "?f = no_fields")
    case True
    then have "?g u = u" by (cases u) (auto simp: no_fields_def split: if_splits)
    then have "upd_where (\<lambda>v. u_id v = u_id u) ?g (rows (users s)) = rows (users s)"
      unfolding upd_where_def by (intro map_idI) (auto dest: same)
    with True assms(3) show ?thesis
      by (auto simp: ensure_django_admin_flags_def intro: exI [of _ "users s"])
  next
    case False
    then obtain n where n: "update_users (\<lambda>v. u_id v = u_id u) (set_fields ?f) s = (Inr n, s')"
      using assms(3) by (auto simp: ensure_django_admin_flags_def Let_def split: prod.splits sum.splits)
    then have "rows (users s') = upd_where (\<lambda>v. u_id v = u_id u) (set_fields ?f) (rows (users s))"
      by (auto simp: update_users_def tbl_update_def Let_def split: option.splits prod.splits)
    with upd update_users_frame [OF n] show ?thesis by simp
  qed
qed

text \<open>The account the command ends with: the first with the address, and its flags.\<close>

lemma bootstrap_user_ok:
  assumes "users_ok s" "bootstrap_user dj mkpw salt now email env_var typed s = (Inr (new, u), s')"
    and "normalize_email dj email = email"
  shows "\<exists>v. first (\<lambda>x. u_email x = email) (rows (users s')) = Some v \<and> u_id v = u_id u \<and>
    u_email u = email \<and> admin_row v \<and>
    (new \<longleftrightarrow> first (\<lambda>x. u_email x = email) (rows (users s)) = None) \<and>
    (\<forall>x \<in> set (rows (users s)). if u_email x = email
       then v = x\<lparr>u_is_active := True, u_is_staff := True, u_is_superuser := True\<rparr>
       else x \<in> set (rows (users s'))) \<and>
    (\<exists>t. s' = s\<lparr>users := t\<rparr>)"
proof (cases "first (\<lambda>x. u_email x = email) (rows (users s))")
  case None
  then obtain p where c: "manager_create_superuser dj mkpw salt now email (Some p) no_fields s = (Inr u, s')"
    "new" using assms(2) by (auto simp: bootstrap_user_def split: sum.splits prod.splits)
  then have cu: "create_user email (mkpw salt (Some p)) True True True now s = (Inr u, s')"
    using assms(3) by (auto simp: manager_create_superuser_def manager_create_user_def setdefault_true_def
        no_fields_def Let_def split: if_splits)
  then have r: "rows (users s') = rows (users s) @ [u]" "u_email u = email" "admin_row u"
    by (auto simp: admin_row_def elim!: create_user_cases)
  have "first (\<lambda>x. u_email x = email) (rows (users s) @ [u]) = Some u"
    using None r(2) by (induction "rows (users s)") (auto simp: first_None)
  with None r c(2) create_user_frame [OF cu] show ?thesis by (auto simp: first_None)
next
  case (Some x)
  let ?g = "\<lambda>v. v\<lparr>u_is_active := True, u_is_staff := True, u_is_superuser := True\<rparr>"
  from Some assms(2) have e: "ensure_django_admin_flags x s = (Inr (), s')" "u = x" "\<not> new"
    by (auto simp: bootstrap_user_def split: sum.splits prod.splits)
  have x: "x \<in> set (rows (users s))" "u_email x = email" using first_Some [OF Some] by auto
  note f = ensure_flags_ok [OF assms(1) x(1) e(1)]
  have first: "first (\<lambda>y. u_email y = email) (rows (users s')) = Some (?g x)"
    using f Some by (simp add: first_upd_where)
  have only: "y = x" if "y \<in> set (rows (users s))" "u_email y = email" for y
  proof -
    have "inj_on email_key (set (rows (users s)))" using assms(1) by (simp add: users_ok_def distinct_map)
    moreover have "email_key y = email_key x" using that(2) x(2) by simp
    ultimately show ?thesis using that(1) x(1) by (meson inj_onD)
  qed
  have kept: "y \<in> set (rows (users s'))" if "y \<in> set (rows (users s))" "u_email y \<noteq> email" for y
  proof -
    have "u_id y \<noteq> u_id x"
      using that x assms(1) by (auto simp: users_ok_def ids_ok_def distinct_map dest!: inj_onD)
    with f that(1) show ?thesis by (force simp: set_upd_where)
  qed
  show ?thesis
  proof (intro exI [of _ "?g x"] conjI ballI)
    fix y
    assume y: "y \<in> set (rows (users s))"
    show "if u_email y = email then ?g x = ?g y else y \<in> set (rows (users s'))"
      using only [OF y] kept [OF y] by (cases "u_email y = email") auto
  qed (use first e f x(2) Some in \<open>simp_all add: admin_row_def\<close>)
qed

text \<open>
  C27. Bootstrapping an administrator: when the command succeeds, the account with the normalized
  address is active, staff and superuser and has the admin role; it is new exactly if no account had
  the address, an existing one keeps its password and every other column, and all other accounts are
  untouched. Running the command again, with any password, changes nothing and reports that.
\<close>

theorem bootstrap_admin_idempotent:
  assumes "db_ok s" "normalize_email dj (normalize_email dj email) = normalize_email dj email"
    and "bootstrap_admin dj mkpw salt now email env_var typed s = (Inr rep, s')"
  shows "\<exists>v r. v \<in> set (rows (users s')) \<and> u_email v = normalize_email dj email \<and> admin_row v \<and>
    r \<in> set (rows (roles s')) \<and> r_name r = ''admin'' \<and> has_link (u_id v) (r_id r) s' \<and>
    (br_created rep \<longleftrightarrow> normalize_email dj email \<notin> u_email ` set (rows (users s))) \<and>
    (\<forall>x \<in> set (rows (users s)). if u_email x = normalize_email dj email
       then v = x\<lparr>u_is_active := True, u_is_staff := True, u_is_superuser := True\<rparr>
       else x \<in> set (rows (users s'))) \<and>
    bootstrap_admin dj mkpw salt' now' email env_var' typed' s' =
      (Inr \<lparr>br_created = False, br_email = normalize_email dj email, br_role_created = False\<rparr>, s')"
proof -
  let ?e = "normalize_email dj email"
  have "bootstrap_body dj mkpw salt now ?e env_var typed s = (Inr rep, s')"
    using assms(3) by (simp add: bootstrap_admin_def run_in_transaction_commit)
  then obtain r new u s1 b where r: "first (\<lambda>r. r_name r = ''admin'') (rows (roles s)) = Some r"
    and u: "bootstrap_user dj mkpw salt now ?e env_var typed s = (Inr (new, u), s1)"
    and l: "get_or_create_user_role (u_id u) (r_id r) s1 = (Inr b, s')"
    and rep: "br_created rep = new"
    by (auto simp: bootstrap_body_def split: option.splits sum.splits prod.splits)
  have users: "users_ok s" using assms(1) by (simp add: db_ok_def)
  obtain v where v: "first (\<lambda>x. u_email x = ?e) (rows (users s1)) = Some v" "u_id v = u_id u"
    "u_email u = ?e" "admin_row v" "new \<longleftrightarrow> first (\<lambda>x. u_email x = ?e) (rows (users s)) = None"
    "\<forall>x \<in> set (rows (users s)). if u_email x = ?e
       then v = x\<lparr>u_is_active := True, u_is_staff := True, u_is_superuser := True\<rparr>
       else x \<in> set (rows (users s1))" "\<exists>t. s1 = s\<lparr>users := t\<rparr>"
    using bootstrap_user_ok [OF users u assms(2)] by blast
  obtain t where t: "s' = s1\<lparr>user_roles := t\<rparr>" "has_link (u_id u) (r_id r) s'"
    using get_or_create_user_role_ok [OF l] by blast
  have same: "users s' = users s1" "roles s' = roles s" using t(1) v(7) by auto
  have ve: "u_email v = ?e" "v \<in> set (rows (users s'))" using first_Some [OF v(1)] same by auto
  have "bootstrap_user dj mkpw salt' now' ?e env_var' typed' s' = (Inr (False, v), s')"
    using v(1,4) same by (simp add: bootstrap_user_def ensure_flags_again)
  then have "bootstrap_body dj mkpw salt' now' ?e env_var' typed' s' =
      (Inr \<lparr>br_created = False, br_email = ?e, br_role_created = False\<rparr>, s')"
    using r same t(2) v(2) ve(1) by (simp add: bootstrap_body_def get_or_create_user_role_again)
  then have "bootstrap_admin dj mkpw salt' now' email env_var' typed' s' =
      (Inr \<lparr>br_created = False, br_email = ?e, br_role_created = False\<rparr>, s')"
    by (simp add: bootstrap_admin_def run_in_transaction_def)
  moreover have "new \<longleftrightarrow> ?e \<notin> u_email ` set (rows (users s))"
    unfolding v(5) first_None by (auto simp: image_iff eq_commute [of ?e])
  moreover have "r \<in> set (rows (roles s'))" "r_name r = ''admin''" using first_Some [OF r] same by auto
  ultimately show ?thesis using v(2,4,6) ve t(2) rep same(1) by (intro exI [of _ v] exI [of _ r]) auto
qed

abbreviation bootstrap_ann :: "db \<Rightarrow> (exn + bootstrap_report) \<times> db" where
  "bootstrap_ann \<equiv> bootstrap_admin (\<lambda>e. e) (\<lambda>salt p. salt) ''s'' 0 ''ann@x.io'' None None"

theorem bootstrap_admin_idempotent_witness:
  "fst (bootstrap_ann (snd (bootstrap_ann (sample ())))) =
    Inr \<lparr>br_created = False, br_email = ''ann@x.io'', br_role_created = False\<rparr>"
proof -
  have e: "normalize_email (\<lambda>e. e) ''ann@x.io'' = ''ann@x.io''" by code_simp
  have "fst (bootstrap_ann (sample ())) =
      Inr \<lparr>br_created = False, br_email = ''ann@x.io'', br_role_created = True\<rparr>"
    by code_simp
  then have b: "bootstrap_ann (sample ()) =
      (Inr \<lparr>br_created = False, br_email = ''ann@x.io'', br_role_created = True\<rparr>,
       snd (bootstrap_ann (sample ())))"
    by (metis prod.collapse)
  have i: "normalize_email (\<lambda>e. e) (normalize_email (\<lambda>e. e) ''ann@x.io'') =
      normalize_email (\<lambda>e. e) ''ann@x.io''" by (simp only: e)
  have "bootstrap_ann (snd (bootstrap_ann (sample ()))) =
      (Inr \<lparr>br_created = False, br_email = ''ann@x.io'', br_role_created = False\<rparr>,
       snd (bootstrap_ann (sample ())))"
    using bootstrap_admin_idempotent [OF sample_db_ok i b, of "''s''" 0 None None]
    unfolding e by blast
  then show ?thesis by simp
qed

subsection \<open>What the command keeps\<close>

lemma seq_le_update_users: "update_users p f s = (r, s') \<Longrightarrow> seq_le s s'"
  by (auto simp: update_users_def tbl_update_def Let_def seq_le_def split: option.splits prod.splits)

lemma ensure_flags_inv:
  assumes "db_ok s" "ensure_django_admin_flags u s = (r, s')"
  shows "db_ok s' \<and> seq_le s s'"
  using assms
  by (auto simp: ensure_django_admin_flags_def Let_def split: if_splits prod.splits sum.splits
      intro: db_ok_update_users seq_le_update_users)

lemma manager_create_inv:
  assumes "db_ok s" "manager_create_superuser dj mkpw salt now email pw f s = (r, s')"
  shows "db_ok s' \<and> seq_le s s'"
  using assms
  by (auto simp: manager_create_superuser_def manager_create_user_def Let_def split: if_splits
      intro: db_ok_create_user seq_le_create)

lemma bootstrap_user_inv:
  assumes "db_ok s" "bootstrap_user dj mkpw salt now email env_var typed s = (r, s')"
  shows "db_ok s' \<and> seq_le s s'"
  using assms
  by (auto simp: bootstrap_user_def split: option.splits sum.splits prod.splits
      dest: ensure_flags_inv manager_create_inv)

lemma get_or_create_user_role_inv:
  assumes "db_ok s" "get_or_create_user_role uid rid s = (r, s')"
  shows "db_ok s' \<and> seq_le s s'"
  using assms
  by (auto simp: get_or_create_user_role_def split: option.splits sum.splits prod.splits
      intro: db_ok_create_user_role seq_le_create)

lemma db_ok_bootstrap_admin [inv_pres]:
  assumes "db_ok s" "bootstrap_admin dj mkpw salt now email env_var typed s = (r, s')"
  shows "db_ok s'"
proof (rule db_ok_run_in_transaction [OF assms(1) assms(2) [unfolded bootstrap_admin_def]])
  fix x t
  assume "bootstrap_body dj mkpw salt now (normalize_email dj email) env_var typed s = (x, t)"
  then consider "t = s"
    | y s1 where "bootstrap_user dj mkpw salt now (normalize_email dj email) env_var typed s = (y, s1)"
      "t = s1 \<or> (\<exists>i j z. get_or_create_user_role i j s1 = (z, t))"
    by (auto simp: bootstrap_body_def split: option.splits sum.splits prod.splits)
  then show "db_ok t \<and> seq_le s t"
  proof cases
    case 1
    with assms(1) show ?thesis by simp
  next
    case (2 y s1)
    have s1: "db_ok s1 \<and> seq_le s s1" using bootstrap_user_inv [OF assms(1) 2(1)] .
    then have "t = s1 \<or> db_ok t \<and> seq_le s1 t" using 2(2) get_or_create_user_role_inv by blast
    with s1 show ?thesis using seq_le_trans by blast
  qed
qed

end
