(* ===== verification/Migrations.thy ===== *)
theory Migrations
  imports Rbac
begin

text \<open>
  The data migrations of \<open>apps/authz/migrations\<close>: 0002 seeds roles and permissions, 0005 takes
  \<open>user.read\<close> from the default role, 0006 adds \<open>audit.read\<close>; each with its reverse. The schema
  migrations create the tables of theory \<open>Db\<close>.
\<close>

subsection \<open>get_or_create\<close>

definition get_or_create_permission :: "string \<Rightarrow> 'z db_scheme \<Rightarrow> (exn + permission_row) \<times> 'z db_scheme" where
  "get_or_create_permission c s =
     (case first (\<lambda>p. p_code p = c) (rows (permissions s)) of
        Some p \<Rightarrow> (Inr p, s) | None \<Rightarrow> create_permission c s)"

definition get_or_create_role :: "string \<Rightarrow> 'z db_scheme \<Rightarrow> (exn + role_row) \<times> 'z db_scheme" where
  "get_or_create_role nm s =
     (case first (\<lambda>r. r_name r = nm) (rows (roles s)) of
        Some r \<Rightarrow> (Inr r, s) | None \<Rightarrow> create_role nm s)"

text \<open>\<open>RolePermission.objects.get_or_create(role=..., permission=...)\<close>\<close>

definition get_or_create_grant :: "role_row \<Rightarrow> permission_row \<Rightarrow> 'z db_scheme \<Rightarrow> (exn + unit) \<times> 'z db_scheme" where
  "get_or_create_grant r p s =
     (case first (\<lambda>g. rp_role_id g = r_id r \<and> rp_permission_id g = p_id p) (rows (role_permissions s)) of
        Some g \<Rightarrow> (Inr (), s)
      | None \<Rightarrow> (case create_role_permission (r_id r) (p_id p) s of
          (Inl e, s') \<Rightarrow> (Inl e, s') | (Inr g, s') \<Rightarrow> (Inr (), s')))"

subsection \<open>0002: seed\<close>

definition SEED_PERMISSION_CODES :: "string list" where
  "SEED_PERMISSION_CODES =
     [''user.create'', ''user.read'', ''user.update'', ''user.delete'', ''role.assign'',
      ''role.read'', ''permission.read'']"

definition SEED_ROLE_PERMISSIONS :: "(string \<times> string list) list" where
  "SEED_ROLE_PERMISSIONS = [(''admin'', SEED_PERMISSION_CODES), (''user'', [''user.read''])]"

fun seed_permissions ::
  "string list \<Rightarrow> (string \<times> permission_row) list \<Rightarrow> 'z db_scheme \<Rightarrow>
     (exn + (string \<times> permission_row) list) \<times> 'z db_scheme" where
  "seed_permissions [] acc s = (Inr acc, s)"
| "seed_permissions (c # cs) acc s =
     (case get_or_create_permission c s of
        (Inl e, s') \<Rightarrow> (Inl e, s')
      | (Inr p, s') \<Rightarrow> seed_permissions cs ((c, p) # acc) s')"

fun seed_grants ::
  "role_row \<Rightarrow> (string \<times> permission_row) list \<Rightarrow> string list \<Rightarrow> 'z db_scheme \<Rightarrow> (exn + unit) \<times> 'z db_scheme" where
  "seed_grants r perms [] s = (Inr (), s)"
| "seed_grants r perms (c # cs) s =
     (case map_of perms c of
        None \<Rightarrow> (Inl (KeyError c), s)
      | Some p \<Rightarrow> (case get_or_create_grant r p s of
          (Inl e, s') \<Rightarrow> (Inl e, s')
        | (Inr _, s') \<Rightarrow> seed_grants r perms cs s'))"

fun seed_roles ::
  "(string \<times> permission_row) list \<Rightarrow> (string \<times> string list) list \<Rightarrow> 'z db_scheme \<Rightarrow>
     (exn + unit) \<times> 'z db_scheme" where
  "seed_roles perms [] s = (Inr (), s)"
| "seed_roles perms ((nm, cs) # rest) s =
     (case get_or_create_role nm s of
        (Inl e, s') \<Rightarrow> (Inl e, s')
      | (Inr r, s') \<Rightarrow> (case seed_grants r perms cs s' of
          (Inl e, s'') \<Rightarrow> (Inl e, s'')
        | (Inr _, s'') \<Rightarrow> seed_roles perms rest s''))"

definition seed_roles_and_permissions :: "'z db_scheme \<Rightarrow> (exn + unit) \<times> 'z db_scheme" where
  "seed_roles_and_permissions s =
     (case seed_permissions SEED_PERMISSION_CODES [] s of
        (Inl e, s') \<Rightarrow> (Inl e, s')
      | (Inr perms, s') \<Rightarrow> seed_roles perms SEED_ROLE_PERMISSIONS s')"

definition unseed_roles_and_permissions :: "'z db_scheme \<Rightarrow> 'z db_scheme" where
  "unseed_roles_and_permissions s =
     delete_permissions (\<lambda>p. p_code p \<in> set SEED_PERMISSION_CODES)
       (delete_roles (\<lambda>r. r_name r \<in> fst ` set SEED_ROLE_PERMISSIONS) s)"

subsection \<open>0005: the default role loses \<open>user.read\<close>\<close>

definition remove_default_user_admin_permission :: "'z db_scheme \<Rightarrow> 'z db_scheme" where
  "remove_default_user_admin_permission s =
     delete_role_permissions (\<lambda>g.
       (\<exists>r \<in> set (rows (roles s)). r_id r = rp_role_id g \<and> r_name r = ''user'') \<and>
       (\<exists>p \<in> set (rows (permissions s)). p_id p = rp_permission_id g \<and> p_code p = ''user.read'')) s"

definition restore_default_user_admin_permission :: "'z db_scheme \<Rightarrow> (exn + unit) \<times> 'z db_scheme" where
  "restore_default_user_admin_permission s =
     (case (first (\<lambda>r. r_name r = ''user'') (rows (roles s)),
            first (\<lambda>p. p_code p = ''user.read'') (rows (permissions s))) of
        (Some r, Some p) \<Rightarrow> get_or_create_grant r p s
      | _ \<Rightarrow> (Inr (), s))"

subsection \<open>0006: \<open>audit.read\<close>\<close>

definition add_audit_read_permission :: "'z db_scheme \<Rightarrow> (exn + unit) \<times> 'z db_scheme" where
  "add_audit_read_permission s =
     (case get_or_create_permission ''audit.read'' s of
        (Inl e, s') \<Rightarrow> (Inl e, s')
      | (Inr p, s') \<Rightarrow> (case first (\<lambda>r. r_name r = ''admin'') (rows (roles s')) of
          None \<Rightarrow> (Inr (), s')
        | Some r \<Rightarrow> get_or_create_grant r p s'))"

definition remove_audit_read_permission :: "'z db_scheme \<Rightarrow> 'z db_scheme" where
  "remove_audit_read_permission s =
     (case first (\<lambda>p. p_code p = ''audit.read'') (rows (permissions s)) of
        None \<Rightarrow> s
      | Some p \<Rightarrow> delete_permissions (\<lambda>q. p_id q = p_id p)
          (delete_role_permissions (\<lambda>g. rp_permission_id g = p_id p) s))"

text \<open>\<open>manage.py migrate\<close> from an empty schema: the forward functions in order.\<close>

definition migrate :: "'z db_scheme \<Rightarrow> (exn + unit) \<times> 'z db_scheme" where
  "migrate s =
     (case seed_roles_and_permissions s of
        (Inl e, s') \<Rightarrow> (Inl e, s')
      | (Inr _, s') \<Rightarrow> add_audit_read_permission (remove_default_user_admin_permission s'))"

subsection \<open>The migrations keep the data invariant\<close>

lemma db_ok_get_or_create [inv_pres]:
  "db_ok s \<Longrightarrow> get_or_create_permission c s = (r1, s') \<Longrightarrow> db_ok s'"
  "db_ok s \<Longrightarrow> get_or_create_role nm s = (r2, s') \<Longrightarrow> db_ok s'"
  "db_ok s \<Longrightarrow> get_or_create_grant r p s = (r3, s') \<Longrightarrow> db_ok s'"
  by (auto simp: get_or_create_permission_def get_or_create_role_def get_or_create_grant_def
      split: option.splits prod.splits sum.splits
      intro: db_ok_create_permission db_ok_create_role db_ok_create_role_permission)

lemma db_ok_seed_permissions: "db_ok s \<Longrightarrow> seed_permissions cs acc s = (r, s') \<Longrightarrow> db_ok s'"
  by (induction cs acc s rule: seed_permissions.induct)
    (auto split: prod.splits sum.splits dest: db_ok_get_or_create)

lemma db_ok_seed_grants: "db_ok s \<Longrightarrow> seed_grants ro perms cs s = (r, s') \<Longrightarrow> db_ok s'"
  by (induction ro perms cs s rule: seed_grants.induct)
    (auto split: prod.splits sum.splits option.splits dest: db_ok_get_or_create)

lemma db_ok_seed_roles: "db_ok s \<Longrightarrow> seed_roles perms rs s = (r, s') \<Longrightarrow> db_ok s'"
proof (induction perms rs s rule: seed_roles.induct)
  case (2 perms nm cs rest s)
  obtain ro s1 where c: "get_or_create_role nm s = (ro, s1)" by (cases "get_or_create_role nm s")
  have ok1: "db_ok s1" using "2.prems"(1) c by (rule db_ok_get_or_create(2))
  show ?case
  proof (cases ro)
    case (Inl e)
    with c ok1 "2.prems" show ?thesis by simp
  next
    case (Inr rr)
    obtain g s2 where g: "seed_grants rr perms cs s1 = (g, s2)"
      by (cases "seed_grants rr perms cs s1")
    have "db_ok s2" using ok1 g by (rule db_ok_seed_grants)
    with c g Inr "2.prems" "2.IH" [OF c [symmetric] Inr g [symmetric]] show ?thesis
      by (cases g) auto
  qed
qed simp

lemma db_ok_seed [inv_pres]:
  "db_ok s \<Longrightarrow> seed_roles_and_permissions s = (r, s') \<Longrightarrow> db_ok s'"
  by (auto simp: seed_roles_and_permissions_def split: prod.splits sum.splits
      dest: db_ok_seed_permissions db_ok_seed_roles)

lemma db_ok_add_audit_read [inv_pres]:
  "db_ok s \<Longrightarrow> add_audit_read_permission s = (r, s') \<Longrightarrow> db_ok s'"
  by (auto simp: add_audit_read_permission_def split: prod.splits sum.splits option.splits
      dest: db_ok_get_or_create)

lemma db_ok_removals [inv_pres]:
  "db_ok s \<Longrightarrow> db_ok (remove_default_user_admin_permission s)"
  "db_ok s \<Longrightarrow> db_ok (unseed_roles_and_permissions s)"
  "db_ok s \<Longrightarrow> db_ok (remove_audit_read_permission s)"
  unfolding remove_default_user_admin_permission_def unseed_roles_and_permissions_def
    remove_audit_read_permission_def
  by (auto intro: db_ok_delete_role_permissions db_ok_delete_permissions db_ok_delete_roles
      split: option.split)

lemma db_ok_migrate [inv_pres]:
  assumes "db_ok s" "migrate s = (r, s')"
  shows "db_ok s'"
proof -
  obtain r1 s1 where c: "seed_roles_and_permissions s = (r1, s1)"
    by (cases "seed_roles_and_permissions s")
  have ok: "db_ok s1" using assms(1) c by (rule db_ok_seed)
  with assms(2) c show ?thesis
    by (cases r1) (auto simp: migrate_def dest: db_ok_add_audit_read [OF db_ok_removals(1)])
qed

subsection \<open>The catalog the migrations leave\<close>

text \<open>The roles of a database with the permission codes granted to each, in insertion order.\<close>

definition role_catalog :: "'z db_scheme \<Rightarrow> (string \<times> string list) list" where
  "role_catalog s = map (\<lambda>r. (r_name r, map p_code (filter (\<lambda>p.
     (r_id r, p_id p) \<in> set (map rp_pair (rows (role_permissions s)))) (rows (permissions s)))))
     (rows (roles s))"

definition migrated :: db where
  "migrated = snd (migrate empty_db)"

lemma migrate_empty_ok: "fst (migrate empty_db) = Inr ()"
  by code_simp

lemma db_ok_migrated: "db_ok migrated"
  unfolding migrated_def
  using db_ok_migrate [OF db_ok_empty] by (metis prod.collapse)

lemma migrated_catalog:
  "map p_code (rows (permissions migrated)) = PERMISSION_CATALOG \<and>
   role_catalog migrated = DEFAULT_ROLE_PERMISSIONS"
  by code_simp

end
