(* ===== verification/System.thy ===== *)
theory System
  imports Routers Commands Migrations "HOL-Library.Sublist"
begin

text \<open>
  The service as a whole: the worlds it can reach from a freshly migrated database by serving
  requests and by running the bootstrap command, in any order and with any clock readings, random
  values, outages and throttle answers.

  What every operation of the storage keeps is a contract (the locale \<open>storage_contract\<close>): a
  predicate that the repositories, the blocklist and the audit trail preserve. Inside it every use
  case, every route and every step of the service is shown to keep the predicate; the contract is
  then interpreted for the integrity of the database, the families of refresh tokens, the canonical
  addresses, the catalog of roles and the audit trail.

  The steps carry what is assumed of the random values as a parameter \<open>A\<close>: a request is served with
  values and in a world that satisfy it. Everything but the one about token families holds for every
  \<open>A\<close>, also for a \<open>uuid4()\<close> that repeats itself; \<open>fresh_family\<close> says that the family a login would
  start is one that no stored token carries.
\<close>

subsection \<open>Steps and reachable worlds\<close>

definition fresh_family :: "io \<Rightarrow> 'z db_scheme \<Rightarrow> bool" where
  "fresh_family io s \<longleftrightarrow> io_family io \<notin> t_family_id ` set (tokens s)"

definition any_values :: "io \<Rightarrow> 'z db_scheme \<Rightarrow> bool" where
  "any_values io s \<longleftrightarrow> True"

inductive service_step ::
  "(io \<Rightarrow> 'z world_scheme \<Rightarrow> bool) \<Rightarrow> 'e env_scheme \<Rightarrow> 'z world_scheme \<Rightarrow> 'z world_scheme \<Rightarrow> bool"
  for A env where
  request: "A io w \<Longrightarrow> serve env io allowed rq call w = (rep, w') \<Longrightarrow> service_step A env w w'"
| bootstrap: "bootstrap_admin (env_normalize env) (env_make_password env) salt now email env_var typed w
    = (rep, w') \<Longrightarrow> service_step A env w w'"

inductive_cases service_stepE: "service_step A env w w'"

definition initial_world :: world where
  "initial_world = db.extend migrated (world.fields (\<lambda>_. None))"

definition reachable :: "(io \<Rightarrow> world \<Rightarrow> bool) \<Rightarrow> 'e env_scheme \<Rightarrow> world \<Rightarrow> bool" where
  "reachable A env w \<longleftrightarrow> (service_step A env)\<^sup>*\<^sup>* initial_world w"

subsection \<open>The storage contract\<close>

text \<open>The calls that give somebody a role.\<close>

fun gives_role :: "api_call \<Rightarrow> bool" where
  "gives_role (PostRegister _ _) = True"
| "gives_role (PostUsers _ _) = True"
| "gives_role (PostUserRoles _ _) = True"
| "gives_role _ = False"

locale session_contract =
  fixes env :: "'e env_scheme" and fresh :: "string \<Rightarrow> 'z world_scheme \<Rightarrow> bool"
    and I :: "'z world_scheme \<Rightarrow> bool"
  assumes audit: "I w \<Longrightarrow> I (audit_record env io k ev w)"
    and blocking: "I w \<Longrightarrow> I (block_token up j ttl at w)"
    and epochs: "I w \<Longrightarrow> I (revoke_user up uid at' ttl at w)"
    and closing: "I w \<Longrightarrow> I (arevoke i at w)"
    and closing_all: "I w \<Longrightarrow> I (arevoke_user uid at w)"
    and rotating: "I w \<Longrightarrow> arotate bind inet_ok rq w = (r1, w') \<Longrightarrow> I w'"
    and issuing: "I w \<Longrightarrow> fresh fam w \<Longrightarrow>
      token_acreate inet_ok uid h fam par ex dev ip w = (r2, w') \<Longrightarrow> I w'"
    and updating: "I w \<Longrightarrow> user_aupdate (env_normalize env) uid f w = (r3, w') \<Longrightarrow> I w'"
    and deleting: "I w \<Longrightarrow> user_adelete uid w = (b, w') \<Longrightarrow> I w'"
begin

lemma issue_kept:
  assumes "I w" "fresh fam w"
    and "issue_token_pair env io uid fam par c w = (res, w')"
  shows "I w'"
  using assms
  by (auto simp: issue_token_pair_def split: sum.splits prod.splits dest: issuing)

lemma login_kept:
  assumes "I w" "fresh (io_family io) w" "login env io e p c w = (res, w')"
  shows "I w'"
  using assms(3) issue_kept [OF assms(1) assms(2)] audit [OF assms(1)]
  by (auto simp: login_def Let_def split: option.splits if_splits prod.splits sum.splits intro: audit)

lemma close_session_kept: "I w \<Longrightarrow> I (close_session_of env io a c t w)"
  by (auto simp: close_session_of_def split: option.split intro: audit epochs)

lemma after_rotation_kept:
  assumes "I w" "after_rotation env io c r w = (res, w')"
  shows "I w'"
proof (cases "outcome r = Rotated \<and> result_token r \<noteq> None")
  case True
  then show ?thesis
    using assms
    by (auto simp: after_rotation_def Let_def split: option.splits sum.splits if_splits intro: audit)
next
  case False
  then show ?thesis
    using assms close_session_kept [OF assms(1)]
    by (cases "outcome r") (auto simp: after_rotation_def split: option.splits)
qed

lemma refresh_kept:
  assumes "I w" "refresh env io t c w = (res, w')"
  shows "I w'"
  using assms rotating [OF assms(1)] after_rotation_kept
  by (fastforce simp: refresh_def split: sum.splits prod.splits)

lemma logout_kept: "I w \<Longrightarrow> I (logout env io t c j n w)"
  by (auto simp: logout_def Let_def split: option.split intro: audit closing blocking)

lemma logout_all_kept: "I w \<Longrightarrow> I (logout_all env io uid c w)"
  unfolding logout_all_def by (intro audit closing_all epochs)

lemma update_kept:
  assumes "I w" "update_user env io uid e p a c w = (res, w')"
  shows "I w'"
proof (cases "update_fields env io e p a = no_fields")
  case True
  with assms show ?thesis by (simp add: update_user_def)
next
  case False
  obtain r w1 where u: "user_aupdate (env_normalize env) uid (update_fields env io e p a) w = (r, w1)"
    by (cases "user_aupdate (env_normalize env) uid (update_fields env io e p a) w")
  have w1: "I w1" by (rule updating [OF assms(1) u])
  show ?thesis
  proof (cases r)
    case (Inl x)
    with assms(2) False u w1 show ?thesis by (cases x) (simp_all add: update_user_def)
  next
    case (Inr d)
    with assms(2) False u w1 show ?thesis
      by (auto simp: update_user_def Let_def split: option.splits if_splits intro: audit epochs)
  qed
qed

lemma delete_kept: "I w \<Longrightarrow> delete_user env io uid c w = (res, w') \<Longrightarrow> I w'"
  by (auto simp: delete_user_def split: prod.splits bool.splits dest: deleting intro: audit)

subsubsection \<open>Routes\<close>

lemma snd_kept: "(\<And>r w'. f w = (r, w') \<Longrightarrow> I w') \<Longrightarrow> I (snd (f w))"
  by (cases "f w") auto

lemma with_context_kept:
  assumes "I w" "\<And>c r w'. f c w = (r, w') \<Longrightarrow> I w'"
  shows "I (snd (answer (with_context env rq auth f w) k))"
  using assms(1) snd_kept [of "f c" w for c, OF assms(2)]
  by (auto simp: answer_def with_context_def split: sum.split)

lemma guarded_kept:
  assumes "I w" "\<And>p. I (snd (view p w))"
  shows "I (snd (require_permission c auth view w))"
  using assms by (auto simp: require_permission_def split: option.split)

lemma validated_kept:
  assumes "I w" "\<And>x. I (snd (view x w))"
  shows "I (snd (validated payload view w))"
  using assms by (cases payload) simp_all

lemmas route_defs = api_register_def api_login_def api_refresh_def api_create_user_def
  api_update_user_def api_delete_user_def api_assign_role_def

lemma session_routes_kept:
  assumes "I w"
  shows "I (snd (api_logout env io rq auth t w))" "I (snd (api_logout_all env io rq auth w))"
proof -
  show "I (snd (api_logout env io rq auth t w))"
    using assms logout_kept [OF assms]
    by (auto simp: api_logout_def split: sum.split intro!: with_context_kept)
  show "I (snd (api_logout_all env io rq auth w))"
    using assms logout_all_kept [OF assms]
    by (auto simp: api_logout_all_def split: sum.split intro!: with_context_kept)
qed

lemma reading_routes_kept:
  assumes "I w"
  shows "I (snd (api_me env auth w))" "I (snd (api_list_users env off lim w))"
    "I (snd (api_get_user env i w))" "I (snd (api_list_roles off lim w))"
    "I (snd (api_list_permissions off lim w))" "I (snd (api_health w))"
    "I (snd (api_list_audit_logs env off lim aid action res from_at to_at w))"
  using assms
  by (simp_all add: api_me_def api_list_users_def api_get_user_def api_list_roles_def
      api_list_permissions_def api_health_def api_list_audit_logs_def Let_def split: prod.split)

lemma quiet_route_kept:
  assumes "I w" "fresh (io_family io) w" "\<not> gives_role call"
  shows "I (snd (run_route env io rq auth call w))"
proof -
  note [intro!] = validated_kept guarded_kept with_context_kept assms(1)
  show ?thesis
    using assms(3) session_routes_kept [OF assms(1)] reading_routes_kept [OF assms(1)]
      login_kept [OF assms(1,2)] refresh_kept [OF assms(1)] update_kept [OF assms(1)]
      delete_kept [OF assms(1)]
    by (cases call) (auto simp: route_defs)
qed

lemma run_checked_kept:
  assumes "I w" "\<And>auth. I (snd (run_route env io rq auth call w))"
    and "serve env io allowed rq call w = (rep, w')"
  shows "I w'"
proof -
  have "w' = snd (run_checked env io allowed rq call w)"
    using assms(3) by (auto simp: serve_def split: prod.splits)
  then show ?thesis
    using assms(1,2) by (auto simp: run_checked_def split: sum.splits option.splits)
qed

end

text \<open>The whole service: accounts are created and roles given as well.\<close>

locale storage_contract = session_contract +
  fixes A :: "io \<Rightarrow> 'z world_scheme \<Rightarrow> bool"
  assumes creating: "I w \<Longrightarrow>
      acreate_user_with_role (env_normalize env) now e pw rid w = (r4, w') \<Longrightarrow> I w'"
    and assigning: "I w \<Longrightarrow> aassign_role uid rid w = (r5, w') \<Longrightarrow> I w'"
    and bootstrapping: "I w \<Longrightarrow> bootstrap_admin (env_normalize env) (env_make_password env) salt now
      email env_var typed w = (r6, w') \<Longrightarrow> I w'"
    and fresh_uuid: "A io w \<Longrightarrow> fresh (io_family io) w"
begin

lemma register_kept:
  assumes "I w" "register env io e p c b w = (res, w')"
  shows "I w'"
proof (cases "aget_role_by_name (cfg_default_user_role env) w")
  case None
  with assms show ?thesis by (simp add: register_def)
next
  case (Some d)
  obtain r w1 where a: "acreate_user_with_role (env_normalize env) (io_now io) e
      (hash_password (env_make_password env) (io_salt io) p) (rd_id d) w = (r, w1)"
    by (cases "acreate_user_with_role (env_normalize env) (io_now io) e
      (hash_password (env_make_password env) (io_salt io) p) (rd_id d) w")
  have w1: "I w1" by (rule creating [OF assms(1) a])
  show ?thesis
  proof (cases r)
    case (Inl e)
    with assms(2) Some a w1 show ?thesis by (cases e) (simp_all add: register_def)
  next
    case (Inr u)
    with assms(2) Some a w1 audit [OF w1] show ?thesis by (auto simp: register_def split: if_splits)
  qed
qed

lemma admin_create_kept: "I w \<Longrightarrow> admin_create_user env io e p c w = (res, w') \<Longrightarrow> I w'"
  by (auto simp: admin_create_user_def split: prod.splits sum.splits dest: register_kept intro: audit)

lemma assign_kept: "I w \<Longrightarrow> assign_role env io uid rid c w = (res, w') \<Longrightarrow> I w'"
  by (auto simp: assign_role_def split: prod.splits sum.splits option.splits dest: assigning
      intro: audit)

lemma run_route_kept:
  assumes "I w" "A io w"
  shows "I (snd (run_route env io rq auth call w))"
proof (cases "gives_role call")
  case True
  note [intro!] = validated_kept guarded_kept with_context_kept assms(1)
  from True show ?thesis
    using register_kept [OF assms(1)] admin_create_kept [OF assms(1)] assign_kept [OF assms(1)]
    by (cases call) (auto simp: route_defs)
next
  case False
  then show ?thesis using quiet_route_kept [OF assms(1) fresh_uuid [OF assms(2)]] by blast
qed

lemma serve_kept:
  assumes "I w" "A io w" "serve env io allowed rq call w = (rep, w')"
  shows "I w'"
  by (rule run_checked_kept [OF assms(1) run_route_kept [OF assms(1,2)] assms(3)])

lemma step_kept: "service_step A env w w' \<Longrightarrow> I w \<Longrightarrow> I w'"
  by (erule service_stepE) (blast intro: serve_kept bootstrapping)+

lemma steps_kept: "(service_step A env)\<^sup>*\<^sup>* w w' \<Longrightarrow> I w \<Longrightarrow> I w'"
  by (induction rule: rtranclp_induct) (auto intro: step_kept)

end

subsection \<open>What the operations leave alone\<close>

text \<open>Operations on accounts touch the users and their roles, operations on tokens the tokens.\<close>

definition accounts_only :: "'z db_scheme \<Rightarrow> 'z db_scheme \<Rightarrow> bool" where
  "accounts_only s s' \<longleftrightarrow> rows (permissions s') = rows (permissions s) \<and>
     rows (roles s') = rows (roles s) \<and> rows (role_permissions s') = rows (role_permissions s) \<and>
     tokens s' = tokens s \<and> rows (audit_logs s') = rows (audit_logs s)"

definition tokens_only :: "'z db_scheme \<Rightarrow> 'z db_scheme \<Rightarrow> bool" where
  "tokens_only s s' \<longleftrightarrow> rows (users s') = rows (users s) \<and>
     rows (permissions s') = rows (permissions s) \<and> rows (roles s') = rows (roles s) \<and>
     rows (user_roles s') = rows (user_roles s) \<and>
     rows (role_permissions s') = rows (role_permissions s) \<and>
     rows (audit_logs s') = rows (audit_logs s)"

lemma accounts_onlyI: "s' = s\<lparr>users := t, user_roles := t'\<rparr> \<Longrightarrow> accounts_only s s'"
  by (simp add: accounts_only_def)

lemma tokens_onlyI: "s' = s\<lparr>refresh_tokens := t\<rparr> \<Longrightarrow> tokens_only s s'"
  by (simp add: tokens_only_def)

lemma same_rows_only: "same_rows s s' \<Longrightarrow> accounts_only s s'" "same_rows s s' \<Longrightarrow> tokens_only s s'"
  by (simp_all add: same_rows_def accounts_only_def tokens_only_def)

lemma accounts_only_refl [simp]: "accounts_only s s"
  by (simp add: accounts_only_def)

lemma tokens_only_refl [simp]: "tokens_only s s"
  by (simp add: tokens_only_def)

lemma accounts_only_trans: "accounts_only s s' \<Longrightarrow> accounts_only s' s'' \<Longrightarrow> accounts_only s s''"
  by (simp add: accounts_only_def)

lemma accounts_only_create_user_role: "create_user_role uid rid s = (r, s') \<Longrightarrow> accounts_only s s'"
  by (auto simp: accounts_only_def dest: create_user_role_frame)

lemma accounts_only_create_user: "create_user e pw a st su now s = (r, s') \<Longrightarrow> accounts_only s s'"
  by (auto simp: accounts_only_def dest: create_user_frame)

lemma accounts_only_transaction:
  assumes "run_in_transaction fn s = (r, s')" "\<And>x t. fn s = (x, t) \<Longrightarrow> accounts_only s t"
  shows "accounts_only s s'"
proof (cases r)
  case (Inl e)
  with assms(1) show ?thesis using run_in_transaction_atomic same_rows_only(1) by blast
next
  case (Inr x)
  with assms show ?thesis by (simp add: run_in_transaction_commit)
qed

lemma accounts_only_acreate:
  assumes "acreate_user_with_role dj now e pw rid s = (r, s')"
  shows "accounts_only s s'"
  by (rule accounts_only_transaction [OF assms [unfolded acreate_user_with_role_def]])
    (auto simp: create_user_with_role_body_def split: prod.splits sum.splits
      intro: accounts_only_create_user accounts_only_create_user_role accounts_only_trans)

lemma accounts_only_aupdate: "user_aupdate dj uid f s = (r, s') \<Longrightarrow> accounts_only s s'"
  by (auto simp: accounts_only_def dest: user_aupdate_frame)

lemma accounts_only_aassign: "aassign_role uid rid s = (r, s') \<Longrightarrow> accounts_only s s'"
  by (auto simp: accounts_only_def dest: aassign_role_frame)

lemma accounts_only_bootstrap_user:
  "bootstrap_user dj mkpw salt now email env_var typed s = (r, s') \<Longrightarrow> accounts_only s s'"
  by (auto simp: bootstrap_user_def ensure_django_admin_flags_def manager_create_superuser_def
      manager_create_user_def Let_def accounts_only_def
      split: option.splits sum.splits prod.splits if_splits
      dest!: create_user_frame update_users_frame)

lemma accounts_only_bootstrap:
  assumes "bootstrap_admin dj mkpw salt now email env_var typed s = (r, s')"
  shows "accounts_only s s'"
  by (rule accounts_only_transaction [OF assms [unfolded bootstrap_admin_def]])
    (auto simp: bootstrap_body_def get_or_create_user_role_def
      split: option.splits sum.splits prod.splits
      intro: accounts_only_bootstrap_user accounts_only_create_user_role accounts_only_trans)

lemma tokens_only_revokes [simp]:
  "tokens_only s (arevoke i at s)" "tokens_only s (arevoke_family fam at s)"
  "tokens_only s (arevoke_user uid at s)"
  by (simp_all add: tokens_only_def arevoke_def arevoke_family_def arevoke_user_def revoke_tokens_def)

lemma tokens_only_arotate:
  assumes "arotate bind inet_ok rq s = (r, s')"
  shows "tokens_only s s'"
  using assms
proof (cases rule: arotate_cases)
  case rotated
  then show ?thesis using tokens_onlyI by blast
next
  case refused
  then show ?thesis by (simp add: same_rows_only(2))
qed (simp_all add: tokens_only_refl)

lemma tokens_only_acreate: "token_acreate inet_ok uid h fam par ex dev ip s = (r, s') \<Longrightarrow> tokens_only s s'"
  by (auto simp: token_acreate_def tokens_only_def split: prod.splits sum.splits
      dest!: create_refresh_token_frame)

lemma tokens_only_deletion:
  assumes "user_adelete uid s = (b, s')"
  shows "rows (permissions s') = rows (permissions s)" "rows (roles s') = rows (roles s)"
    "rows (role_permissions s') = rows (role_permissions s)"
    "rows (audit_logs s') = rows (audit_logs s)"
    "rows (users s') = filter (\<lambda>u. u_id u \<noteq> uid) (rows (users s))"
  using assms
  by (auto simp: user_adelete_def delete_users_def Let_def tbl_delete_def delete_refresh_tokens_def)

subsection \<open>The contract holds\<close>

interpretation integrity: storage_contract env "\<lambda>_ _. True" db_ok A for env A
  by unfold_locales
    (blast intro: db_ok_audit_record db_ok_redis db_ok_arevokes db_ok_arotate db_ok_token_acreate
      db_ok_create_user_with_role db_ok_user_aupdate db_ok_user_adelete db_ok_aassign_role
      db_ok_bootstrap_admin)+

lemma families_ok_frame:
  "families_ok s \<Longrightarrow> accounts_only s s' \<Longrightarrow> families_ok s'"
  "families_ok w \<Longrightarrow> families_ok (audit_record env io k ev w)"
  "families_ok w' \<Longrightarrow> families_ok (revoke_user up uid at ttl now w')"
  "families_ok w' \<Longrightarrow> families_ok (block_token up j ttl now w')"
  by (simp_all add: families_ok_def accounts_only_def)

lemmas accounts_only_intros = accounts_only_acreate accounts_only_aupdate accounts_only_aassign
  accounts_only_bootstrap

interpretation families: storage_contract env "\<lambda>fam s. fam \<notin> t_family_id ` set (tokens s)" families_ok fresh_family for env
  by unfold_locales
    (blast intro: families_ok_frame families_ok_arevokes families_ok_arotate families_ok_token_acreate
      families_ok_user_adelete accounts_only_intros | simp add: fresh_family_def)+

text \<open>Addresses stay canonical: whatever writes one writes a normalized one.\<close>

lemma emails_canonical_cong:
  "emails_canonical s \<Longrightarrow> rows (users s') = rows (users s) \<Longrightarrow> emails_canonical s'"
  by (simp add: emails_canonical_def)

lemma emails_canonical_frame:
  "emails_canonical s \<Longrightarrow> tokens_only s s' \<Longrightarrow> emails_canonical s'"
  "emails_canonical w \<Longrightarrow> emails_canonical (audit_record env io k ev w)"
  "emails_canonical w' \<Longrightarrow> emails_canonical (revoke_user up uid at ttl now w')"
  "emails_canonical w' \<Longrightarrow> emails_canonical (block_token up j ttl now w')"
  by (simp_all add: emails_canonical_def tokens_only_def)

lemma emails_canonical_update_users:
  assumes "emails_canonical s" "update_users p f s = (r, s')"
    and "\<And>u. lower (u_email u) = u_email u \<Longrightarrow> lower (u_email (f u)) = u_email (f u)"
  shows "emails_canonical s'"
  using assms
  by (auto simp: emails_canonical_def update_users_def tbl_update_def Let_def set_upd_where
      split: option.splits prod.splits if_splits)

lemma emails_canonical_aupdate:
  assumes "emails_canonical s" "user_aupdate dj uid f s = (r, s')"
  shows "emails_canonical s'"
proof -
  have low: "lower (u_email u) = u_email u \<Longrightarrow>
      lower (u_email (set_fields (normalize_fields dj f) u)) = u_email (set_fields (normalize_fields dj f) u)"
    for u by (cases "f_email f") simp_all
  show ?thesis
    using assms emails_canonical_update_users [OF assms(1) _ low]
    by (auto simp: user_aupdate_def Let_def split: if_splits prod.splits sum.splits)
qed

lemma emails_canonical_transaction:
  assumes "emails_canonical s" "run_in_transaction fn s = (r, s')"
    and "\<And>x t. fn s = (x, t) \<Longrightarrow> emails_canonical t"
  shows "emails_canonical s'"
proof (cases r)
  case (Inl e)
  with assms(2) have "same_rows s s'" using run_in_transaction_atomic by blast
  with assms(1) show ?thesis by (simp add: same_rows_def emails_canonical_def)
next
  case (Inr x)
  with assms show ?thesis by (simp add: run_in_transaction_commit)
qed

lemma emails_canonical_create_role:
  "emails_canonical s \<Longrightarrow> create_user_role uid rid s = (r, s') \<Longrightarrow> emails_canonical s'"
  by (auto simp: emails_canonical_def dest!: create_user_role_frame)

lemma emails_canonical_acreate:
  assumes "emails_canonical s" "acreate_user_with_role dj now e pw rid s = (r, s')"
  shows "emails_canonical s'"
  by (rule emails_canonical_transaction [OF assms(1) assms(2) [unfolded acreate_user_with_role_def]])
    (auto simp: create_user_with_role_body_def split: prod.splits sum.splits
      intro: emails_canonical_create_user [OF assms(1) lower_normalize_email]
        emails_canonical_create_role)

lemma emails_canonical_ensure:
  assumes "emails_canonical s" "ensure_django_admin_flags u s = (r, s')"
  shows "emails_canonical s'"
  using assms emails_canonical_update_users [OF assms(1)]
  by (auto simp: ensure_django_admin_flags_def Let_def no_fields_def
      split: if_splits prod.splits sum.splits)

lemma emails_canonical_bootstrap_user:
  assumes "emails_canonical s" "bootstrap_user dj mkpw salt now email env_var typed s = (r, s')"
  shows "emails_canonical s'"
  using assms
  by (auto simp: bootstrap_user_def manager_create_superuser_def manager_create_user_def Let_def
      split: option.splits prod.splits sum.splits if_splits
      dest: emails_canonical_ensure emails_canonical_create_user [OF _ lower_normalize_email])

lemma emails_canonical_bootstrap:
  assumes "emails_canonical s" "bootstrap_admin dj mkpw salt now email env_var typed s = (r, s')"
  shows "emails_canonical s'"
  by (rule emails_canonical_transaction [OF assms(1) assms(2) [unfolded bootstrap_admin_def]])
    (use assms(1) in \<open>auto simp: bootstrap_body_def get_or_create_user_role_def
      split: option.splits sum.splits prod.splits
      dest: emails_canonical_bootstrap_user emails_canonical_create_role\<close>)

lemma emails_canonical_delete:
  "emails_canonical s \<Longrightarrow> user_adelete uid s = (b, s') \<Longrightarrow> emails_canonical s'"
  by (auto simp: emails_canonical_def tokens_only_deletion(5))

lemma emails_canonical_assign:
  "emails_canonical s \<Longrightarrow> aassign_role uid rid s = (r, s') \<Longrightarrow> emails_canonical s'"
  by (auto simp: emails_canonical_def dest!: aassign_role_frame)

interpretation addresses: storage_contract env "\<lambda>_ _. True" emails_canonical A for env A
  by unfold_locales
    (blast intro: emails_canonical_frame tokens_only_revokes tokens_only_arotate tokens_only_acreate
      emails_canonical_aupdate emails_canonical_acreate emails_canonical_bootstrap
      emails_canonical_delete emails_canonical_assign)+

text \<open>The catalog of roles, permissions and grants, as the rows of its three tables.\<close>

definition catalog_of ::
  "'z db_scheme \<Rightarrow> role_row list \<times> permission_row list \<times> role_permission_row list" where
  "catalog_of s = (rows (roles s), rows (permissions s), rows (role_permissions s))"

lemma catalog_of_frame:
  "accounts_only s s' \<Longrightarrow> catalog_of s' = catalog_of s"
  "tokens_only s s' \<Longrightarrow> catalog_of s' = catalog_of s"
  "user_adelete uid s = (b, s') \<Longrightarrow> catalog_of s' = catalog_of s"
  "catalog_of (audit_record env io k ev w) = catalog_of w"
  "catalog_of (revoke_user up uid at ttl now w') = catalog_of w'"
  "catalog_of (block_token up j ttl now w') = catalog_of w'"
  by (simp_all add: catalog_of_def accounts_only_def tokens_only_def tokens_only_deletion)

lemmas tokens_only_intros = tokens_only_revokes tokens_only_arotate tokens_only_acreate

interpretation catalog: storage_contract env "\<lambda>_ _. True" "\<lambda>w. catalog_of w = cat" A for env cat A
  by unfold_locales
    (simp_all add: catalog_of_frame(4-6) catalog_of_frame(1) [OF accounts_only_acreate]
      catalog_of_frame(1) [OF accounts_only_aupdate] catalog_of_frame(1) [OF accounts_only_aassign]
      catalog_of_frame(1) [OF accounts_only_bootstrap] catalog_of_frame(2) [OF tokens_only_revokes(1)]
      catalog_of_frame(2) [OF tokens_only_revokes(3)] catalog_of_frame(2) [OF tokens_only_arotate]
      catalog_of_frame(2) [OF tokens_only_acreate] catalog_of_frame(3))

text \<open>The audit trail only grows at its end.\<close>

lemma prefix_audit_record:
  "prefix (rows (audit_logs w)) (rows (audit_logs (audit_record env io k ev w)))"
proof -
  let ?e = "audit_entry_of ev (with_actor_email (audit_get_user (ai_lookup (io_audit io k))) (ev_context ev) w)"
  obtain r s' where c: "audit_acreate (ai_up (io_audit io k)) (env_inet_ok env) (ai_at (io_audit io k)) ?e w
      = (r, s')"
    by (cases "audit_acreate (ai_up (io_audit io k)) (env_inet_ok env) (ai_at (io_audit io k)) ?e w")
  then have "audit_record env io k ev w = s'"
    by (simp add: audit_record_def record_event_def split: sum.split)
  with c show ?thesis by (cases rule: audit_acreate_cases) simp_all
qed

definition extends_trail :: "audit_log_row list \<Rightarrow> 'z db_scheme \<Rightarrow> bool" where
  "extends_trail t s \<longleftrightarrow> prefix t (rows (audit_logs s))"

lemma extends_trail_frame:
  "extends_trail t s \<Longrightarrow> accounts_only s s' \<Longrightarrow> extends_trail t s'"
  "extends_trail t s \<Longrightarrow> tokens_only s s' \<Longrightarrow> extends_trail t s'"
  "extends_trail t s \<Longrightarrow> user_adelete uid s = (b, s') \<Longrightarrow> extends_trail t s'"
  "extends_trail t w' \<Longrightarrow> extends_trail t (revoke_user up uid at ttl now w')"
  "extends_trail t w' \<Longrightarrow> extends_trail t (block_token up j ttl now w')"
  by (simp_all add: extends_trail_def accounts_only_def tokens_only_def tokens_only_deletion)

lemma extends_trail_audit: "extends_trail t w \<Longrightarrow> extends_trail t (audit_record env io k ev w)"
  unfolding extends_trail_def by (rule prefix_order.trans [OF _ prefix_audit_record])

interpretation trail_log: storage_contract env "\<lambda>_ _. True" "extends_trail t" A for env t A
  by unfold_locales
    (blast intro: extends_trail_audit extends_trail_frame tokens_only_intros accounts_only_intros)+

subsection \<open>The start\<close>

lemma migrated_empty: "rows (users migrated) = []" "rows (refresh_tokens migrated) = []"
    "rows (user_roles migrated) = []"
  by code_simp+

lemma initial_world_simps [simp]:
  "users initial_world = users migrated" "permissions initial_world = permissions migrated"
  "roles initial_world = roles migrated" "user_roles initial_world = user_roles migrated"
  "role_permissions initial_world = role_permissions migrated"
  "refresh_tokens initial_world = refresh_tokens migrated"
  "audit_logs initial_world = audit_logs migrated" "redis initial_world = (\<lambda>_. None)"
  by (simp_all add: initial_world_def db.defs world.defs)

definition consistent :: "'z db_scheme \<Rightarrow> bool" where
  "consistent s \<longleftrightarrow> db_ok s \<and> families_ok s \<and> emails_canonical s"

lemma consistent_initial: "consistent initial_world"
proof -
  have "db_ok initial_world"
    using db_ok_migrated by (simp add: db_ok_def ok_defs)
  then show ?thesis
    by (simp add: consistent_def families_ok_def family_rows_ok_def emails_canonical_def migrated_empty)
qed

subsection \<open>Properties\<close>

text \<open>
  C4. Every reachable world is consistent. From a freshly migrated database, whatever requests are
  served and however often the bootstrap command runs, with any random values, the constraints of
  the schema hold: the keys of every table, the uniqueness of addresses, names, codes, token hashes
  and links, the foreign keys, and the lengths of the \<open>varchar\<close> columns of users, roles, permissions,
  refresh tokens and audit records; and every stored e-mail address is in its canonical lower-case
  form. If besides each request that was served drew a family id no stored token had then
  (\<open>fresh_family\<close>, what \<open>uuid4()\<close> is used for), a family of refresh tokens belongs to one user and has
  at most one live token.
\<close>

theorem reachable_consistent:
  assumes "reachable A env w"
  shows "db_ok w \<and> columns_ok w \<and> emails_canonical w \<and>
    ((\<forall>io v. A io v \<longrightarrow> fresh_family io v) \<longrightarrow> families_ok w)"
proof -
  note steps = assms [unfolded reachable_def]
  have "db_ok w" "emails_canonical w"
    using consistent_initial integrity.steps_kept addresses.steps_kept steps
    unfolding consistent_def by blast+
  moreover have "families_ok w" if "\<forall>io v. A io v \<longrightarrow> fresh_family io v"
  proof -
    have "service_step fresh_family env v v'" if "service_step A env v v'" for v v'
      using that \<open>\<forall>io v. A io v \<longrightarrow> fresh_family io v\<close>
      by (auto elim!: service_stepE intro: service_step.intros)
    then have "(service_step fresh_family env)\<^sup>*\<^sup>* initial_world w"
      using mono_rtranclp [of "service_step A env" "service_step fresh_family env"] steps by blast
    then show ?thesis using consistent_initial families.steps_kept unfolding consistent_def by blast
  qed
  ultimately show ?thesis by (simp add: db_ok_def)
qed

lemma reachable_bootstrap:
  "reachable A env (snd (bootstrap_admin (env_normalize env) (env_make_password env) salt now email
     env_var typed initial_world))"
  unfolding reachable_def by (rule r_into_rtranclp, rule service_step.bootstrap, rule surjective_pairing)

lemma service_step_serve:
  "A io w \<Longrightarrow> service_step A env w (snd (serve env io allowed rq call w))"
  by (rule service_step.request [OF _ surjective_pairing])

text \<open>A first administrator, who then logs in.\<close>

definition started :: world where
  "started = snd (bootstrap_admin (env_normalize sample_env) (env_make_password sample_env) ''s'' 0
     ''Ann@x.io'' (Some ''long-enough-pw'') None initial_world)"

definition logged_in_once :: world where
  "logged_in_once = snd (serve sample_env (sample_io ''d'') True (bearer_request ''none'')
     (PostLogin ''ann@x.io'' ''long-enough-pw'') started)"

lemma started_reachable: "reachable A sample_env started"
  unfolding started_def by (rule reachable_bootstrap)

lemma logged_in_once_step: "service_step fresh_family sample_env started logged_in_once"
proof -
  have "tokens started = tokens initial_world"
    using accounts_only_bootstrap [OF surjective_pairing] unfolding started_def accounts_only_def by blast
  then have "fresh_family (sample_io ''d'') started"
    by (simp add: fresh_family_def migrated_empty)
  then show ?thesis unfolding logged_in_once_def by (rule service_step_serve)
qed

lemma logged_in_once_reachable: "reachable fresh_family sample_env logged_in_once"
  using started_reachable logged_in_once_step
  unfolding reachable_def by (rule rtranclp.rtrancl_into_rtrancl)

theorem reachable_consistent_witness: "db_ok logged_in_once \<and> families_ok logged_in_once"
  using reachable_consistent [OF logged_in_once_reachable] by blast

lemma reachable_catalog:
  assumes "reachable A env w"
  shows "map p_code (rows (permissions w)) = PERMISSION_CATALOG"
    "role_catalog w = DEFAULT_ROLE_PERMISSIONS"
proof -
  have c: "catalog_of w = catalog_of initial_world"
    using assms unfolding reachable_def by (rule catalog.steps_kept) simp
  show "map p_code (rows (permissions w)) = PERMISSION_CATALOG"
    using c migrated_catalog by (simp add: catalog_of_def)
  show "role_catalog w = DEFAULT_ROLE_PERMISSIONS"
    using c migrated_catalog by (simp add: catalog_of_def role_catalog_def)
qed

text \<open>
  The catalog is fixed: no request and no run of the bootstrap command ever adds, removes or
  renames a role or a permission or changes what a role grants. In every reachable world the
  permissions and the grants of the roles are exactly the ones that the code declares
  (\<open>PERMISSION_CATALOG\<close> and \<open>DEFAULT_ROLE_PERMISSIONS\<close>), although the migrations seed an older
  version of both and correct it later.
\<close>

theorem catalog_fixed:
  assumes "reachable A env w"
  shows "map p_code (rows (permissions w)) = PERMISSION_CATALOG \<and>
    role_catalog w = DEFAULT_ROLE_PERMISSIONS"
  using reachable_catalog [OF assms] by blast

theorem catalog_fixed_witness: "role_catalog logged_in_once = DEFAULT_ROLE_PERMISSIONS"
  using catalog_fixed [OF logged_in_once_reachable] by (rule conjunct2)

lemma role_codes_catalog:
  assumes "role_catalog s = DEFAULT_ROLE_PERMISSIONS" "r \<in> set (rows (roles s))"
  shows "role_codes (r_id r) s = (if r_name r = role_value ADMIN then set PERMISSION_CATALOG else {})"
proof -
  let ?codes = "map p_code (filter (\<lambda>p. (r_id r, p_id p) \<in> set (map rp_pair (rows (role_permissions s))))
    (rows (permissions s)))"
  have "role_codes (r_id r) s = set ?codes" by (force simp: role_codes_def)
  moreover have "(r_name r, ?codes) \<in> set DEFAULT_ROLE_PERMISSIONS"
    unfolding assms(1) [symmetric] role_catalog_def using assms(2) by auto
  ultimately obtain cs where cs: "role_codes (r_id r) s = set cs" "(r_name r, cs) \<in> set DEFAULT_ROLE_PERMISSIONS"
    by blast
  from cs(2) consider "r_name r = role_value ADMIN" "cs = PERMISSION_CATALOG"
    | "r_name r = role_value USER" "cs = []"
    by (auto simp: DEFAULT_ROLE_PERMISSIONS_def simp del: role_value.simps)
  then show ?thesis by cases (simp_all add: cs(1))
qed

text \<open>
  C22. Permissions are exactly what the roles say. In every reachable world a user with the admin role
  holds the whole permission catalog, and every other user holds no permission at all: neither the
  history of the database nor a removed or additional role leaves anybody with more or with less.
\<close>

theorem permissions_follow_roles:
  assumes "reachable A env w"
  shows "aget_user_permission_codes uid w =
    (if role_value ADMIN \<in> aget_user_role_names uid w then set PERMISSION_CATALOG else {})"
proof -
  have ok: "db_ok w" using integrity.steps_kept assms consistent_initial
    unfolding reachable_def consistent_def by blast
  have role: "\<exists>r \<in> set (rows (roles w)). r_id r = rid \<and> r_name r \<in> aget_user_role_names uid w"
    if "rid \<in> user_role_ids uid w" for rid
    using that ok by (force simp: db_ok_def links_ok_def user_role_ids_def aget_user_role_names_def has_role_def)
  have named: "\<exists>r \<in> set (rows (roles w)). r_name r = nm \<and> r_id r \<in> user_role_ids uid w"
    if "nm \<in> aget_user_role_names uid w" for nm
    using that by (force simp: user_role_ids_def aget_user_role_names_def has_role_def)
  note codes = role_codes_catalog [OF reachable_catalog(2) [OF assms]]
  show ?thesis
  proof (cases "role_value ADMIN \<in> aget_user_role_names uid w")
    case True
    then obtain r where r: "r \<in> set (rows (roles w))" "r_name r = role_value ADMIN"
      "r_id r \<in> user_role_ids uid w" using named by blast
    have "role_codes rid w \<subseteq> set PERMISSION_CATALOG" if "rid \<in> user_role_ids uid w" for rid
      using role [OF that] codes by (auto split: if_splits)
    moreover have "role_codes (r_id r) w = set PERMISSION_CATALOG" using codes [OF r(1)] r(2) by simp
    ultimately show ?thesis using True r(3) unfolding permission_codes_union [OF ok] by auto
  next
    case False
    have "role_codes rid w = {}" if rid: "rid \<in> user_role_ids uid w" for rid
    proof -
      obtain x where x: "x \<in> set (rows (roles w))" "r_id x = rid" "r_name x \<in> aget_user_role_names uid w"
        using role [OF rid] by blast
      with False have "r_name x \<noteq> role_value ADMIN" by metis
      with codes [OF x(1)] x(2) show ?thesis by simp
    qed
    with False show ?thesis unfolding permission_codes_union [OF ok] by simp
  qed
qed

lemma started_admin: "role_value ADMIN \<in> aget_user_role_names 1 started"
  by code_simp

theorem permissions_follow_roles_witness:
  "aget_user_permission_codes 1 started = set PERMISSION_CATALOG \<and>
   aget_user_permission_codes 7 started = {}"
proof -
  have "role_value ADMIN \<notin> aget_user_role_names 7 started" by code_simp
  then show ?thesis
    using permissions_follow_roles [OF started_reachable [of any_values]] started_admin by simp
qed

text \<open>
  C21. The audit trail is append-only for the whole service: from any world, over any sequence of
  requests and bootstrap runs, whatever random values they draw, the records there are stay as they are and in place, and new ones are
  added behind them only; deleting a user leaves the records about him alone.
\<close>

theorem audit_log_only_grows:
  assumes "(service_step A env)\<^sup>*\<^sup>* w w'"
  shows "prefix (rows (audit_logs w)) (rows (audit_logs w'))"
  using trail_log.steps_kept [OF assms, of "rows (audit_logs w)"] by (simp add: extends_trail_def)

theorem audit_log_only_grows_witness:
  "prefix (rows (audit_logs started)) (rows (audit_logs logged_in_once))"
  by (rule audit_log_only_grows [where env = sample_env and A = fresh_family], rule r_into_rtranclp, rule logged_in_once_step)

subsection \<open>Who gets a role\<close>

definition roles_within :: "(int \<Rightarrow> int set) \<Rightarrow> 'z db_scheme \<Rightarrow> bool" where
  "roles_within R s \<longleftrightarrow> (\<forall>i. user_role_ids i s \<subseteq> R i)"

lemma roles_within_fewer:
  assumes "roles_within R s" "set (rows (user_roles s')) \<subseteq> set (rows (user_roles s))"
  shows "roles_within R s'"
  using assms unfolding roles_within_def user_role_ids_def by blast

lemma user_roles_aupdate: "user_aupdate dj uid f s = (r, s') \<Longrightarrow> user_roles s' = user_roles s"
  by (auto dest: user_aupdate_frame)

lemma user_roles_adelete:
  "user_adelete uid s = (b, s') \<Longrightarrow> set (rows (user_roles s')) \<subseteq> set (rows (user_roles s))"
  by (auto simp: user_adelete_def delete_users_def Let_def tbl_delete_def delete_refresh_tokens_def)

lemma roles_within_frame:
  "roles_within R s \<Longrightarrow> tokens_only s s' \<Longrightarrow> roles_within R s'"
  "roles_within R w \<Longrightarrow> roles_within R (audit_record env io k ev w)"
  "roles_within R w' \<Longrightarrow> roles_within R (revoke_user up uid at ttl now w')"
  "roles_within R w' \<Longrightarrow> roles_within R (block_token up j ttl now w')"
  "roles_within R s \<Longrightarrow> user_aupdate dj uid f s = (r, s') \<Longrightarrow> roles_within R s'"
  "roles_within R s \<Longrightarrow> user_adelete uid s = (b, s') \<Longrightarrow> roles_within R s'"
  by (erule roles_within_fewer; simp add: tokens_only_def user_roles_aupdate user_roles_adelete)+

interpretation no_new_role: session_contract env "\<lambda>_ _. True" "roles_within R" for env R
  by unfold_locales (blast intro: roles_within_frame tokens_only_intros)+

text \<open>What a call may add: the role it names to the user it names, or the default role to a new account.\<close>

definition may_give ::
  "'e env_scheme \<Rightarrow> api_call \<Rightarrow> principal option \<Rightarrow> int \<Rightarrow> int \<Rightarrow> 'z db_scheme \<Rightarrow> bool" where
  "may_give env call auth uid rid s \<longleftrightarrow>
     (call = PostUserRoles uid rid \<and> ''role.assign'' \<in> granted auth) \<or>
     (uid \<notin> user_ids s \<and> (\<exists>r \<in> set (rows (roles s)). r_name r = cfg_default_user_role env \<and> r_id r = rid) \<and>
      ((\<exists>e p. call = PostRegister e p) \<or> ((\<exists>e p. call = PostUsers e p) \<and> ''user.create'' \<in> granted auth)))"

lemma user_role_ids_audit [simp]: "user_role_ids i (audit_record env io k ev w) = user_role_ids i w"
  by (simp add: user_role_ids_def)

lemma register_roles:
  assumes "db_ok w" "register env io e p c b w = (res, w')"
    and "rid \<in> user_role_ids uid w'" "rid \<notin> user_role_ids uid w"
  shows "uid \<notin> user_ids w \<and> (\<exists>r \<in> set (rows (roles w)). r_name r = cfg_default_user_role env \<and> r_id r = rid)"
proof (cases "first (\<lambda>r. r_name r = cfg_default_user_role env) (rows (roles w))")
  case None
  with assms(2) have "w' = w" by (simp add: register_def aget_role_by_name_def)
  with assms(3,4) show ?thesis by simp
next
  case (Some d)
  let ?pw = "hash_password (env_make_password env) (io_salt io) p"
  obtain r w1 where a: "acreate_user_with_role (env_normalize env) (io_now io) e ?pw (r_id d) w = (r, w1)"
    by (cases "acreate_user_with_role (env_normalize env) (io_now io) e ?pw (r_id d) w")
  have d: "d \<in> set (rows (roles w))" "r_name d = cfg_default_user_role env"
    using first_Some [OF Some] by simp_all
  have reg: "register env io e p c b w = (case (r, w1) of
      (Inl IntegrityError, w1) \<Rightarrow> (Inl (raise_domain EmailAlreadyExists), w1)
    | (Inl e, w1) \<Rightarrow> (Inl e, w1)
    | (Inr u, w1) \<Rightarrow> (Inr u, if b
        then audit_record env io 0 (event REGISTER (context_for_user c u) True None) w1 else w1))"
    using Some a by (simp add: register_def aget_role_by_name_def role_dto_of_def)
  show ?thesis
  proof (cases r)
    case (Inl x)
    have "same_rows w w1"
      using a [unfolded Inl acreate_user_with_role_def] by (rule run_in_transaction_atomic)
    moreover have "w' = w1" using assms(2) reg unfolding Inl by (cases x) simp_all
    ultimately have "user_role_ids uid w' = user_role_ids uid w"
      by (simp add: same_rows_def user_role_ids_def)
    with assms(3,4) show ?thesis by simp
  next
    case (Inr u)
    have "user_role_ids uid w' = user_role_ids uid w1"
      using assms(2) reg unfolding Inr by (cases b) auto
    with assms(3) have new: "rid \<in> user_role_ids uid w1" by simp
    obtain v :: user_row where v: "u_id v \<notin> user_ids w" "user_role_ids (u_id v) w1 = {r_id d}"
      "\<forall>i. i \<noteq> u_id v \<longrightarrow> user_role_ids i w1 = user_role_ids i w"
      using acreate_user_with_role_ok [OF assms(1) a [unfolded Inr]] by blast
    have "uid = u_id v" using v(3) new assms(4) by blast
    with new v(1,2) d show ?thesis by auto
  qed
qed

lemma aassign_roles:
  assumes "aassign_role i r w = (res, w')" "rid \<in> user_role_ids uid w'" "rid \<notin> user_role_ids uid w"
  shows "uid = i \<and> rid = r"
proof (cases "first (\<lambda>l. ur_user_id l = i \<and> ur_role_id l = r) (rows (user_roles w))")
  case (Some l)
  with assms(1) have "w' = w" by (simp add: aassign_role_def)
  with assms(2,3) show ?thesis by simp
next
  case None
  obtain x w1 where c: "create_user_role i r w = (x, w1)" by (cases "create_user_role i r w")
  with None assms(1) have "w' = w1" by (auto simp: aassign_role_def split: sum.splits)
  with c have c: "create_user_role i r w = (x, w')" by simp
  from c show ?thesis
  proof (cases rule: create_user_role_cases)
    case refused
    with assms(2,3) show ?thesis by (simp add: user_role_ids_def)
  next
    case (created l)
    with assms(2,3) show ?thesis by (auto simp: user_role_ids_def)
  qed
qed

lemma assign_roles:
  assumes "assign_role env io i r c w = (res, w')"
    and "rid \<in> user_role_ids uid w'" "rid \<notin> user_role_ids uid w"
  shows "uid = i \<and> rid = r"
proof (cases "i \<in> user_ids w \<and> r \<in> role_ids w")
  case True
  then obtain ev w1 where a: "assign_role env io i r c w = (Inr (), audit_record env io 0 ev w1)"
    "aassign_role i r w = (Inr \<lparr>urd_user_id = i, urd_role_id = r\<rparr>, w1)"
    using assign_role_found by blast
  then have "user_role_ids uid w' = user_role_ids uid w1" using assms(1) by auto
  with assms(2) have "rid \<in> user_role_ids uid w1" by simp
  with a(2) show ?thesis using assms(3) by (rule aassign_roles)
next
  case False
  with assms show ?thesis by (simp add: assign_role_refused)
qed

lemma admin_create_roles:
  assumes "admin_create_user env io e p c w = (res, w')"
  obtains r w1 where "register env io e p c False w = (r, w1)"
    "user_role_ids uid w' = user_role_ids uid w1"
  using assms
  by (cases "register env io e p c False w") (auto simp: admin_create_user_def split: sum.splits)

lemma with_context_ran:
  assumes "answer (with_context env rq auth f w) k = (rep, w')" "w' \<noteq> w"
  obtains c r where "f c w = (r, w')"
proof (cases "from_request (cfg_trusted_proxy_cidrs env) rq (map_option pr_user_id auth)")
  case (Inl e)
  with assms show thesis by (simp add: with_context_def answer_def)
next
  case (Inr c)
  with assms(1) have "w' = snd (f c w)" by (simp add: with_context_def answer_def)
  then have "f c w = (fst (f c w), w')" by simp
  then show thesis by (rule that)
qed

lemma route_roles:
  assumes "db_ok w" "run_route env io rq auth call w = (rep, w')"
    and "rid \<in> user_role_ids uid w'" "rid \<notin> user_role_ids uid w"
  shows "may_give env call auth uid rid w"
proof -
  have ne: "w' \<noteq> w" using assms(3,4) by blast
  consider "\<not> gives_role call" | e p where "call = PostRegister e p" | e p where "call = PostUsers e p"
    | i r where "call = PostUserRoles i r"
    by (cases call) auto
  then show ?thesis
  proof cases
    case 1
    have "roles_within (\<lambda>i. user_role_ids i w) (snd (run_route env io rq auth call w))"
      by (rule no_new_role.quiet_route_kept [OF _ TrueI 1]) (simp add: roles_within_def)
    with assms(2-4) show ?thesis by (auto simp: roles_within_def)
  next
    case (2 e p)
    then obtain pl where "api_register env io rq pl w = (rep, w')"
      using assms(2) ne by (cases "valid_register env e p") auto
    then obtain c r where "register env io (in_email pl) (in_password pl) c True w = (r, w')"
      unfolding api_register_def using ne by (rule with_context_ran)
    from register_roles [OF assms(1) this assms(3,4)] 2 show ?thesis by (auto simp: may_give_def)
  next
    case (3 e p)
    have g: "''user.create'' \<in> granted auth"
      using run_route_denied [of call "''user.create''" auth env io rq w] assms(2) ne 3 by auto
    then obtain pr pl where "api_create_user env io rq pr pl w = (rep, w')"
      using assms(2) ne 3
      by (cases "valid_register env e p") (auto simp: require_permission_def granted_def split: option.splits)
    then obtain c r where a: "admin_create_user env io (in_email pl) (in_password pl) c w = (r, w')"
      unfolding api_create_user_def using ne by (rule with_context_ran)
    from a obtain x w1 where x: "register env io (in_email pl) (in_password pl) c False w = (x, w1)"
      "user_role_ids uid w' = user_role_ids uid w1" by (rule admin_create_roles)
    with assms(3) have "rid \<in> user_role_ids uid w1" by simp
    from register_roles [OF assms(1) x(1) this assms(4)] g 3 show ?thesis by (auto simp: may_give_def)
  next
    case (4 i r)
    have g: "''role.assign'' \<in> granted auth"
      using run_route_denied [of call "''role.assign''" auth env io rq w] assms(2) ne 4 by auto
    then obtain pr rid' where a: "valid_assign_role r = Inr rid'" "api_assign_role env io rq pr i rid' w = (rep, w')"
      using assms(2) ne 4
      by (cases "valid_assign_role r") (auto simp: require_permission_def granted_def split: option.splits)
    have "rid' = r" using a(1) by (simp add: valid_assign_role_def split: if_splits)
    obtain c x where "assign_role env io i rid' c w = (x, w')"
      using a(2) [unfolded api_assign_role_def] ne by (rule with_context_ran)
    from assign_roles [OF this assms(3,4)] g 4 \<open>rid' = r\<close> show ?thesis by (simp add: may_give_def)
  qed
qed

text \<open>
  C3. No privilege escalation: a request gives a user a role he did not have only if it is a role
  assignment that names this user and this role and whose bearer token carries \<open>role.assign\<close>, or if it
  is a registration, or a user creation whose token carries \<open>user.create\<close>, that creates this very
  account with the configured default role. No other request, whatever its token, and no login,
  refresh, profile update or deletion adds a role to anybody.
\<close>

theorem role_grants_controlled:
  assumes "db_ok w" "serve env io allowed rq call w = (rep, w')"
    and "rid \<in> user_role_ids uid w'" "rid \<notin> user_role_ids uid w"
  shows "\<exists>auth. may_give env call auth uid rid w \<and>
    (auth = None \<or> jwt_call env io rq w = Inr auth)"
proof -
  obtain r where r: "run_checked env io allowed rq call w = (r, w')"
    using assms(2) by (auto simp: serve_def split: prod.splits)
  have ne: "w' \<noteq> w" using assms(3,4) by blast
  obtain auth where "run_route env io rq auth call w = (r, w')"
    "auth = None \<or> jwt_call env io rq w = Inr auth"
    using r ne by (auto simp: run_checked_def split: if_splits sum.splits option.splits)
  with route_roles [OF assms(1) _ assms(3,4)] show ?thesis by blast
qed

definition registering :: "reply option \<times> world" where
  "registering = serve sample_env (sample_io ''d'') True (bearer_request ''none'')
     (PostRegister ''bob@x.io'' ''long-enough-pw'') sample_world"

lemma registering_links: "map ur_pair (rows (user_roles (snd registering))) = [(1, 1), (2, 2), (3, 2)]"
  by code_simp

lemma in_user_role_ids: "rid \<in> user_role_ids uid s \<longleftrightarrow> (uid, rid) \<in> set (map ur_pair (rows (user_roles s)))"
  by (auto simp: user_role_ids_def)

theorem role_grants_controlled_witness:
  "\<exists>auth. may_give sample_env (PostRegister ''bob@x.io'' ''long-enough-pw'') auth 3 2 sample_world"
proof -
  have ok: "db_ok sample_world" unfolding sample_world_def by (rule sample_db_ok)
  have new: "2 \<in> user_role_ids 3 (snd registering)" "2 \<notin> user_role_ids 3 sample_world"
    unfolding in_user_role_ids registering_links by (simp_all add: sample_world_def sample_def)
  have s: "serve sample_env (sample_io ''d'') True (bearer_request ''none'')
      (PostRegister ''bob@x.io'' ''long-enough-pw'') sample_world = (fst registering, snd registering)"
    by (simp add: registering_def)
  show ?thesis using role_grants_controlled [OF ok s new] by (elim exE conjE) (rule exI)
qed

end
