(* ===== verification/Procs.thy ===== *)
theory Procs
  imports Prelude
begin

text \<open>
  Processes that share a state, for the coroutines of the service: a process is finished with an
  answer, or has an atomic step that reads and writes the state and yields the process it goes on
  with. A pool of processes runs under a schedule, the list of the indices of the processes that
  move; every interleaving of the atomic steps is a schedule.

  The theory holds the composition of steps (\<open>atomic\<close>, \<open>query\<close>, \<open>effect\<close>), the run of one process on
  its own, and three ways to reason about a pool: a predicate every step keeps (\<open>keeps\<close>), a
  resource that at most one process can claim (\<open>contends\<close>), and a bound on the steps (\<open>within\<close>).
\<close>

subsection \<open>Processes\<close>

datatype ('s, 'a) proc = Done 'a | Step "'s \<Rightarrow> ('s, 'a) proc \<times> 's"

primrec run :: "('s, 'a) proc \<Rightarrow> 's \<Rightarrow> 'a \<times> 's" where
  "run (Done a) = (\<lambda>s. (a, s))"
| "run (Step f) = (\<lambda>s. case (map_prod run id \<circ> f) s of (g, s') \<Rightarrow> g s')"

definition atomic :: "('s \<Rightarrow> 'b \<times> 's) \<Rightarrow> ('b \<Rightarrow> ('s, 'a) proc) \<Rightarrow> ('s, 'a) proc" where
  "atomic f k = Step (\<lambda>s. case f s of (b, s') \<Rightarrow> (k b, s'))"

definition query :: "('s \<Rightarrow> 'b) \<Rightarrow> ('b \<Rightarrow> ('s, 'a) proc) \<Rightarrow> ('s, 'a) proc" where
  "query q k = atomic (\<lambda>s. (q s, s)) k"

definition effect :: "('s \<Rightarrow> 's) \<Rightarrow> ('s, 'a) proc \<Rightarrow> ('s, 'a) proc" where
  "effect g p = atomic (\<lambda>s. ((), g s)) (\<lambda>_. p)"

definition effect_if :: "bool \<Rightarrow> ('s \<Rightarrow> 's) \<Rightarrow> ('s, 'a) proc \<Rightarrow> ('s, 'a) proc" where
  "effect_if c g p = (if c then effect g p else p)"

lemma run_Step [simp]: "run (Step f) s = (case f s of (p, s') \<Rightarrow> run p s')"
  by (simp add: map_prod_def split: prod.split)

declare run.simps(2) [simp del]

lemma run_atomic [simp]: "run (atomic f k) s = (case f s of (b, s') \<Rightarrow> run (k b) s')"
  by (simp add: atomic_def split: prod.split)

lemma run_query [simp]: "run (query q k) s = run (k (q s)) s"
  by (simp add: query_def)

lemma run_effect [simp]: "run (effect g p) s = run p (g s)"
  by (simp add: effect_def)

lemma run_effect_if [simp]: "run (effect_if c g p) s = run p (if c then g s else s)"
  by (simp add: effect_if_def)

subsection \<open>Pools and schedules\<close>

definition advance ::
  "nat \<Rightarrow> ('s, 'a) proc list \<times> 's \<Rightarrow> ('s, 'a) proc list \<times> 's" where
  "advance i c = (case c of (ps, s) \<Rightarrow>
     if i < length ps
     then (case ps ! i of Done a \<Rightarrow> (ps, s) | Step f \<Rightarrow> (case f s of (p, s') \<Rightarrow> (ps[i := p], s')))
     else (ps, s))"

primrec interleave ::
  "nat list \<Rightarrow> ('s, 'a) proc list \<times> 's \<Rightarrow> ('s, 'a) proc list \<times> 's" where
  "interleave [] c = c"
| "interleave (i # is) c = interleave is (advance i c)"

lemma advance_cases:
  assumes "advance i (ps, s) = (ps', s')"
  obtains (idle) "ps' = ps" "s' = s" "i < length ps \<Longrightarrow> \<exists>a. ps ! i = Done a"
    | (step) f where "i < length ps" "ps ! i = Step f" "ps' = ps[i := fst (f s)]" "s' = snd (f s)"
proof (cases "i < length ps")
  case True
  show thesis
  proof (cases "ps ! i")
    case (Done a)
    with assms True have "ps' = ps" "s' = s" by (simp_all add: advance_def)
    then show thesis using Done by (intro idle) blast+
  next
    case (Step f)
    with assms True have "ps' = ps[i := fst (f s)]" "s' = snd (f s)"
      by (auto simp: advance_def split: prod.splits)
    with True Step show thesis by (rule step)
  qed
next
  case False
  with assms have "ps' = ps" "s' = s" by (simp_all add: advance_def)
  with False show thesis by (intro idle) blast+
qed

lemma advance_length: "advance i (ps, s) = (ps', s') \<Longrightarrow> length ps' = length ps"
  by (erule advance_cases) simp_all

lemma interleave_length: "interleave is (ps, s) = (ps', s') \<Longrightarrow> length ps' = length ps"
proof (induction "is" arbitrary: ps s)
  case (Cons i "is")
  obtain qs t where a: "advance i (ps, s) = (qs, t)" by fastforce
  with Cons show ?case using advance_length [OF a] by simp
qed simp

text \<open>An invariant of the single step is one of every schedule.\<close>

lemma interleave_invariant:
  assumes "\<And>i ps s ps' s'. P ps s \<Longrightarrow> advance i (ps, s) = (ps', s') \<Longrightarrow> P ps' s'"
    and "P ps s" "interleave is (ps, s) = (ps', s')"
  shows "P ps' s'"
  using assms(2,3)
proof (induction "is" arbitrary: ps s)
  case (Cons i "is")
  obtain qs t where a: "advance i (ps, s) = (qs, t)" by fastforce
  with Cons.IH [OF assms(1) [OF Cons.prems(1) a]] Cons.prems(2) show ?case by simp
qed simp


subsection \<open>What every step guarantees\<close>

inductive guarantees :: "('s \<Rightarrow> 's \<Rightarrow> bool) \<Rightarrow> ('s, 'a) proc \<Rightarrow> bool" for R where
  finished: "guarantees R (Done a)"
| moves: "(\<And>s. R s (snd (f s)) \<and> guarantees R (fst (f s))) \<Longrightarrow> guarantees R (Step f)"

inductive_simps guarantees_simps [simp]: "guarantees R (Done a)" "guarantees R (Step f)"

lemma guarantees_atomic:
  assumes "\<And>s b s'. f s = (b, s') \<Longrightarrow> R s s' \<and> guarantees R (k b)"
  shows "guarantees R (atomic f k)"
  using assms by (auto simp: atomic_def split: prod.split)

lemma guarantees_query: "(\<And>s. R s s) \<Longrightarrow> (\<And>b. guarantees R (k b)) \<Longrightarrow> guarantees R (query q k)"
  by (simp add: query_def atomic_def)

lemma guarantees_effect: "(\<And>s. R s (g s)) \<Longrightarrow> guarantees R p \<Longrightarrow> guarantees R (effect g p)"
  by (simp add: effect_def atomic_def)

lemma guarantees_effect_if:
  "(\<And>s. R s (g s)) \<Longrightarrow> guarantees R p \<Longrightarrow> guarantees R (effect_if c g p)"
  by (simp add: effect_if_def guarantees_effect)

lemma guarantees_advance:
  assumes "\<forall>p \<in> set ps. guarantees R p" "reflp R" "advance i (ps, s) = (ps', s')"
  shows "R s s' \<and> (\<forall>p \<in> set ps'. guarantees R p)"
  using assms(3)
proof (cases rule: advance_cases)
  case (step f)
  from step(1,2) have "Step f \<in> set ps" by (metis nth_mem)
  with assms(1) have "guarantees R (Step f)" by blast
  then have "R s (snd (f s)) \<and> guarantees R (fst (f s))" by simp
  with assms(1) step(3,4) show ?thesis
    by (auto dest: set_update_subset_insert [THEN subsetD])
qed (use assms(1,2) in \<open>simp add: reflp_def\<close>)

lemma interleave_guarantees:
  assumes "\<forall>p \<in> set ps. guarantees R p" "reflp R" "transp R" "interleave is (ps, s) = (ps', s')"
  shows "R s s'"
  using assms(1,4)
proof (induction "is" arbitrary: ps s)
  case Nil
  with assms(2) show ?case by (simp add: reflp_def)
next
  case (Cons i "is")
  obtain qs t where a: "advance i (ps, s) = (qs, t)" by fastforce
  from guarantees_advance [OF Cons.prems(1) assms(2) a] have "R s t" "\<forall>p \<in> set qs. guarantees R p"
    by blast+
  moreover from Cons.IH [OF this(2)] Cons.prems(2) a have "R t s'" by simp
  ultimately show ?case using assms(3) by (meson transpD)
qed

subsection \<open>A resource that one process can claim\<close>

text \<open>
  A contender for a resource never wins on its own: it can only win after a step that finds the
  resource available and leaves it \<open>spent\<close>. If nobody makes a spent resource available again,
  then of all contenders at most one wins.
\<close>

inductive contends :: "('s \<Rightarrow> bool) \<Rightarrow> ('s \<Rightarrow> bool) \<Rightarrow> ('a \<Rightarrow> bool) \<Rightarrow> ('s, 'a) proc \<Rightarrow> bool"
  for I spent wins where
  lost: "\<not> wins a \<Longrightarrow> contends I spent wins (Done a)"
| tries: "(\<And>s. I s \<Longrightarrow> contends I spent wins (fst (f s)) \<or> (\<not> spent s \<and> spent (snd (f s)))) \<Longrightarrow>
    contends I spent wins (Step f)"

inductive_simps contends_simps [simp]: "contends I spent wins (Done a)" "contends I spent wins (Step f)"

lemma contends_atomic:
  assumes "\<And>s b s'. I s \<Longrightarrow> f s = (b, s') \<Longrightarrow>
    contends I spent wins (k b) \<or> (\<not> spent s \<and> spent s')"
  shows "contends I spent wins (atomic f k)"
  using assms by (auto simp: atomic_def split: prod.split)

lemma contends_query:
  "(\<And>s. I s \<Longrightarrow> contends I spent wins (k (q s))) \<Longrightarrow> contends I spent wins (query q k)"
  by (simp add: query_def atomic_def)

lemma contends_effect: "contends I spent wins p \<Longrightarrow> contends I spent wins (effect g p)"
  by (simp add: effect_def atomic_def)

lemma contends_effect_if: "contends I spent wins p \<Longrightarrow> contends I spent wins (effect_if c g p)"
  by (simp add: effect_if_def contends_effect)

lemma contends_mono:
  "contends I spent wins p \<Longrightarrow> (\<And>a. wins' a \<Longrightarrow> wins a) \<Longrightarrow> contends I spent wins' p"
proof (induction rule: contends.induct)
  case (tries f)
  then show ?case by simp blast
qed auto

definition stays_spent :: "('s \<Rightarrow> bool) \<Rightarrow> ('s \<Rightarrow> bool) \<Rightarrow> 's \<Rightarrow> 's \<Rightarrow> bool" where
  "stays_spent I spent s s' \<longleftrightarrow> I s \<longrightarrow> I s' \<and> (spent s \<longrightarrow> spent s')"

lemma reflp_stays_spent: "reflp (stays_spent I spent)"
  by (simp add: reflp_def stays_spent_def)

definition contest ::
  "('s \<Rightarrow> bool) \<Rightarrow> ('s \<Rightarrow> bool) \<Rightarrow> ('a \<Rightarrow> bool) \<Rightarrow> nat set \<Rightarrow> ('s, 'a) proc list \<Rightarrow> 's \<Rightarrow> bool" where
  "contest I spent wins C ps s \<longleftrightarrow> I s \<and> (\<forall>p \<in> set ps. guarantees (stays_spent I spent) p) \<and>
     (\<forall>i \<in> C. \<forall>j \<in> C. i \<noteq> j \<longrightarrow> contends I spent wins (ps ! i) \<or> contends I spent wins (ps ! j)) \<and>
     (spent s \<or> (\<forall>i \<in> C. contends I spent wins (ps ! i)))"

lemma contest_advance:
  assumes "contest I spent wins C ps s" "advance i (ps, s) = (ps', s')"
  shows "contest I spent wins C ps' s'"
  using assms(2)
proof (cases rule: advance_cases)
  case (step f)
  let ?c = "contends I spent wins"
  have c: "I s" "\<forall>p \<in> set ps. guarantees (stays_spent I spent) p"
    "\<And>j k. j \<in> C \<Longrightarrow> k \<in> C \<Longrightarrow> j \<noteq> k \<Longrightarrow> ?c (ps ! j) \<or> ?c (ps ! k)"
    "spent s \<or> (\<forall>j \<in> C. ?c (ps ! j))"
    using assms(1) unfolding contest_def by blast+
  from guarantees_advance [OF c(2) reflp_stays_spent assms(2)] c(1)
  have g: "I s'" "spent s \<longrightarrow> spent s'" "\<forall>p \<in> set ps'. guarantees (stays_spent I spent) p"
    by (auto simp: stays_spent_def)
  have other: "ps' ! j = ps ! j" if "j \<noteq> i" for j using step(3) that by simp
  have i: "?c (ps' ! i) \<or> (\<not> spent s \<and> spent s')" if "?c (ps ! i)"
    using that c(1) step by auto
  have all: "?c (ps ! j)" if "j \<in> C" "\<not> spent s" for j using c(4) that by blast
  have "?c (ps' ! j) \<or> ?c (ps' ! k)" if jk: "j \<in> C" "k \<in> C" "j \<noteq> k" for j k
  proof (cases "spent s")
    case True
    then have "?c (ps ! x) \<longrightarrow> ?c (ps' ! x)" for x using i other [of x] by (cases "x = i") auto
    with c(3) [OF jk] show ?thesis by blast
  next
    case False
    with jk(3) all [OF jk(1)] all [OF jk(2)] other [of j] other [of k] show ?thesis
      by (cases "j = i") auto
  qed
  moreover have "spent s' \<or> (\<forall>j \<in> C. ?c (ps' ! j))"
  proof (cases "spent s \<or> spent s'")
    case True
    with g(2) show ?thesis by blast
  next
    case False
    then have "?c (ps' ! j)" if "j \<in> C" for j
      using all [OF that] i other [of j] by (cases "j = i") auto
    then show ?thesis by blast
  qed
  ultimately show ?thesis using g(1,3) unfolding contest_def by blast
qed (use assms(1) in simp)

lemma at_most_one_winner:
  assumes "\<forall>p \<in> set ps. guarantees (stays_spent I spent) p" "\<forall>i \<in> C. contends I spent wins (ps ! i)"
    and "I s" "interleave is (ps, s) = (ps', s')"
    and "i \<in> C" "ps' ! i = Done a" "wins a" "j \<in> C" "ps' ! j = Done b" "wins b"
  shows "i = j"
proof (rule ccontr)
  assume ne: "i \<noteq> j"
  have "contest I spent wins C ps s" using assms(1-3) by (simp add: contest_def)
  then have "contest I spent wins C ps' s'"
    by (rule interleave_invariant [where P = "contest I spent wins C", rotated, OF _ assms(4)])
      (rule contest_advance)
  with ne assms(5,8) have "contends I spent wins (ps' ! i) \<or> contends I spent wins (ps' ! j)"
    unfolding contest_def by blast
  with assms(6,7,9,10) show False by simp
qed

lemma one_winner:
  assumes "\<forall>p \<in> set ps. guarantees (stays_spent I spent) p"
    and "\<And>j. j < length ps \<Longrightarrow> claims j \<Longrightarrow> contends I spent wins (ps ! j)"
    and "I s" "interleave is (ps, s) = (ps', s')"
    and "\<And>j. won j \<Longrightarrow> \<exists>a. ps' ! j = Done a \<and> wins a"
  shows "card {j. j < length ps \<and> claims j \<and> won j} \<le> 1"
proof -
  let ?C = "{j. j < length ps \<and> claims j}"
  have c: "\<forall>i \<in> ?C. contends I spent wins (ps ! i)" using assms(2) by simp
  have "i = j" if i: "i \<in> ?C" "won i" and j: "j \<in> ?C" "won j" for i j
  proof -
    obtain a b where "ps' ! i = Done a" "wins a" "ps' ! j = Done b" "wins b"
      using assms(5) [OF i(2)] assms(5) [OF j(2)] by blast
    from at_most_one_winner [OF assms(1) c assms(3,4) i(1) this(1,2) j(1) this(3,4)] show ?thesis .
  qed
  then show ?thesis by (auto simp: card_le_Suc0_iff_eq)
qed

subsection \<open>Bounds on the number of steps\<close>

inductive within :: "nat \<Rightarrow> ('s, 'a) proc \<Rightarrow> bool" where
  at_once: "within n (Done a)"
| later: "(\<And>s. within n (fst (f s))) \<Longrightarrow> within (Suc n) (Step f)"

inductive_simps within_simps [simp]: "within n (Done a)" "within 0 (Step f)" "within (Suc n) (Step f)"

lemma within_atomic: "(\<And>s b s'. f s = (b, s') \<Longrightarrow> within n (k b)) \<Longrightarrow> within (Suc n) (atomic f k)"
  by (auto simp: atomic_def split: prod.split)

lemma within_query: "(\<And>b. within n (k b)) \<Longrightarrow> within (Suc n) (query q k)"
  by (simp add: query_def atomic_def)

lemma within_effect: "within n p \<Longrightarrow> within (Suc n) (effect g p)"
  by (simp add: effect_def atomic_def)

lemma within_mono: "within n p \<Longrightarrow> n \<le> m \<Longrightarrow> within m p"
proof (induction arbitrary: m rule: within.induct)
  case (later n f)
  then show ?case by (cases m) auto
qed simp

lemma within_effect_if: "within n p \<Longrightarrow> within (Suc n) (effect_if c g p)"
  by (simp add: effect_if_def within_effect) (rule impI, erule within_mono, simp)

lemma within_0 [simp]: "within 0 p \<longleftrightarrow> (\<exists>a. p = Done a)"
  by (cases p) simp_all

lemma within_advance:
  assumes "advance i (ps, s) = (ps', s')" "j < length ps" "within (n + (if i = j then 1 else 0)) (ps ! j)"
  shows "within n (ps' ! j)"
  using assms(1)
proof (cases rule: advance_cases)
  case idle
  show ?thesis
  proof (cases "i = j")
    case True
    with idle(3) assms(2) have "\<exists>a. ps ! j = Done a" by blast
    with idle(1) show ?thesis by auto
  qed (use idle(1) assms(3) in simp)
next
  case (step f)
  then show ?thesis using assms(2,3) by (cases "i = j") auto
qed

text \<open>A process that has had as many steps as its bound is finished, whatever the others did.\<close>

lemma interleave_finishes:
  assumes "interleave is (ps, s) = (ps', s')" "j < length ps" "within n (ps ! j)"
    and "n \<le> count_list is j"
  shows "\<exists>a. ps' ! j = Done a"
  using assms
proof (induction "is" arbitrary: ps s n)
  case (Cons i "is")
  obtain qs t where a: "advance i (ps, s) = (qs, t)" by fastforce
  let ?m = "count_list is j"
  have "within (?m + (if i = j then 1 else 0)) (ps ! j)"
    using Cons.prems(3,4) by (auto elim: within_mono)
  from within_advance [OF a Cons.prems(2) this] have "within ?m (qs ! j)" .
  with Cons.IH [of qs t ?m] Cons.prems(1,2) a advance_length [OF a] show ?case by simp
qed auto

text \<open>A process that gets its steps in one go does what its run does.\<close>

lemma interleave_append: "interleave (is @ js) c = interleave js (interleave is c)"
  by (induction "is" arbitrary: c) simp_all

lemma interleave_turn:
  assumes "j < length ps" "within n (ps ! j)"
  shows "interleave (replicate n j) (ps, s) =
    (ps[j := Done (fst (run (ps ! j) s))], snd (run (ps ! j) s))"
  using assms
proof (induction n arbitrary: ps s)
  case 0
  then obtain a where "ps ! j = Done a" by auto
  then show ?case using list_update_id [of ps j] by simp
next
  case (Suc n)
  show ?case
  proof (cases "ps ! j")
    case (Done a)
    with Suc.prems(1) have "advance j (ps, s) = (ps, s)" by (simp add: advance_def)
    then show ?thesis using Suc.IH [OF Suc.prems(1)] Done by simp
  next
    case (Step f)
    with Suc.prems have w: "within n (fst (f s))" by simp
    have "advance j (ps, s) = (ps[j := fst (f s)], snd (f s))"
      using Step Suc.prems(1) by (simp add: advance_def split: prod.split)
    then show ?thesis
      using Suc.IH [of "ps[j := fst (f s)]" "snd (f s)"] Suc.prems(1) w Step
      by (simp split: prod.split)
  qed
qed

text \<open>One process after the other, and the schedule that does it.\<close>

primrec run_all :: "('s, 'a) proc list \<Rightarrow> 's \<Rightarrow> 'a list \<times> 's" where
  "run_all [] s = ([], s)"
| "run_all (p # ps) s = (case run p s of (a, s1) \<Rightarrow> case run_all ps s1 of (as, s2) \<Rightarrow> (a # as, s2))"

definition serial :: "nat \<Rightarrow> nat \<Rightarrow> nat \<Rightarrow> nat list" where
  "serial n k m = concat (map (replicate n) [k..<k + m])"

lemma interleave_serial:
  assumes "\<forall>p \<in> set ps. within n p"
  shows "interleave (serial n (length qs) (length ps)) (qs @ ps, s) =
    (case run_all ps s of (as, s') \<Rightarrow> (qs @ map Done as, s'))"
  using assms
proof (induction ps arbitrary: qs s)
  case Nil
  then show ?case by (simp add: serial_def)
next
  case (Cons p ps)
  obtain a s1 where r: "run p s = (a, s1)" by fastforce
  have first: "interleave (replicate n (length qs)) (qs @ p # ps, s) = (qs @ Done a # ps, s1)"
    using interleave_turn [of "length qs" "qs @ p # ps" n s] Cons.prems r by simp
  have "serial n (length qs) (length (p # ps)) =
      replicate n (length qs) @ serial n (length (qs @ [Done a])) (length ps)"
    by (simp add: serial_def upt_rec)
  then show ?case
    using Cons.IH [of "qs @ [Done a]" s1] Cons.prems first r
    by (simp add: interleave_append split: prod.split)
qed

subsection \<open>Processes with another answer\<close>

text \<open>\<open>map_proc g\<close>, which the data type brings, applies \<open>g\<close> to the answer.\<close>

lemma run_map_proc: "run (map_proc g p) s = (case run p s of (a, s') \<Rightarrow> (g a, s'))"
proof (induction p arbitrary: s)
  case (Step f)
  have "fst (f s) \<in> range (fst \<circ> f)" by auto
  then show ?case
    using Step [of "f s" "fst (f s)" "snd (f s)"] by (auto simp: fsts.simps split: prod.split)
qed simp

lemma guarantees_map_proc [simp]: "guarantees R (map_proc g p) \<longleftrightarrow> guarantees R p"
proof (induction p)
  case (Step f)
  then show ?case using Step [of "f s" "fst (f s)" for s] by (auto simp: fsts.simps)
qed simp

lemma contends_map_proc [simp]:
  "contends I spent wins (map_proc g p) \<longleftrightarrow> contends I spent (\<lambda>a. wins (g a)) p"
proof (induction p)
  case (Step f)
  then show ?case using Step [of "f s" "fst (f s)" for s] by (auto simp: fsts.simps)
qed simp

lemma within_map_proc [simp]: "within n (map_proc g p) \<longleftrightarrow> within n p"
proof (induction p arbitrary: n)
  case (Step f)
  then show ?case using Step [of "f s" "fst (f s)" for s] by (cases n) (auto simp: fsts.simps)
qed simp

subsection \<open>Proof outlines\<close>

text \<open>
  A process with an outline carries an assertion from step to step. The assertions are stable under
  the steps \<open>R\<close> of the others, so they hold whenever the process moves; when it is finished with the
  answer \<open>a\<close>, the state satisfies \<open>Q a\<close>.
\<close>

definition stable :: "('s \<Rightarrow> 's \<Rightarrow> bool) \<Rightarrow> ('s \<Rightarrow> bool) \<Rightarrow> bool" where
  "stable R P \<longleftrightarrow> (\<forall>s s'. P s \<longrightarrow> R s s' \<longrightarrow> P s')"

inductive outline ::
  "('s \<Rightarrow> 's \<Rightarrow> bool) \<Rightarrow> ('a \<Rightarrow> 's \<Rightarrow> bool) \<Rightarrow> ('s \<Rightarrow> bool) \<Rightarrow> ('s, 'a) proc \<Rightarrow> bool" for R Q where
  finished: "stable R P \<Longrightarrow> (\<And>s. P s \<Longrightarrow> Q a s) \<Longrightarrow> outline R Q P (Done a)"
| moves: "stable R P \<Longrightarrow> (\<And>s. P s \<Longrightarrow> \<exists>P'. P' (snd (f s)) \<and> outline R Q P' (fst (f s))) \<Longrightarrow>
    outline R Q P (Step f)"

inductive_cases outline_DoneE: "outline R Q P (Done a)"
inductive_cases outline_StepE: "outline R Q P (Step f)"

lemma outline_stable: "outline R Q P p \<Longrightarrow> stable R P"
  by (erule outline.cases) simp_all

lemma outline_query:
  assumes "stable R P" "\<And>s. P s \<Longrightarrow> \<exists>P'. P' s \<and> outline R Q P' (k (q s))"
  shows "outline R Q P (query q k)"
  unfolding query_def atomic_def by (rule outline.moves [OF assms(1)]) (simp add: assms(2))

lemma outline_effect:
  assumes "stable R P" "outline R Q P' p" "\<And>s. P s \<Longrightarrow> P' (g s)"
  shows "outline R Q P (effect g p)"
  unfolding effect_def atomic_def
  by (rule outline.moves [OF assms(1)]) (use assms(2,3) in auto)

text \<open>
  From a stable assertion that gives the claim for every answer a process can return there is an
  outline. \<open>pred_proc\<close>, which the data type brings, says that of all answers.
\<close>

lemma pred_proc_atomic:
  "(\<And>s b s'. f s = (b, s') \<Longrightarrow> pred_proc A (k b)) \<Longrightarrow> pred_proc A (atomic f k)"
  by (auto simp: atomic_def pred_prod_beta split: prod.split)

lemma pred_proc_query: "(\<And>b. pred_proc A (k b)) \<Longrightarrow> pred_proc A (query q k)"
  unfolding query_def by (rule pred_proc_atomic)

lemma pred_proc_effect: "pred_proc A p \<Longrightarrow> pred_proc A (effect g p)"
  unfolding effect_def by (rule pred_proc_atomic)

lemma pred_proc_all: "(\<And>a. A a) \<Longrightarrow> pred_proc A p"
proof (induction p)
  case (Step f)
  then show ?case using Step.IH [of "f s" "fst (f s)" for s] by (auto simp: pred_prod_beta fsts.simps)
qed simp

lemma outline_guaranteed:
  assumes "guarantees R p" "stable R P" "pred_proc (\<lambda>a. \<forall>s. P s \<longrightarrow> Q a s) p"
  shows "outline R Q P p"
  using assms(1,3)
proof (induction rule: guarantees.induct)
  case (finished a)
  then show ?case using assms(2) by (simp add: outline.finished)
next
  case (moves f)
  show ?case
  proof (rule outline.moves [OF assms(2)])
    fix s
    assume "P s"
    have "pred_proc (\<lambda>a. \<forall>s. P s \<longrightarrow> Q a s) (fst (f s))"
      using moves.prems by (simp add: pred_prod_beta)
    then have "outline R Q P (fst (f s))" using moves.IH [of s] by blast
    moreover have "P (snd (f s))" using moves.IH [of s] \<open>P s\<close> assms(2) unfolding stable_def by blast
    ultimately show "\<exists>P'. P' (snd (f s)) \<and> outline R Q P' (fst (f s))" by blast
  qed
qed

lemma outline_map_proc:
  "outline R (\<lambda>a. Q (g a)) P p \<Longrightarrow> outline R Q P (map_proc g p)"
proof (induction rule: outline.induct)
  case (moves P f)
  have "outline R Q P (Step (map_prod (map_proc g) id \<circ> f))"
    by (rule outline.moves [OF moves.hyps(1)]) (use moves.IH in fastforce)
  then show ?case by simp
qed (simp add: outline.finished)

lemma outline_weaken:
  "outline R Q P p \<Longrightarrow> (\<And>a s. Q a s \<Longrightarrow> Q' a s) \<Longrightarrow> outline R Q' P p"
proof (induction rule: outline.induct)
  case (moves P f)
  then show ?case by (intro outline.moves) blast+
qed (simp add: outline.finished)

lemma interleave_outline:
  assumes "\<forall>p \<in> set ps. guarantees R p" "reflp R" "outline R Q P (ps ! j)" "P s" "j < length ps"
    and "interleave is (ps, s) = (ps', s')" "ps' ! j = Done a"
  shows "Q a s'"
  using assms(1,3-7)
proof (induction "is" arbitrary: ps s P)
  case Nil
  then show ?case by (auto elim: outline_DoneE)
next
  case (Cons i "is")
  obtain qs t where a: "advance i (ps, s) = (qs, t)" by fastforce
  from guarantees_advance [OF Cons.prems(1) assms(2) a] have g: "R s t" "\<forall>p \<in> set qs. guarantees R p"
    by blast+
  have len: "j < length qs" using advance_length [OF a] Cons.prems(4) by simp
  have "interleave is (qs, t) = (ps', s')" using Cons.prems(5) a by simp
  note go = Cons.IH [OF g(2) _ _ len this Cons.prems(6)]
  show ?case
  proof (cases "i = j")
    case False
    with a have "qs ! j = ps ! j" by (cases rule: advance_cases) simp_all
    moreover have "P t" using outline_stable [OF Cons.prems(2)] Cons.prems(3) g(1)
      unfolding stable_def by blast
    ultimately show ?thesis using go Cons.prems(2) by metis
  next
    case True
    from a show ?thesis
    proof (cases rule: advance_cases)
      case idle
      with go [of P] Cons.prems(2,3) show ?thesis by simp
    next
      case (step f)
      with Cons.prems(2) True have "outline R Q P (Step f)" by simp
      then obtain P' where "P' (snd (f s))" "outline R Q P' (fst (f s))"
        using Cons.prems(3) by (auto elim: outline_StepE)
      with step True go show ?thesis by simp
    qed
  qed
qed

text \<open>What a schedule leaves of a process that has not moved yet.\<close>

lemma interleave_waiting:
  assumes "interleave is (ps, s) = (ps', s')" "j \<notin> set is"
  shows "ps' ! j = ps ! j"
  using assms
proof (induction "is" arbitrary: ps s)
  case (Cons i "is")
  obtain qs t where a: "advance i (ps, s) = (qs, t)" by fastforce
  then have "qs ! j = ps ! j" by (cases rule: advance_cases) (use Cons.prems(2) in simp_all)
  with Cons a show ?case by simp
qed simp

lemma interleave_guarantees_nth:
  assumes "guarantees R (ps ! j)" "reflp R" "j < length ps" "interleave is (ps, s) = (ps', s')"
  shows "guarantees R (ps' ! j)"
proof -
  have step: "j < length qs' \<and> guarantees R (qs' ! j)"
    if "j < length qs \<and> guarantees R (qs ! j)" "advance i (qs, u) = (qs', u')" for i qs qs' u u'
    using that(2)
  proof (cases rule: advance_cases)
    case (step f)
    with that(1) show ?thesis by (cases "i = j") auto
  qed (use that(1) in simp_all)
  have "j < length ps' \<and> guarantees R (ps' ! j)"
    by (rule interleave_invariant [where P = "\<lambda>qs _. j < length qs \<and> guarantees R (qs ! j)",
          OF step _ assms(4)]) (simp_all add: assms(1,3))
  then show ?thesis by simp
qed

lemma interleave_pool_guarantees:
  assumes "\<forall>p \<in> set ps. guarantees R p" "reflp R" "interleave is (ps, s) = (ps', s')"
  shows "\<forall>p \<in> set ps'. guarantees R p"
  by (rule interleave_invariant [where P = "\<lambda>ps s. \<forall>p \<in> set ps. guarantees R p", OF _ assms(1,3)])
    (use guarantees_advance [OF _ assms(2)] in blast)

subsection \<open>Processes that leave no trace\<close>

text \<open>A finished process may be left out of the schedule; so may one that another value stands for.\<close>

lemma interleave_without:
  assumes "ps ! j = Done a"
  shows "interleave is (ps, s) = interleave (filter (\<lambda>i. i \<noteq> j) is) (ps, s)"
  using assms
proof (induction "is" arbitrary: ps s)
  case (Cons i "is")
  obtain qs t where a: "advance i (ps, s) = (qs, t)" by fastforce
  from a have "qs ! j = Done a" "i = j \<Longrightarrow> qs = ps \<and> t = s"
    by (cases rule: advance_cases, use Cons.prems in \<open>auto simp: nth_list_update\<close>)+
  with Cons.IH [of qs t] a show ?case by auto
qed simp

lemma advance_update:
  assumes "i \<noteq> j"
  shows "advance i (ps[j := p], s) = (case advance i (ps, s) of (qs, t) \<Rightarrow> (qs[j := p], t))"
  using assms by (auto simp: advance_def list_update_swap split: proc.split prod.split)

lemma interleave_update:
  "j \<notin> set is \<Longrightarrow>
    interleave is (ps[j := p], s) = (case interleave is (ps, s) of (qs, t) \<Rightarrow> (qs[j := p], t))"
proof (induction "is" arbitrary: ps s)
  case (Cons i "is")
  obtain qs t where "advance i (ps, s) = (qs, t)" by fastforce
  with Cons show ?case by (simp add: advance_update)
qed simp

text \<open>
  A process whose first step leaves the state as it is and finishes: but for its answer, the pool runs
  as it does without the process.
\<close>

lemma interleave_invisible:
  assumes "interleave is1 (ps, s) = (ps1, s1)" "j \<notin> set is1" "j < length ps"
    and "ps ! j = Step f" "f s1 = (Done a, s1)"
  shows "interleave (is1 @ j # is2) (ps, s) =
    (case interleave (filter (\<lambda>i. i \<noteq> j) (is1 @ is2)) (ps, s) of (qs, t) \<Rightarrow> (qs[j := Done a], t))"
proof -
  let ?is2 = "filter (\<lambda>i. i \<noteq> j) is2"
  have len: "j < length ps1" using interleave_length [OF assms(1)] assms(3) by simp
  have "advance j (ps1, s1) = (ps1[j := Done a], s1)"
    using interleave_waiting [OF assms(1,2)] assms(4,5) len by (simp add: advance_def)
  then have "interleave (is1 @ j # is2) (ps, s) = interleave is2 (ps1[j := Done a], s1)"
    using assms(1) by (simp add: interleave_append)
  also have "\<dots> = interleave ?is2 (ps1[j := Done a], s1)"
    by (rule interleave_without) (simp add: len)
  also have "\<dots> = (case interleave ?is2 (ps1, s1) of (qs, t) \<Rightarrow> (qs[j := Done a], t))"
    by (rule interleave_update) simp
  also have "filter (\<lambda>i. i \<noteq> j) is1 = is1" using assms(2) by (auto simp: filter_id_conv)
  then have "interleave ?is2 (ps1, s1) = interleave (filter (\<lambda>i. i \<noteq> j) (is1 @ is2)) (ps, s)"
    using assms(1) by (simp add: interleave_append)
  finally show ?thesis .
qed

end
