(* ===== verification/Concurrency.thy ===== *)
theory Concurrency
  imports Procs System
begin

text \<open>
  The use cases of \<open>apps/authz/services/auth.py\<close> and \<open>apps/accounts/services/admin.py\<close> as
  processes: each \<open>await\<close> on the database or on Redis is an atomic step, and between two of them any
  other request may move. Alone, a process does what the use case of \<open>AuthService\<close> or
  \<open>AdminService\<close> does (lemma \<open>run_proc_of\<close>).

  The database is PostgreSQL at Django's default isolation level, READ COMMITTED. A transaction that
  locks the row it reads, or inserts under a unique index, takes effect at its commit. An
  \<open>UPDATE ... WHERE\<close> over many rows works on the rows that satisfied the condition when the statement
  began; it waits for the ones that other transactions have locked and checks the condition on them
  again, but it never sees a row that was inserted in the meantime. It therefore has two steps: the
  snapshot and the update (\<open>bulk_revoke\<close>).
\<close>

subsection \<open>Statements\<close>

definition bulk_revoke ::
  "(refresh_token_row \<Rightarrow> bool) \<Rightarrow> time \<Rightarrow> ('z world_scheme, 'a) proc \<Rightarrow> ('z world_scheme, 'a) proc" where
  "bulk_revoke p at k =
     query (\<lambda>w. map t_id (filter p (tokens w)))
       (\<lambda>ids. effect (\<lambda>w. revoke_tokens (\<lambda>t. t_id t \<in> set ids \<and> p t) at w) k)"

lemma run_bulk_revoke [simp]: "run (bulk_revoke p at k) w = run k (revoke_tokens p at w)"
proof -
  have "upd_where (\<lambda>t. t_id t \<in> set (map t_id (filter p rs)) \<and> p t) f rs = upd_where p f rs"
    for rs :: "refresh_token_row list" and f
    unfolding upd_where_def by (rule map_cong) auto
  then show ?thesis by (simp add: bulk_revoke_def revoke_tokens_def)
qed

text \<open>The two statements of an audit event: the actor's address, then the record.\<close>

definition audit_put ::
  "'e env_scheme \<Rightarrow> io \<Rightarrow> nat \<Rightarrow> audit_entry \<Rightarrow> 'z db_scheme \<Rightarrow> 'z db_scheme" where
  "audit_put env io k e s =
     snd (audit_acreate (ai_up (io_audit io k)) (env_inet_ok env) (ai_at (io_audit io k)) e s)"

definition audit_proc ::
  "'e env_scheme \<Rightarrow> io \<Rightarrow> nat \<Rightarrow> audit_event \<Rightarrow> ('z world_scheme, 'a) proc \<Rightarrow>
     ('z world_scheme, 'a) proc" where
  "audit_proc env io k ev p =
     query (with_actor_email (audit_get_user (ai_lookup (io_audit io k))) (ev_context ev))
       (\<lambda>context. effect (audit_put env io k (audit_entry_of ev context)) p)"

lemma run_audit_proc [simp]:
  "run (audit_proc env io k ev p) w = run p (audit_record env io k ev w)"
  by (simp add: audit_proc_def audit_put_def audit_record_def record_event_def
      split: prod.split sum.split)

text \<open>
  \<open>arotate\<close>: the presented row stays locked to the end of the transaction, and the step is taken when
  the lock has been got; the wait for it (\<open>select_for_update\<close>) is no step. The revocation of a
  replayed token's family is a statement over many rows; the family of a token from the wrong
  device has no live token but the locked one.
\<close>

definition rotate_proc ::
  "bool \<Rightarrow> (string \<Rightarrow> bool) \<Rightarrow> rotation_request \<Rightarrow>
     (exn + rotation_result \<Rightarrow> ('z world_scheme, 'a) proc) \<Rightarrow> ('z world_scheme, 'a) proc" where
  "rotate_proc bind_device inet_ok rq k =
     Step (\<lambda>w. case token_by_hash (rq_token_hash rq) w of
        Some t \<Rightarrow>
          if t_revoked_at t \<noteq> None
          then (bulk_revoke (\<lambda>u. t_family_id u = t_family_id t \<and> active u) (rq_rotated_at rq)
                  (k (Inr \<lparr>outcome = Reused, result_token = Some (refresh_token_dto_of t),
                     previous_issued_ip = None\<rparr>)), w)
          else (case arotate bind_device inet_ok rq w of (r, w') \<Rightarrow> (k r, w'))
      | None \<Rightarrow> (case arotate bind_device inet_ok rq w of (r, w') \<Rightarrow> (k r, w')))"

lemma run_rotate_proc [simp]:
  "run (rotate_proc bind inet_ok rq k) w =
     (case arotate bind inet_ok rq w of (r, w') \<Rightarrow> run (k r) w')"
  by (auto simp: rotate_proc_def arotate_reused arevoke_family_def split: option.split prod.split)

subsection \<open>Authentication\<close>

definition read_grants ::
  "int \<Rightarrow> (string set \<Rightarrow> string set \<Rightarrow> ('z world_scheme, 'a) proc) \<Rightarrow> ('z world_scheme, 'a) proc" where
  "read_grants uid k = query (aget_user_role_names uid)
     (\<lambda>names. query (aget_user_permission_codes uid) (\<lambda>codes. k names codes))"

definition sign_access ::
  "'e env_scheme \<Rightarrow> io \<Rightarrow> int \<Rightarrow> string set \<Rightarrow> string set \<Rightarrow> exn + string" where
  "sign_access env io uid names codes = encode_access_token (env_jwt_encode env) (cfg_jwt_secret env)
     (cfg_access_lifetime env) (io_issued io) (io_jti io) (SubjInt uid) names codes None None None"

definition register_proc ::
  "'e env_scheme \<Rightarrow> io \<Rightarrow> string \<Rightarrow> string \<Rightarrow> audit_context \<Rightarrow> bool \<Rightarrow>
     (exn + user_dto \<Rightarrow> ('z world_scheme, 'a) proc) \<Rightarrow> ('z world_scheme, 'a) proc" where
  "register_proc env io email password context record_registration k =
     query (aget_role_by_name (cfg_default_user_role env)) (\<lambda>role. case role of
        None \<Rightarrow> k (Inl (RuntimeError ''The configured default user role does not exist''))
      | Some default_role \<Rightarrow>
          atomic (acreate_user_with_role (env_normalize env) (io_now io) email
              (hash_password (env_make_password env) (io_salt io) password) (rd_id default_role))
            (\<lambda>r. case r of
               Inl e \<Rightarrow> k (Inl (if e = IntegrityError then raise_domain EmailAlreadyExists else e))
             | Inr u \<Rightarrow>
                 if record_registration
                 then audit_proc env io 0 (event REGISTER (context_for_user context u) True None) (k (Inr u))
                 else k (Inr u)))"

definition issue_proc ::
  "'e env_scheme \<Rightarrow> io \<Rightarrow> int \<Rightarrow> string \<Rightarrow> int option \<Rightarrow> audit_context \<Rightarrow>
     (exn + token_pair \<Rightarrow> ('z world_scheme, 'a) proc) \<Rightarrow> ('z world_scheme, 'a) proc" where
  "issue_proc env io uid family_id parent_id context k =
     read_grants uid (\<lambda>names codes.
       case add_timedelta (io_now io) (cfg_refresh_lifetime env) of
         Inl e \<Rightarrow> k (Inl e)
       | Inr expires \<Rightarrow>
           atomic (token_acreate (env_inet_ok env) uid (hash_refresh_token (env_sha env) (io_refresh io))
               family_id parent_id expires (device_hash (env_sha env) (ctx_user_agent context))
               (ctx_ip context))
             (\<lambda>r. case r of
                Inl e \<Rightarrow> k (Inl e)
              | Inr _ \<Rightarrow>
                  (case sign_access env io uid names codes of
                     Inl e \<Rightarrow> k (Inl e)
                   | Inr access \<Rightarrow>
                       k (Inr \<lparr>access_token = access, refresh_token = io_refresh io\<rparr>))))"

definition login_proc ::
  "'e env_scheme \<Rightarrow> io \<Rightarrow> string \<Rightarrow> string \<Rightarrow> audit_context \<Rightarrow>
     ('z world_scheme, exn + token_pair) proc" where
  "login_proc env io email password context =
     query (aget_credentials (env_normalize env) email) (\<lambda>credentials.
       let is_valid = fst (verify_password (env_check_password env) (dummy_hash env) password
             (map_option cd_password_hash credentials));
           failed = audit_proc env io 0
             (event LOGIN_FAILURE context False (Some [(''email'', PStr email)]))
             (Done (Inl (raise_domain InvalidCredentials)))
       in case credentials of
            None \<Rightarrow> failed
          | Some c \<Rightarrow>
              if \<not> cd_is_active c \<or> \<not> is_valid then failed
              else issue_proc env io (cd_id c) (io_family io) None context (\<lambda>r. case r of
                 Inl e \<Rightarrow> Done (Inl e)
               | Inr pair \<Rightarrow> audit_proc env io 0 (event LOGIN_SUCCESS
                    (context\<lparr>ctx_actor_id := Some (cd_id c), ctx_actor_email := Some (cd_email c)\<rparr>)
                    True None) (Done (Inr pair))))"

definition close_session_proc ::
  "'e env_scheme \<Rightarrow> io \<Rightarrow> audit_action \<Rightarrow> audit_context \<Rightarrow> refresh_token_dto option \<Rightarrow>
     ('z world_scheme, 'a) proc \<Rightarrow> ('z world_scheme, 'a) proc" where
  "close_session_proc env io action context token k =
     (case token of
        None \<Rightarrow> k
      | Some t \<Rightarrow>
          effect (revoke_user (io_redis io) (rt_user_id t) (io_now io) (access_token_ttl_seconds env)
              (io_redis_at io))
            (audit_proc env io 0 (event action (actor (rt_user_id t) context) False
               (Some [(''family_id'', PStr (rt_family_id t))])) k))"

definition rotated_proc ::
  "'e env_scheme \<Rightarrow> io \<Rightarrow> audit_context \<Rightarrow> rotation_result \<Rightarrow>
     ('z world_scheme, exn + token_pair) proc" where
  "rotated_proc env io context rotation =
     (case outcome rotation of
        BindingMismatch \<Rightarrow> close_session_proc env io TOKEN_BINDING_MISMATCH context
          (result_token rotation) (Done (Inl (raise_domain RefreshTokenBindingMismatch)))
      | Reused \<Rightarrow> close_session_proc env io TOKEN_REUSE_DETECTED context
          (result_token rotation) (Done (Inl (raise_domain TokenReused)))
      | Missing \<Rightarrow> Done (Inl (raise_domain InvalidToken))
      | Expired \<Rightarrow> Done (Inl (raise_domain InvalidToken))
      | Rotated \<Rightarrow>
          (case result_token rotation of
             None \<Rightarrow> Done (Inl (RuntimeError ''A successful refresh rotation must produce a token''))
           | Some t \<Rightarrow>
               (let rest = read_grants (rt_user_id t) (\<lambda>names codes.
                      case sign_access env io (rt_user_id t) names codes of
                        Inl e \<Rightarrow> Done (Inl e)
                      | Inr access \<Rightarrow> audit_proc env io 1 (event TOKEN_REFRESHED
                          (actor (rt_user_id t) context) True
                          (Some [(''family_id'', PStr (rt_family_id t))]))
                          (Done (Inr \<lparr>access_token = access, refresh_token = io_refresh io\<rparr>)))
                in if cfg_refresh_bind_ip env \<and> previous_issued_ip rotation \<noteq> None \<and>
                      previous_issued_ip rotation \<noteq> ctx_ip context
                   then audit_proc env io 0 (event TOKEN_IP_CHANGED
                     (actor (rt_user_id t) context) True
                     (Some [(''previous_ip'', py_str (mask_ip (previous_issued_ip rotation))),
                            (''presented_ip'', py_str (mask_ip (ctx_ip context)))])) rest
                   else rest)))"

definition refresh_proc ::
  "'e env_scheme \<Rightarrow> io \<Rightarrow> string \<Rightarrow> audit_context \<Rightarrow> ('z world_scheme, exn + token_pair) proc" where
  "refresh_proc env io raw_refresh_token context =
     (case add_timedelta (io_now io) (cfg_refresh_lifetime env) of
        Inl e \<Rightarrow> Done (Inl e)
      | Inr _ \<Rightarrow>
          rotate_proc (cfg_refresh_bind_device env) (env_inet_ok env)
            (rotation_for env io raw_refresh_token context) (\<lambda>r. case r of
               Inl e \<Rightarrow> Done (Inl e)
             | Inr rotation \<Rightarrow> rotated_proc env io context rotation))"

definition logout_proc ::
  "'e env_scheme \<Rightarrow> io \<Rightarrow> string \<Rightarrow> audit_context \<Rightarrow> string option \<Rightarrow> int option \<Rightarrow>
     ('z world_scheme, 'a) proc \<Rightarrow> ('z world_scheme, 'a) proc" where
  "logout_proc env io raw_refresh_token context jti ttl k =
     (let rest = query (aget_by_hash (hash_refresh_token (env_sha env) raw_refresh_token))
        (\<lambda>token. case token of
           None \<Rightarrow> k
         | Some t \<Rightarrow>
             effect (arevoke (rt_id t) (io_now io))
               (audit_proc env io 0 (event LOGOUT (actor (rt_user_id t) context) True
                  (Some [(''family_id'', PStr (rt_family_id t))])) k))
      in case (jti, ttl) of
           (Some j, Some n) \<Rightarrow> effect (block_token (io_redis io) j n (io_redis_at io)) rest
         | _ \<Rightarrow> rest)"

definition logout_all_proc ::
  "'e env_scheme \<Rightarrow> io \<Rightarrow> int \<Rightarrow> audit_context \<Rightarrow> ('z world_scheme, 'a) proc \<Rightarrow>
     ('z world_scheme, 'a) proc" where
  "logout_all_proc env io uid context k =
     effect (revoke_user (io_redis io) uid (io_now io) (access_token_ttl_seconds env) (io_redis_at io))
       (bulk_revoke (\<lambda>t. t_user_id t = uid \<and> active t) (io_now io)
         (audit_proc env io 0 (event LOGOUT (actor uid context) True
            (Some [(''scope'', PStr ''all'')])) k))"

subsection \<open>Administration\<close>

text \<open>\<open>UserRepository.aupdate\<close>: the statement, then the row is read again.\<close>

definition aupdate_proc ::
  "(string \<Rightarrow> string) \<Rightarrow> int \<Rightarrow> user_fields \<Rightarrow> (exn + user_dto option \<Rightarrow> ('z world_scheme, 'a) proc) \<Rightarrow>
     ('z world_scheme, 'a) proc" where
  "aupdate_proc dj uid flds k =
     (let f = normalize_fields dj flds
      in if f = no_fields then k (Inr None)
         else atomic (update_users (\<lambda>u. u_id u = uid) (set_fields f)) (\<lambda>r. case r of
           Inl e \<Rightarrow> k (Inl e)
         | Inr n \<Rightarrow> if n = 0 then k (Inr None) else query (aget_by_id uid) (\<lambda>u. k (Inr u))))"

lemma run_aupdate_proc [simp]:
  "run (aupdate_proc dj uid flds k) w = (case user_aupdate dj uid flds w of (r, w') \<Rightarrow> run (k r) w')"
  by (simp add: aupdate_proc_def user_aupdate_def Let_def split: prod.split sum.split)

definition update_user_proc ::
  "'e env_scheme \<Rightarrow> io \<Rightarrow> int \<Rightarrow> string option \<Rightarrow> string option \<Rightarrow> bool option \<Rightarrow> audit_context \<Rightarrow>
     ('z world_scheme, exn + user_dto) proc" where
  "update_user_proc env io uid email password is_active context =
     (let flds = update_fields env io email password is_active
      in if flds = no_fields then query (get_user uid) Done
         else aupdate_proc (env_normalize env) uid flds (\<lambda>r. case r of
           Inl e \<Rightarrow> Done (Inl (if e = IntegrityError then raise_domain EmailAlreadyExists else e))
         | Inr None \<Rightarrow> Done (Inl user_not_found)
         | Inr (Some u) \<Rightarrow>
             effect_if (is_active = Some False)
               (revoke_user (io_redis io) (ud_id u) (io_now io) (access_token_ttl_seconds env)
                 (io_redis_at io))
               (audit_proc env io 0 (target_event A_USER_UPDATE context (ud_id u)
                  (Some [(''changed_fields'', PList (map PStr (changed_fields flds)))]))
                 (Done (Inr u)))))"

definition delete_user_proc ::
  "'e env_scheme \<Rightarrow> io \<Rightarrow> int \<Rightarrow> audit_context \<Rightarrow> ('z world_scheme, exn + unit) proc" where
  "delete_user_proc env io uid context =
     atomic (user_adelete uid) (\<lambda>found.
       if \<not> found then Done (Inl user_not_found)
       else audit_proc env io 0 (target_event A_USER_DELETE context uid None) (Done (Inr ())))"

definition assign_role_proc ::
  "'e env_scheme \<Rightarrow> io \<Rightarrow> int \<Rightarrow> int \<Rightarrow> audit_context \<Rightarrow> ('z world_scheme, exn + unit) proc" where
  "assign_role_proc env io uid rid context =
     query (get_user uid) (\<lambda>u. case u of
        Inl e \<Rightarrow> Done (Inl e)
      | Inr _ \<Rightarrow>
          query (aget_role_by_id rid) (\<lambda>role. case role of
             None \<Rightarrow> Done (Inl role_not_found)
           | Some d \<Rightarrow>
               atomic (aassign_role uid (rd_id d)) (\<lambda>r. case r of
                 Inl e \<Rightarrow> Done (Inl e)
               | Inr _ \<Rightarrow> audit_proc env io 0 (target_event A_ROLE_ASSIGN context uid
                   (Some [(''role_id'', PInt (rd_id d)), (''role_name'', PStr (rd_name d))]))
                   (Done (Inr ())))))"

subsection \<open>Alone, a process is its use case\<close>

lemma run_register_proc:
  "run (register_proc env io e p c b k) w = (case register env io e p c b w of (r, w') \<Rightarrow> run (k r) w')"
  by (auto simp: register_proc_def register_def split: option.split prod.split sum.split exn.split)

lemma token_acreate_grants:
  assumes "token_acreate inet uid h fam par ex dev ip w = (r, w')"
  shows "aget_user_role_names i w' = aget_user_role_names i w"
    "aget_user_permission_codes i w' = aget_user_permission_codes i w"
proof -
  obtain t where t: "w' = w\<lparr>refresh_tokens := t\<rparr>"
    using assms by (auto simp: token_acreate_def split: prod.splits sum.splits dest: create_refresh_token_frame)
  show "aget_user_role_names i w' = aget_user_role_names i w"
    by (rule codes_cong(2)) (simp_all add: t)
  show "aget_user_permission_codes i w' = aget_user_permission_codes i w"
    by (rule codes_cong(1)) (simp_all add: t)
qed

lemma grants_audit [simp]:
  "aget_user_role_names i (audit_record env io k ev w) = aget_user_role_names i w"
  "aget_user_permission_codes i (audit_record env io k ev w) = aget_user_permission_codes i w"
  by (rule codes_cong; simp)+

lemma encode_for_sign:
  "encode_for env io uid s =
     sign_access env io uid (aget_user_role_names uid s) (aget_user_permission_codes uid s)"
  by (simp add: encode_for_def sign_access_def)

lemma run_issue_proc:
  "run (issue_proc env io uid fam par c k) w =
     (case issue_token_pair env io uid fam par c w of (r, w') \<Rightarrow> run (k r) w')"
  by (auto simp: issue_proc_def read_grants_def issue_token_pair_def encode_for_sign token_acreate_grants
      split: sum.split prod.split)

lemma run_login_proc: "run (login_proc env io e p c) w = login env io e p c w"
  by (simp add: login_proc_def login_def Let_def run_issue_proc split: option.split prod.split sum.split)

lemma run_close_session_proc:
  "run (close_session_proc env io a c t k) w = run k (close_session_of env io a c t w)"
  by (simp add: close_session_proc_def close_session_of_def split: option.split)

lemma run_rotated_proc: "run (rotated_proc env io c rot) w = after_rotation env io c rot w"
proof (cases "outcome rot = Rotated \<and> result_token rot \<noteq> None")
  case True
  then show ?thesis
    by (auto simp: rotated_proc_def after_rotation_def read_grants_def Let_def encode_for_sign
        split: sum.split)
next
  case False
  then show ?thesis
    by (cases "outcome rot")
      (auto simp: rotated_proc_def after_rotation_def run_close_session_proc split: option.split)
qed

lemma run_refresh_proc: "run (refresh_proc env io raw c) w = refresh env io raw c w"
  by (simp add: refresh_proc_def refresh_def run_rotated_proc split: sum.split prod.split)

lemma run_logout_proc: "run (logout_proc env io raw c j n k) w = run k (logout env io raw c j n w)"
  by (simp add: logout_proc_def logout_def Let_def split: option.split)

lemma run_logout_all_proc: "run (logout_all_proc env io uid c k) w = run k (logout_all env io uid c w)"
  by (simp add: logout_all_proc_def logout_all_def arevoke_user_def)

lemma run_update_user_proc: "run (update_user_proc env io uid e p a c) w = update_user env io uid e p a c w"
  by (auto simp: update_user_proc_def update_user_def Let_def
      split: option.split prod.split sum.split exn.split)

lemma run_delete_user_proc: "run (delete_user_proc env io uid c) w = delete_user env io uid c w"
  by (simp add: delete_user_proc_def delete_user_def split: prod.split bool.split)

lemma run_assign_role_proc: "run (assign_role_proc env io uid rid c) w = assign_role env io uid rid c w"
  by (simp add: assign_role_proc_def assign_role_def split: option.split prod.split sum.split)

subsection \<open>All use cases\<close>

datatype use_case =
    DoRegister io string string audit_context bool
  | DoLogin io string string audit_context
  | DoRefresh io string audit_context
  | DoLogout io string audit_context "string option" "int option"
  | DoLogoutAll io int audit_context
  | DoCreateUser io string string audit_context
  | DoUpdateUser io int "string option" "string option" "bool option" audit_context
  | DoDeleteUser io int audit_context
  | DoAssignRole io int int audit_context

datatype returned = Pair_returned token_pair | User_returned user_dto | Nothing_returned

definition admin_create_proc ::
  "'e env_scheme \<Rightarrow> io \<Rightarrow> string \<Rightarrow> string \<Rightarrow> audit_context \<Rightarrow>
     ('z world_scheme, exn + user_dto) proc" where
  "admin_create_proc env io email password context =
     register_proc env io email password context False (\<lambda>r. case r of
       Inl e \<Rightarrow> Done (Inl e)
     | Inr u \<Rightarrow> audit_proc env io 0 (target_event A_USER_CREATE context (ud_id u) None) (Done (Inr u)))"

fun proc_of :: "'e env_scheme \<Rightarrow> use_case \<Rightarrow> ('z world_scheme, exn + returned) proc" where
  "proc_of env (DoRegister io e p c b) =
     map_proc (map_sum id User_returned) (register_proc env io e p c b Done)"
| "proc_of env (DoLogin io e p c) = map_proc (map_sum id Pair_returned) (login_proc env io e p c)"
| "proc_of env (DoRefresh io raw c) = map_proc (map_sum id Pair_returned) (refresh_proc env io raw c)"
| "proc_of env (DoLogout io raw c j n) = logout_proc env io raw c j n (Done (Inr Nothing_returned))"
| "proc_of env (DoLogoutAll io uid c) = logout_all_proc env io uid c (Done (Inr Nothing_returned))"
| "proc_of env (DoCreateUser io e p c) =
     map_proc (map_sum id User_returned) (admin_create_proc env io e p c)"
| "proc_of env (DoUpdateUser io uid e p a c) =
     map_proc (map_sum id User_returned) (update_user_proc env io uid e p a c)"
| "proc_of env (DoDeleteUser io uid c) =
     map_proc (map_sum id (\<lambda>_. Nothing_returned)) (delete_user_proc env io uid c)"
| "proc_of env (DoAssignRole io uid rid c) =
     map_proc (map_sum id (\<lambda>_. Nothing_returned)) (assign_role_proc env io uid rid c)"

text \<open>The use cases as the services define them, with one type of answer.\<close>

definition returning :: "('a \<Rightarrow> 'b) \<Rightarrow> (exn + 'a) \<times> 's \<Rightarrow> (exn + 'b) \<times> 's" where
  "returning g = map_prod (map_sum id g) id"

fun perform :: "'e env_scheme \<Rightarrow> use_case \<Rightarrow> 'z world_scheme \<Rightarrow> (exn + returned) \<times> 'z world_scheme" where
  "perform env (DoRegister io e p c b) w = returning User_returned (register env io e p c b w)"
| "perform env (DoLogin io e p c) w = returning Pair_returned (login env io e p c w)"
| "perform env (DoRefresh io raw c) w = returning Pair_returned (refresh env io raw c w)"
| "perform env (DoLogout io raw c j n) w = (Inr Nothing_returned, logout env io raw c j n w)"
| "perform env (DoLogoutAll io uid c) w = (Inr Nothing_returned, logout_all env io uid c w)"
| "perform env (DoCreateUser io e p c) w = returning User_returned (admin_create_user env io e p c w)"
| "perform env (DoUpdateUser io uid e p a c) w =
     returning User_returned (update_user env io uid e p a c w)"
| "perform env (DoDeleteUser io uid c) w =
     returning (\<lambda>_. Nothing_returned) (delete_user env io uid c w)"
| "perform env (DoAssignRole io uid rid c) w =
     returning (\<lambda>_. Nothing_returned) (assign_role env io uid rid c w)"

lemma run_returning: "run (map_proc (map_sum id g) p) w = returning g (run p w)"
  by (simp add: run_map_proc returning_def split: prod.split)

lemma run_admin_create_proc: "run (admin_create_proc env io e p c) w = admin_create_user env io e p c w"
  by (simp add: admin_create_proc_def admin_create_user_def run_register_proc split: prod.split sum.split)

lemma run_proc_of: "run (proc_of env rq) w = perform env rq w"
  by (cases rq)
    (simp_all add: run_returning run_register_proc run_login_proc run_refresh_proc run_logout_proc
      run_logout_all_proc run_admin_create_proc run_update_user_proc run_delete_user_proc
      run_assign_role_proc)

subsection \<open>Every use case takes at most seven steps\<close>

text \<open>Bounds by rules whose numbers may leave room.\<close>

lemma within_slack:
  "(\<And>s b s'. f s = (b, s') \<Longrightarrow> within (n - 1) (k b)) \<Longrightarrow> 0 < n \<Longrightarrow> within n (atomic f k)"
  "(\<And>b. within (n - 1) (k' b)) \<Longrightarrow> 0 < n \<Longrightarrow> within n (query q k')"
  "within (n - 1) p \<Longrightarrow> 0 < n \<Longrightarrow> within n (effect g p)"
  "within (n - 1) p \<Longrightarrow> 0 < n \<Longrightarrow> within n (effect_if c g p)"
  by (cases n; simp add: within_atomic within_query within_effect within_effect_if)+

lemma within_statements:
  "within (n - 2) p \<Longrightarrow> 1 < n \<Longrightarrow> within n (audit_proc env io k ev p)"
  "within (n - 2) p \<Longrightarrow> 1 < n \<Longrightarrow> within n (bulk_revoke q at p)"
  by (auto simp: audit_proc_def bulk_revoke_def numeral_2_eq_2 intro!: within_slack)

lemma within_rotate_proc:
  assumes "\<And>r. within (n - 1) (k r)" "\<And>res. outcome res = Reused \<Longrightarrow> within (n - 3) (k (Inr res))"
    and "2 < n"
  shows "within n (rotate_proc bind inet_ok rq k)"
proof -
  obtain m where m: "n = Suc m" using assms(3) by (cases n) auto
  have "within m (bulk_revoke q at (k (Inr res)))" if "outcome res = Reused" for q at res
    using assms(2) [OF that] assms(3) m by (intro within_statements) simp_all
  then show ?thesis
    using assms(1) m by (auto simp: rotate_proc_def split: option.split prod.split)
qed

lemmas within_intros = within_slack within_statements within_rotate_proc

lemma within_register:
  assumes "\<And>r. within n (k r)"
  shows "within (n + 4) (register_proc env io e p c b k)"
proof -
  have "within (n + 3) (k r)" "within (Suc (Suc n)) (k r)" for r
    by (rule within_mono [OF assms], simp)+
  then show ?thesis
    using assms unfolding register_proc_def
    by (intro within_slack) (auto simp: numeral_3_eq_3 split: option.split sum.split
        intro!: within_slack within_statements)
qed

lemma within_proc_of: "within 7 (proc_of env rq)"
proof (cases rq)
  case (DoRegister io e p c b)
  have "within (3 + 4) (register_proc env io e p c b Done)" by (rule within_register) simp
  with DoRegister show ?thesis by simp
next
  case (DoCreateUser io e p c)
  have "within (3 + 4) (admin_create_proc env io e p c)"
    unfolding admin_create_proc_def
    by (rule within_register) (auto split: sum.split intro!: within_statements)
  with DoCreateUser show ?thesis by simp
next
  case (DoLogin io e p c)
  have "within 6 (login_proc env io e p c)"
    unfolding login_proc_def issue_proc_def read_grants_def Let_def
    by (intro within_slack) (auto split: option.split sum.split intro!: within_slack within_statements)
  with DoLogin show ?thesis by (auto elim: within_mono)
qed (auto simp: refresh_proc_def rotated_proc_def close_session_proc_def logout_proc_def
    logout_all_proc_def update_user_proc_def aupdate_proc_def delete_user_proc_def
    assign_role_proc_def read_grants_def Let_def
    split: option.split sum.split rotation_outcome.split intro!: within_intros)

subsection \<open>What every step of every use case guarantees\<close>

text \<open>
  The contract of the atomic steps: a relation between the worlds before and after each of them.
  The parameters say which token digests the requests may store, which columns they may write, whether
  they may delete an account, and at which clock readings they may set a revocation epoch.
\<close>

locale step_contract =
  fixes env :: "'e env_scheme" and drawn :: "string \<Rightarrow> bool" and writes :: "user_fields \<Rightarrow> bool"
    and deletes :: bool and timely :: "io \<Rightarrow> bool"
    and R :: "'z world_scheme \<Rightarrow> 'z world_scheme \<Rightarrow> bool"
  assumes unchanged: "R w w"
    and composed: "R u v \<Longrightarrow> R v w \<Longrightarrow> R u w"
    and auditing: "R w (audit_put env io k entry w)"
    and blocking: "R w (block_token up j ttl at w)"
    and epochs: "timely io \<Longrightarrow> R w (revoke_user (io_redis io) uid (io_now io)
      (access_token_ttl_seconds env) (io_redis_at io) w)"
    and revoking: "(\<And>t. p t \<Longrightarrow> active t) \<Longrightarrow> R w (revoke_tokens p at w)"
    and rotating: "drawn (rq_replacement_hash rq) \<Longrightarrow> arotate bind inet_ok rq w = (r1, w') \<Longrightarrow> R w w'"
    and issuing: "drawn h \<Longrightarrow> token_acreate inet_ok uid h fam None ex dev ip w = (r2, w') \<Longrightarrow> R w w'"
    and updating: "writes f \<Longrightarrow> update_users (\<lambda>u. u_id u = uid)
      (set_fields (normalize_fields (env_normalize env) f)) w = (r3, w') \<Longrightarrow> R w w'"
    and deleting: "deletes \<Longrightarrow> user_adelete uid w = (b, w') \<Longrightarrow> R w w'"
    and creating: "acreate_user_with_role (env_normalize env) now e pw rid w = (r4, w') \<Longrightarrow> R w w'"
    and assigning: "aassign_role uid rid w = (r5, w') \<Longrightarrow> R w w'"

text \<open>The requests that stay within the parameters.\<close>

fun admitted ::
  "'e env_scheme \<Rightarrow> (string \<Rightarrow> bool) \<Rightarrow> (user_fields \<Rightarrow> bool) \<Rightarrow> bool \<Rightarrow> (io \<Rightarrow> bool) \<Rightarrow> use_case \<Rightarrow>
     bool" where
  "admitted env drawn writes deletes timely (DoLogin io e p c) \<longleftrightarrow>
     drawn (hash_refresh_token (env_sha env) (io_refresh io))"
| "admitted env drawn writes deletes timely (DoRefresh io raw c) \<longleftrightarrow>
     drawn (hash_refresh_token (env_sha env) (io_refresh io)) \<and> timely io"
| "admitted env drawn writes deletes timely (DoLogoutAll io uid c) \<longleftrightarrow> timely io"
| "admitted env drawn writes deletes timely (DoUpdateUser io uid e p a c) \<longleftrightarrow>
     writes (update_fields env io e p a) \<and> timely io"
| "admitted env drawn writes deletes timely (DoDeleteUser io uid c) \<longleftrightarrow> deletes"
| "admitted env drawn writes deletes timely _ \<longleftrightarrow> True"

lemma admitted_all [simp]: "admitted env (\<lambda>_. True) (\<lambda>_. True) True (\<lambda>_. True) rq"
  by (cases rq) simp_all

context step_contract
begin

lemma reflexive: "reflp R"
  by (simp add: reflp_def unchanged)

lemma transitive: "transp R"
  by (rule transpI) (rule composed)

lemmas guarantee_intros = guarantees_query [where R = R, OF unchanged] guarantees_effect guarantees_effect_if

lemma audit_guarantees: "guarantees R p \<Longrightarrow> guarantees R (audit_proc env io k ev p)"
  unfolding audit_proc_def by (intro guarantee_intros auditing)

lemma bulk_guarantees:
  "(\<And>t. p t \<Longrightarrow> active t) \<Longrightarrow> guarantees R k \<Longrightarrow> guarantees R (bulk_revoke p at k)"
  unfolding bulk_revoke_def by (intro guarantee_intros revoking) blast+

lemma rotate_guarantees:
  assumes "drawn (rq_replacement_hash rq)" "\<And>r. guarantees R (k r)"
  shows "guarantees R (rotate_proc bind inet_ok rq k)"
  using rotating [OF assms(1)] unchanged
  by (auto simp: rotate_proc_def split: option.split prod.split intro!: bulk_guarantees assms(2))

lemma register_guarantees:
  assumes "\<And>r. guarantees R (k r)"
  shows "guarantees R (register_proc env io e p c b k)"
  unfolding register_proc_def
  by (intro guarantee_intros)
    (auto split: option.split sum.split intro!: guarantees_atomic audit_guarantees assms creating)

lemma issue_guarantees:
  assumes "drawn (hash_refresh_token (env_sha env) (io_refresh io))" "\<And>r. guarantees R (k r)"
  shows "guarantees R (issue_proc env io uid fam None c k)"
  unfolding issue_proc_def read_grants_def
  by (intro guarantee_intros)
    (auto split: sum.split intro!: guarantees_atomic assms issuing [OF assms(1)])

lemma login_guarantees:
  assumes "drawn (hash_refresh_token (env_sha env) (io_refresh io))"
  shows "guarantees R (login_proc env io e p c)"
  unfolding login_proc_def Let_def
  by (intro guarantee_intros)
    (auto split: option.split sum.split intro!: issue_guarantees [OF assms] audit_guarantees)

lemma close_session_guarantees:
  "timely io \<Longrightarrow> guarantees R k \<Longrightarrow> guarantees R (close_session_proc env io a c t k)"
  by (auto simp: close_session_proc_def split: option.split
      intro!: guarantee_intros audit_guarantees epochs)

lemma rotated_guarantees:
  assumes "timely io"
  shows "guarantees R (rotated_proc env io c rot)"
proof (cases "outcome rot")
  case Rotated
  then show ?thesis
    by (auto simp: rotated_proc_def read_grants_def Let_def split: option.split sum.split
        intro!: guarantee_intros audit_guarantees)
qed (auto simp: rotated_proc_def intro!: close_session_guarantees assms)

lemma refresh_guarantees:
  assumes "drawn (hash_refresh_token (env_sha env) (io_refresh io))" "timely io"
  shows "guarantees R (refresh_proc env io raw c)"
  using assms
  by (auto simp: refresh_proc_def split: sum.split intro!: rotate_guarantees rotated_guarantees)

lemma logout_guarantees: "guarantees R k \<Longrightarrow> guarantees R (logout_proc env io raw c j n k)"
  by (auto simp: logout_proc_def Let_def arevoke_def split: option.split
      intro!: guarantee_intros audit_guarantees blocking revoking)

lemma logout_all_guarantees:
  "timely io \<Longrightarrow> guarantees R k \<Longrightarrow> guarantees R (logout_all_proc env io uid c k)"
  by (auto simp: logout_all_proc_def intro!: guarantee_intros bulk_guarantees audit_guarantees epochs)

lemma update_user_guarantees:
  assumes "writes (update_fields env io e p a)" "timely io"
  shows "guarantees R (update_user_proc env io uid e p a c)"
  using updating [OF assms(1)] assms(2)
  by (auto simp: update_user_proc_def aupdate_proc_def Let_def split: sum.split option.split
      intro!: guarantees_atomic guarantee_intros audit_guarantees epochs)

lemma delete_user_guarantees: "deletes \<Longrightarrow> guarantees R (delete_user_proc env io uid c)"
  using deleting by (auto simp: delete_user_proc_def intro!: guarantees_atomic audit_guarantees)

lemma assign_role_guarantees: "guarantees R (assign_role_proc env io uid rid c)"
  using assigning
  by (auto simp: assign_role_proc_def split: sum.split option.split
      intro!: guarantees_atomic guarantee_intros audit_guarantees)

lemma use_case_guarantees: "admitted env drawn writes deletes timely rq \<Longrightarrow> guarantees R (proc_of env rq)"
  by (cases rq)
    (auto simp: admin_create_proc_def split: sum.split intro!: register_guarantees login_guarantees
      refresh_guarantees logout_guarantees logout_all_guarantees update_user_guarantees
      delete_user_guarantees assign_role_guarantees audit_guarantees)

lemma pool_guarantees:
  "\<forall>rq \<in> set rqs. admitted env drawn writes deletes timely rq \<Longrightarrow>
    \<forall>p \<in> set (map (proc_of env) rqs). guarantees R p"
  by (auto intro: use_case_guarantees)

lemma schedule_keeps:
  assumes "\<forall>rq \<in> set rqs. admitted env drawn writes deletes timely rq"
    and "interleave is (map (proc_of env) rqs, w) = (ps, w')"
  shows "R w w'"
  by (rule interleave_guarantees [OF pool_guarantees [OF assms(1)] reflexive transitive assms(2)])

end

end
