(* ===== verification/Races.thy ===== *)
theory Races
  imports Concurrency
begin

text \<open>
  What holds of the use cases of theory \<open>Concurrency\<close> however their steps interleave, and what does
  not. The contract of the steps is interpreted for the integrity of the database, the history of the
  token table, a spent refresh token and a taken address; outlines of the logout from all sessions and
  of the refresh say what their revocations reach.
\<close>

subsection \<open>Steps and the token table\<close>

lemma audit_put_frame: "\<exists>t. audit_put env io k e s = s\<lparr>audit_logs := t\<rparr>"
proof -
  obtain r s' where c: "audit_acreate (ai_up (io_audit io k)) (env_inet_ok env) (ai_at (io_audit io k)) e s
      = (r, s')"
    by (cases "audit_acreate (ai_up (io_audit io k)) (env_inet_ok env) (ai_at (io_audit io k)) e s")
  then have "audit_put env io k e s = s'" by (simp add: audit_put_def)
  with c show ?thesis by (cases rule: audit_acreate_cases) blast+
qed

lemma audit_put_simps [simp]:
  "users (audit_put env io k e s) = users s" "roles (audit_put env io k e s) = roles s"
  "permissions (audit_put env io k e s) = permissions s"
  "user_roles (audit_put env io k e s) = user_roles s"
  "role_permissions (audit_put env io k e s) = role_permissions s"
  "refresh_tokens (audit_put env io k e s) = refresh_tokens s"
  using audit_put_frame [of env io k e s] by auto

lemma audit_put_redis [simp]:
  fixes w :: "'z world_scheme"
  shows "redis (audit_put env io k e w) = redis w"
  using audit_put_frame [of env io k e w] by auto

lemma db_ok_audit_put: "db_ok s \<Longrightarrow> db_ok (audit_put env io k e s)"
  unfolding audit_put_def by (rule db_ok_audit_acreate [OF _ surjective_pairing])

lemma prefix_audit_put: "prefix (rows (audit_logs s)) (rows (audit_logs (audit_put env io k e s)))"
proof -
  obtain r s' where c: "audit_acreate (ai_up (io_audit io k)) (env_inet_ok env) (ai_at (io_audit io k)) e s
      = (r, s')"
    by (cases "audit_acreate (ai_up (io_audit io k)) (env_inet_ok env) (ai_at (io_audit io k)) e s")
  then have "audit_put env io k e s = s'" by (simp add: audit_put_def)
  with c show ?thesis by (cases rule: audit_acreate_cases) simp_all
qed

lemma tokens_acreate_user:
  assumes "acreate_user_with_role dj now e pw rid s = (r, s')"
  shows "refresh_tokens s' = refresh_tokens s"
proof -
  obtain x t where b: "create_user_with_role_body dj now e pw rid s = (x, t)"
    by (cases "create_user_with_role_body dj now e pw rid s")
  then have "refresh_tokens t = refresh_tokens s"
    by (auto simp: create_user_with_role_body_def split: prod.splits sum.splits
        dest!: create_user_frame create_user_role_frame)
  with b assms show ?thesis
    by (auto simp: acreate_user_with_role_def run_in_transaction_def rollback_def restore_rows_def
        split: prod.splits sum.splits)
qed

lemma tokens_account_steps:
  "update_users p f s = (r1, s') \<Longrightarrow> refresh_tokens s' = refresh_tokens s"
  "aassign_role uid rid s = (r2, s') \<Longrightarrow> refresh_tokens s' = refresh_tokens s"
  by (drule update_users_frame aassign_role_frame, erule exE, simp)+

lemma evolves_same:
  assumes "tokens_ok s" "refresh_tokens s' = refresh_tokens s"
  shows "evolves s s'"
  using evolves_refl [OF assms(1)]
  unfolding evolves_def revocations_kept_def new_ids_def assms(2) .

lemma evolves_token_acreate:
  assumes "tokens_ok s" "token_acreate inet uid h fam par ex dev ip s = (r, s')"
  shows "evolves s s'"
proof -
  obtain x s1 where c: "create_refresh_token inet
      (\<lambda>i. \<lparr>t_id = i, t_user_id = uid, t_token_hash = h, t_family_id = fam,
           t_parent_id = par, t_device_hash = dev, t_issued_ip = ip,
           t_expires_at = ex, t_revoked_at = None\<rparr>) s = (x, s1)"
    using prod.exhaust by metis
  with assms(2) have "s' = s1" by (auto simp: token_acreate_def split: sum.splits)
  moreover have "evolves s s1" by (rule evolves_create [OF assms(1) c]) simp
  ultimately show ?thesis by simp
qed

lemma evolves_rotation:
  "db_ok w \<Longrightarrow> tokens_ok w \<Longrightarrow> arotate bind inet_ok rq w = (r, w') \<Longrightarrow> evolves w w'"
  using arotate_ok [of w bind inet_ok rq r w'] by (intro evolves_arotate) (simp_all add: seq_le_def)

lemma prefix_deletion:
  "user_adelete uid s = (b, s') \<Longrightarrow> prefix (rows (audit_logs s)) (rows (audit_logs s'))"
  by (simp add: tokens_only_deletion(4))

lemma evolves_revoke:
  assumes "tokens_ok s" "\<And>t. p t \<Longrightarrow> active t"
  shows "evolves s (revoke_tokens p at s)"
proof -
  have "(\<lambda>t. p t \<and> active t) = p" using assms(2) by blast
  then show ?thesis using evolves_revoke_active [OF assms(1), of p at] by simp
qed

subsection \<open>Consistency and history\<close>

text \<open>Every step keeps the data invariant, extends the trail, leaves the catalog and only adds to
  the history of the token table.\<close>

definition sound_step :: "'z world_scheme \<Rightarrow> 'z world_scheme \<Rightarrow> bool" where
  "sound_step w w' \<longleftrightarrow> (db_ok w \<longrightarrow> db_ok w' \<and> evolves w w') \<and>
     (emails_canonical w \<longrightarrow> emails_canonical w') \<and> catalog_of w' = catalog_of w \<and>
     prefix (rows (audit_logs w)) (rows (audit_logs w'))"

lemma sound_stepI:
  assumes "db_ok w \<Longrightarrow> db_ok w'" "db_ok w \<Longrightarrow> tokens_ok w \<Longrightarrow> evolves w w'"
    and "emails_canonical w \<Longrightarrow> emails_canonical w'" "catalog_of w' = catalog_of w"
    and "prefix (rows (audit_logs w)) (rows (audit_logs w'))"
  shows "sound_step w w'"
  using assms by (simp add: sound_step_def db_ok_def)

lemma sound_step_accounts:
  assumes "accounts_only w w'" "refresh_tokens w' = refresh_tokens w" "db_ok w \<Longrightarrow> db_ok w'"
    and "emails_canonical w \<Longrightarrow> emails_canonical w'"
  shows "sound_step w w'"
  using assms
  by (intro sound_stepI) (simp_all add: evolves_same catalog_of_frame(1), simp add: accounts_only_def)

lemma sound_step_tokens:
  assumes "tokens_only w w'" "db_ok w \<Longrightarrow> db_ok w'" "db_ok w \<Longrightarrow> tokens_ok w \<Longrightarrow> evolves w w'"
  shows "sound_step w w'"
  using assms
  by (intro sound_stepI)
    (simp_all add: catalog_of_frame(2) emails_canonical_frame(1), simp add: tokens_only_def)

lemma sound_step_trans:
  assumes "sound_step u v" "sound_step v w"
  shows "sound_step u w"
proof (rule sound_stepI)
  show "db_ok u \<Longrightarrow> db_ok w" "emails_canonical u \<Longrightarrow> emails_canonical w"
    "catalog_of w = catalog_of u"
    using assms by (simp_all add: sound_step_def)
  show "evolves u w" if "db_ok u" "tokens_ok u"
    by (rule evolves_trans [of u v]) (use assms that in \<open>simp_all add: sound_step_def\<close>)
  show "prefix (rows (audit_logs u)) (rows (audit_logs w))"
    using assms unfolding sound_step_def by (meson prefix_order.trans)
qed

lemma tokens_only_revoke: "tokens_only w (revoke_tokens p at w)"
  by (simp add: tokens_only_def)

interpretation sound: step_contract env "\<lambda>_. True" "\<lambda>_. True" True "\<lambda>_. True" sound_step
    for env
proof unfold_locales
  fix u v w :: "'z world_scheme"
  show "sound_step w w" by (rule sound_stepI) (simp_all add: evolves_refl)
  show "sound_step u v \<Longrightarrow> sound_step v w \<Longrightarrow> sound_step u w"
    by (rule sound_step_trans)
next
  fix w w' :: "'z world_scheme" and env :: "'e env_scheme"
  show "sound_step w (audit_put env io k e w)" for io k e
    by (rule sound_stepI)
      (simp_all add: db_ok_audit_put evolves_same prefix_audit_put emails_canonical_def catalog_of_def)
  show "sound_step w (block_token up j ttl at w)" for up j ttl at
    by (rule sound_stepI)
      (simp_all add: db_ok_redis evolves_same emails_canonical_def catalog_of_def)
  show "sound_step w (revoke_user (io_redis io) uid (io_now io)
      (access_token_ttl_seconds env) (io_redis_at io) w)" for io uid
    by (rule sound_stepI)
      (simp_all add: db_ok_redis evolves_same emails_canonical_def catalog_of_def)
  show "(\<And>t. p t \<Longrightarrow> active t) \<Longrightarrow> sound_step w (revoke_tokens p at w)" for p at
    by (rule sound_step_tokens [OF tokens_only_revoke db_ok_revoke_tokens evolves_revoke])
  show "arotate bind inet_ok rq w = (r1, w') \<Longrightarrow> sound_step w w'" for bind inet_ok rq r1
    by (rule sound_step_tokens [OF tokens_only_arotate db_ok_arotate evolves_rotation])
  show "token_acreate inet_ok uid h fam None ex dev ip w = (r2, w') \<Longrightarrow> sound_step w w'"
    for inet_ok uid h fam ex dev ip r2
    by (rule sound_step_tokens [OF tokens_only_acreate db_ok_token_acreate evolves_token_acreate])
  show "user_adelete uid w = (b, w') \<Longrightarrow> sound_step w w'" for uid b
    by (rule sound_stepI [OF db_ok_user_adelete evolves_user_adelete emails_canonical_delete
          catalog_of_frame(3) prefix_deletion])
  show "acreate_user_with_role (env_normalize env) now e pw rid w = (r4, w') \<Longrightarrow> sound_step w w'"
    for now e pw rid r4
    by (rule sound_step_accounts [OF accounts_only_acreate tokens_acreate_user
          db_ok_create_user_with_role emails_canonical_acreate])
  show "aassign_role uid rid w = (r5, w') \<Longrightarrow> sound_step w w'" for uid rid r5
    by (rule sound_step_accounts [OF accounts_only_aassign tokens_account_steps(2)
          db_ok_aassign_role emails_canonical_assign])
  show "sound_step w w'" if u: "update_users (\<lambda>u. u_id u = uid)
      (set_fields (normalize_fields (env_normalize env) f)) w = (r3, w')" for f uid r3
  proof (rule sound_step_accounts)
    show "accounts_only w w'" using update_users_frame [OF u] by (auto simp: accounts_only_def)
    show "refresh_tokens w' = refresh_tokens w" by (rule tokens_account_steps(1) [OF u])
    show "db_ok w \<Longrightarrow> db_ok w'" by (rule db_ok_update_users [OF _ u]) (simp_all add: set_fields_def)
    show "emails_canonical w \<Longrightarrow> emails_canonical w'"
      by (rule emails_canonical_update_users [OF _ u], assumption) (cases "f_email f"; simp)
  qed
qed

subsection \<open>A spent refresh token\<close>

text \<open>A digest is spent when no live row carries it.\<close>

definition spent_hash :: "string \<Rightarrow> 'z db_scheme \<Rightarrow> bool" where
  "spent_hash h s \<longleftrightarrow> (\<forall>t \<in> set (tokens s). t_token_hash t = h \<longrightarrow> \<not> active t)"

lemma spent_hash_same: "tokens s' = tokens s \<Longrightarrow> spent_hash h s \<Longrightarrow> spent_hash h s'"
  by (simp add: spent_hash_def)

lemma spent_hash_revoke: "spent_hash h s \<Longrightarrow> spent_hash h (revoke_tokens p at s)"
  by (auto simp: spent_hash_def set_upd_where)

lemma spent_hash_arotate:
  assumes "spent_hash h s" "rq_replacement_hash rq \<noteq> h" "arotate bind inet rq s = (r, s')"
  shows "spent_hash h s'"
  using assms(3)
proof (cases rule: arotate_cases)
  case (rotated t u)
  then show ?thesis
    using assms(1,2) by (auto simp: spent_hash_def consume_row_def set_upd_where replacement_def)
next
  case (refused t e)
  then show ?thesis using assms(1) by (auto simp: same_rows_def spent_hash_def)
qed (use assms(1) in \<open>simp_all add: arevoke_family_def spent_hash_revoke\<close>)

lemma spent_hash_token_acreate:
  assumes "spent_hash h s" "k \<noteq> h" "token_acreate inet uid k fam par ex dev ip s = (r, s')"
  shows "spent_hash h s'"
  using assms
  by (auto simp: token_acreate_def spent_hash_def split: prod.splits sum.splits
      elim!: create_refresh_token_cases)

lemma spent_hash_deletion:
  assumes "spent_hash h s" "user_adelete uid s = (b, s')"
  shows "spent_hash h s'"
  using assms(1) tokens_user_adelete(2) [OF assms(2)]
  by (fastforce simp: spent_hash_def)

lemma stays_spent_tokens:
  assumes "I w \<Longrightarrow> I w'" "tokens w' = tokens w"
  shows "stays_spent I (spent_hash h) w w'"
  using assms spent_hash_same by (auto simp: stays_spent_def)

interpretation spending: step_contract env "\<lambda>k. k \<noteq> h" "\<lambda>_. True" True "\<lambda>_. True"
    "stays_spent db_ok (spent_hash h)" for env h
proof unfold_locales
  fix w w' :: "'z world_scheme" and env :: "'e env_scheme"
  show "stays_spent db_ok (spent_hash h) w (audit_put env io k e w)" for io k e
    by (rule stays_spent_tokens) (simp_all add: db_ok_audit_put)
  show "stays_spent db_ok (spent_hash h) w (block_token up j ttl at w)" for up j ttl at
    by (rule stays_spent_tokens) (simp_all add: db_ok_redis)
  show "stays_spent db_ok (spent_hash h) w (revoke_user (io_redis io) uid (io_now io)
      (access_token_ttl_seconds env) (io_redis_at io) w)" for io uid
    by (rule stays_spent_tokens) (simp_all add: db_ok_redis)
  show "stays_spent db_ok (spent_hash h) w (revoke_tokens p at w)" for p at
    by (simp add: stays_spent_def spent_hash_revoke db_ok_revoke_tokens)
  show "rq_replacement_hash rq \<noteq> h \<Longrightarrow> arotate bind inet_ok rq w = (r1, w') \<Longrightarrow>
      stays_spent db_ok (spent_hash h) w w'" for bind inet_ok rq r1
    by (auto simp: stays_spent_def intro: spent_hash_arotate db_ok_arotate)
  show "k \<noteq> h \<Longrightarrow> token_acreate inet_ok uid k fam None ex dev ip w = (r2, w') \<Longrightarrow>
      stays_spent db_ok (spent_hash h) w w'" for inet_ok uid k fam ex dev ip r2
    by (auto simp: stays_spent_def intro: spent_hash_token_acreate db_ok_token_acreate)
  show "user_adelete uid w = (b, w') \<Longrightarrow> stays_spent db_ok (spent_hash h) w w'" for uid b
    by (auto simp: stays_spent_def intro: spent_hash_deletion db_ok_user_adelete)
  show "acreate_user_with_role (env_normalize env) now e pw rid w = (r4, w') \<Longrightarrow>
      stays_spent db_ok (spent_hash h) w w'" for now e pw rid r4
    by (rule stays_spent_tokens) (simp_all add: db_ok_create_user_with_role tokens_acreate_user)
  show "aassign_role uid rid w = (r5, w') \<Longrightarrow> stays_spent db_ok (spent_hash h) w w'" for uid rid r5
    by (rule stays_spent_tokens) (simp_all add: db_ok_aassign_role tokens_account_steps)
  show "stays_spent db_ok (spent_hash h) w w'" if u: "update_users (\<lambda>u. u_id u = uid)
      (set_fields (normalize_fields (env_normalize env) f)) w = (r3, w')" for f uid r3
  proof (rule stays_spent_tokens)
    show "db_ok w \<Longrightarrow> db_ok w'" by (rule db_ok_update_users [OF _ u]) (simp_all add: set_fields_def)
    show "tokens w' = tokens w" using tokens_account_steps(1) [OF u] by simp
  qed
qed (simp_all add: stays_spent_def)

text \<open>A refresh is a contender for the token it presents.\<close>

lemma contends_audit_proc:
  "contends I S wins p \<Longrightarrow> contends I S wins (audit_proc env io k ev p)"
  by (simp add: audit_proc_def contends_query contends_effect)

lemma contends_close_session:
  "contends I S wins k \<Longrightarrow> contends I S wins (close_session_proc env io a c t k)"
  by (simp add: close_session_proc_def contends_effect contends_audit_proc split: option.split)

lemma rotated_proc_contends:
  "outcome rot \<noteq> Rotated \<Longrightarrow> contends I S is_ok (rotated_proc env io c rot)"
  by (cases "outcome rot") (auto simp: rotated_proc_def intro: contends_close_session)

lemma arotate_outcome_spends:
  assumes "db_ok w" "arotate bind inet rq w = (Inr res, w')" "outcome res = Rotated"
  shows "\<not> spent_hash (rq_token_hash rq) w \<and> spent_hash (rq_token_hash rq) w'"
proof -
  obtain fam where "token_status w (rq_token_hash rq) = Some (fam, True)"
    "token_status w' (rq_token_hash rq) = Some (fam, False)"
    using repo.rotated_live [OF assms(1,2)] assms(3) by (auto simp: is_rotated_def)
  moreover have "db_ok w'" using db_ok_arotate [OF assms(1,2)] .
  ultimately obtain t u where t: "token_by_hash (rq_token_hash rq) w = Some t" "active t"
    and u: "token_by_hash (rq_token_hash rq) w' = Some u" "\<not> active u"
    by (auto simp: token_status_def)
  have ok: "tokens_ok w" "tokens_ok w'" using assms(1) \<open>db_ok w'\<close> by (simp_all add: db_ok_def)
  have "v = u" if "v \<in> set (tokens w')" "t_token_hash v = rq_token_hash rq" for v
    using token_by_hash_iff [OF ok(2)] that u(1) by (metis option.inject)
  with u(2) have "spent_hash (rq_token_hash rq) w'" by (auto simp: spent_hash_def)
  moreover have "\<not> spent_hash (rq_token_hash rq) w"
    using t token_by_hash_Some [OF t(1)] by (auto simp: spent_hash_def)
  ultimately show ?thesis by blast
qed

lemma contends_rotate_proc:
  fixes k :: "exn + rotation_result \<Rightarrow> ('z world_scheme, 'a) proc"
  assumes "\<And>w r w'. I w \<Longrightarrow> arotate bind inet rq w = (r, w') \<Longrightarrow>
      contends I S wins (k r) \<or> (\<not> S w \<and> S w')"
    and "\<And>res. outcome res = Reused \<Longrightarrow> contends I S wins (k (Inr res))"
  shows "contends I S wins (rotate_proc bind inet rq k)"
  unfolding rotate_proc_def
proof (rule contends.tries, goal_cases)
  case (1 w)
  obtain r w' where r: "arotate bind inet rq w = (r, w')" by (cases "arotate bind inet rq w")
  show ?case
  proof (cases "\<exists>t. token_by_hash (rq_token_hash rq) w = Some t \<and> \<not> active t")
    case True
    then show ?thesis
      unfolding bulk_revoke_def by (auto intro!: contends_query contends_effect assms(2))
  next
    case False
    then show ?thesis using assms(1) [OF 1 r] r by (auto split: option.split)
  qed
qed

lemma refresh_contends:
  "contends db_ok (spent_hash (hash_refresh_token (env_sha env) raw)) is_ok
     (refresh_proc env io raw c :: ('z world_scheme, exn + token_pair) proc)"
proof -
  let ?rq = "rotation_for env io raw c"
  let ?k = "\<lambda>r. case r of Inl e \<Rightarrow> Done (Inl e) | Inr rotation \<Rightarrow> rotated_proc env io c rotation"
  let ?S = "spent_hash (hash_refresh_token (env_sha env) raw)"
  have "contends db_ok ?S is_ok (?k r) \<or> (\<not> ?S w \<and> ?S w')"
    if "db_ok w" "arotate (cfg_refresh_bind_device env) (env_inet_ok env) ?rq w = (r, w')"
    for r and w w' :: "'z world_scheme"
  proof (cases r)
    case (Inr res)
    then show ?thesis
      using arotate_outcome_spends [of w _ _ ?rq res w'] that
      by (cases "outcome res = Rotated") (auto simp: rotated_proc_contends)
  qed simp
  then have "contends db_ok ?S is_ok (rotate_proc (cfg_refresh_bind_device env) (env_inet_ok env) ?rq ?k ::
      ('z world_scheme, exn + token_pair) proc)"
    by (rule contends_rotate_proc) (simp_all add: rotated_proc_contends)
  then show ?thesis by (simp add: refresh_proc_def split: sum.split)
qed

subsection \<open>A taken address\<close>

definition taken :: "string \<Rightarrow> 'z db_scheme \<Rightarrow> bool" where
  "taken e s \<longleftrightarrow> e \<in> email_key ` set (rows (users s))"

lemma taken_same: "rows (users s') = rows (users s) \<Longrightarrow> taken e s' = taken e s"
  by (simp add: taken_def)

lemma acreate_user_takes:
  assumes "db_ok s" "acreate_user_with_role dj now e pw rid s = (r, s')"
  shows "taken k s \<Longrightarrow> taken k s'"
    and "is_ok r \<Longrightarrow> k = normalize_email dj e \<Longrightarrow> \<not> taken k s \<and> taken k s'"
proof -
  have "(\<not> is_ok r \<and> same_rows s s') \<or>
      (\<exists>u :: user_row. u_email u = normalize_email dj e \<and> rows (users s') = rows (users s) @ [u] \<and>
        email_key u \<notin> email_key ` set (rows (users s)))"
    using assms(2)
  proof (cases rule: create_with_role_cases)
    case (created u l w1)
    then have new: "rows (users w1) = rows (users s) @ [u]" "u_email u = normalize_email dj e"
      "user_insert_check (rows (users s)) u = None"
      by (auto elim: create_user_cases)
    have "users s' = users w1" using created(3) by (auto dest: create_user_role_frame)
    with new have "rows (users s') = rows (users s) @ [u]" by simp
    moreover have "email_key u \<notin> email_key ` set (rows (users s))"
      using new(3) by (auto simp: user_insert_check_def split: if_splits)
    ultimately show ?thesis using new(2) by blast
  qed simp
  then show "taken k s \<Longrightarrow> taken k s'"
    and "is_ok r \<Longrightarrow> k = normalize_email dj e \<Longrightarrow> \<not> taken k s \<and> taken k s'"
    by (auto simp: taken_def same_rows_def)
qed

lemma taken_update:
  assumes "f_email f = None" "update_users (\<lambda>u. u_id u = uid) (set_fields (normalize_fields dj f)) s = (r, s')"
  shows "taken e s' = taken e s"
proof -
  have key: "email_key (set_fields (normalize_fields dj f) u) = email_key u" for u
    using assms(1) by simp
  have "map email_key (rows (users s')) = map email_key (rows (users s))"
    using assms(2) map_upd_where [where g = email_key, OF key]
    by (auto simp: update_users_def tbl_update_def Let_def split: option.splits prod.splits)
  then have "email_key ` set (rows (users s')) = email_key ` set (rows (users s))"
    by (metis set_map)
  then show ?thesis by (simp only: taken_def)
qed

lemma stays_taken:
  assumes "I w \<Longrightarrow> I w'" "rows (users w') = rows (users w)"
  shows "stays_spent I (taken e) w w'"
  using assms taken_same [OF assms(2)] by (simp add: stays_spent_def)

text \<open>No request gives an address back: nobody is deleted and no address is changed.\<close>

interpretation taking: step_contract env "\<lambda>_. True" "\<lambda>f. f_email f = None" False "\<lambda>_. True"
    "stays_spent db_ok (taken e)" for env e
proof unfold_locales
  fix w w' :: "'z world_scheme" and env :: "'e env_scheme"
  show "stays_spent db_ok (taken e) w (audit_put env io k x w)" for io k x
    by (rule stays_taken) (simp_all add: db_ok_audit_put)
  show "stays_spent db_ok (taken e) w (block_token up j ttl at w)" for up j ttl at
    by (rule stays_taken) (simp_all add: db_ok_redis)
  show "stays_spent db_ok (taken e) w (revoke_user (io_redis io) uid (io_now io)
      (access_token_ttl_seconds env) (io_redis_at io) w)" for io uid
    by (rule stays_taken) (simp_all add: db_ok_redis)
  show "stays_spent db_ok (taken e) w (revoke_tokens p at w)" for p at
    by (rule stays_taken) (simp_all add: db_ok_revoke_tokens)
  show "arotate bind inet_ok rq w = (r1, w') \<Longrightarrow> stays_spent db_ok (taken e) w w'" for bind inet_ok rq r1
    by (rule stays_taken [OF db_ok_arotate]) (auto simp: tokens_only_def dest: tokens_only_arotate)
  show "token_acreate inet_ok uid k fam None ex dev ip w = (r2, w') \<Longrightarrow>
      stays_spent db_ok (taken e) w w'" for inet_ok uid k fam ex dev ip r2
    by (rule stays_taken [OF db_ok_token_acreate]) (auto simp: tokens_only_def dest: tokens_only_acreate)
  show "acreate_user_with_role (env_normalize env) now a pw rid w = (r4, w') \<Longrightarrow>
      stays_spent db_ok (taken e) w w'" for now a pw rid r4
    using acreate_user_takes(1) db_ok_create_user_with_role by (auto simp: stays_spent_def)
  show "aassign_role uid rid w = (r5, w') \<Longrightarrow> stays_spent db_ok (taken e) w w'" for uid rid r5
    by (rule stays_taken [OF db_ok_aassign_role]) (auto dest: aassign_role_frame)
  show "stays_spent db_ok (taken e) w w'" if f: "f_email f = None" and u: "update_users (\<lambda>u. u_id u = uid)
      (set_fields (normalize_fields (env_normalize env) f)) w = (r3, w')" for f uid r3
  proof -
    have "db_ok w \<Longrightarrow> db_ok w'" by (rule db_ok_update_users [OF _ u]) (simp_all add: set_fields_def)
    then show ?thesis by (simp add: stays_spent_def taken_update [OF f u])
  qed
qed (simp_all add: stays_spent_def)

lemma register_contends:
  fixes k :: "exn + user_dto \<Rightarrow> ('z world_scheme, 'x + 'y) proc"
  assumes "e = normalize_email (env_normalize env) a"
    and "\<And>x. contends db_ok (taken e) is_ok (k (Inl x))"
  shows "contends db_ok (taken e) is_ok (register_proc env io a p c b k)"
  unfolding register_proc_def
proof (rule contends_query)
  fix w :: "'z world_scheme"
  show "contends db_ok (taken e) is_ok (case aget_role_by_name (cfg_default_user_role env) w of
      None \<Rightarrow> k (Inl (RuntimeError ''The configured default user role does not exist''))
    | Some d \<Rightarrow> atomic (acreate_user_with_role (env_normalize env) (io_now io) a
          (hash_password (env_make_password env) (io_salt io) p) (rd_id d))
        (\<lambda>r. case r of
           Inl x \<Rightarrow> k (Inl (if x = IntegrityError then raise_domain EmailAlreadyExists else x))
         | Inr u \<Rightarrow> if b then audit_proc env io 0 (event REGISTER (context_for_user c u) True None) (k (Inr u))
             else k (Inr u)))"
  proof (cases "aget_role_by_name (cfg_default_user_role env) w")
    case None
    then show ?thesis by (simp add: assms(2))
  next
    case (Some d)
    have "contends db_ok (taken e) is_ok (case r of
          Inl x \<Rightarrow> k (Inl (if x = IntegrityError then raise_domain EmailAlreadyExists else x))
        | Inr u \<Rightarrow> if b then audit_proc env io 0 (event REGISTER (context_for_user c u) True None) (k (Inr u))
            else k (Inr u)) \<or> (\<not> taken e s \<and> taken e s')"
      if "db_ok s" "acreate_user_with_role (env_normalize env) (io_now io) a
        (hash_password (env_make_password env) (io_salt io) p) (rd_id d) s = (r, s')"
      for r and s s' :: "'z world_scheme"
      using acreate_user_takes(2) [OF that _ assms(1)] assms(2) by (cases r) simp_all
    then show ?thesis unfolding Some option.case by (intro contends_atomic)
  qed
qed

subsection \<open>What a bulk revocation reaches\<close>

text \<open>
  \<open>w1\<close> is the world in which a request starts. The assertions of its outline speak of the rows that
  were there then: the ones below the next id.
\<close>

definition since :: "'z world_scheme \<Rightarrow> 'z world_scheme \<Rightarrow> bool" where
  "since w1 w \<longleftrightarrow> db_ok w \<and> evolves w1 w"

definition dead_before :: "'z db_scheme \<Rightarrow> (refresh_token_row \<Rightarrow> bool) \<Rightarrow> 'z db_scheme \<Rightarrow> bool" where
  "dead_before w1 sel w \<longleftrightarrow>
     (\<forall>t \<in> set (tokens w). sel t \<longrightarrow> t_id t < next_id (refresh_tokens w1) \<longrightarrow> \<not> active t)"

definition caught ::
  "'z db_scheme \<Rightarrow> (refresh_token_row \<Rightarrow> bool) \<Rightarrow> int set \<Rightarrow> 'z db_scheme \<Rightarrow> bool" where
  "caught w1 sel ids w \<longleftrightarrow> (\<forall>t \<in> set (tokens w). sel t \<longrightarrow> active t \<longrightarrow>
     t_id t < next_id (refresh_tokens w1) \<longrightarrow> t_id t \<in> ids)"

definition by_owner :: "(refresh_token_row \<Rightarrow> bool) \<Rightarrow> bool" where
  "by_owner sel \<longleftrightarrow> (\<forall>t u. t_user_id t = t_user_id u \<longrightarrow> t_family_id t = t_family_id u \<longrightarrow> sel t = sel u)"

lemma since_start: "db_ok w1 \<Longrightarrow> since w1 w1"
  by (simp add: since_def evolves_refl db_ok_def)

lemma since_sound: "db_ok w1 \<Longrightarrow> since w1 w \<Longrightarrow> sound_step w w' \<Longrightarrow> since w1 w'"
  using evolves_trans [of w1 w w'] by (simp add: since_def sound_step_def db_ok_def)

lemma old_row:
  assumes "since w1 w" "sound_step w w'" "u \<in> set (tokens w')" "t_id u < next_id (refresh_tokens w1)"
  shows "\<exists>t \<in> set (tokens w). t_id t = t_id u \<and> t_user_id t = t_user_id u \<and>
    t_family_id t = t_family_id u \<and> t_token_hash t = t_token_hash u \<and> (active u \<longrightarrow> active t)"
proof -
  have e: "evolves w1 w" "evolves w w'" using assms(1,2) by (simp_all add: since_def sound_step_def)
  have "t_id u < next_id (refresh_tokens w)" using e(1) assms(4) by (auto simp: evolves_def new_ids_def)
  then obtain t where t: "t \<in> set (tokens w)" "t_id u = t_id t"
    using e(2) assms(3) by (fastforce simp: evolves_def new_ids_def)
  have "t_token_hash u = t_token_hash t \<and> t_family_id u = t_family_id t \<and> t_user_id u = t_user_id t \<and>
      (\<not> active t \<longrightarrow> t_revoked_at u = t_revoked_at t)"
    using e(2) t assms(3) unfolding evolves_def revocations_kept_def by blast
  with t show ?thesis by (intro bexI [of _ t]) auto
qed

lemma stable_since: "db_ok w1 \<Longrightarrow> stable sound_step (since w1)"
  by (auto simp: stable_def intro: since_sound)

lemma stable_dead:
  assumes "db_ok w1" "by_owner sel"
  shows "stable sound_step (\<lambda>w. since w1 w \<and> dead_before w1 sel w)"
  unfolding stable_def
proof (intro allI impI conjI)
  fix w w'
  assume w: "since w1 w \<and> dead_before w1 sel w" "sound_step w w'"
  then show "since w1 w'" using since_sound [OF assms(1)] by blast
  show "dead_before w1 sel w'"
    unfolding dead_before_def
  proof (intro ballI impI)
    fix u
    assume u: "u \<in> set (tokens w')" "sel u" "t_id u < next_id (refresh_tokens w1)"
    then obtain t where "t \<in> set (tokens w)" "t_id t = t_id u" "t_user_id t = t_user_id u"
      "t_family_id t = t_family_id u" "active u \<longrightarrow> active t"
      using old_row w by blast
    moreover from this u(2) have "sel t" using assms(2) unfolding by_owner_def by blast
    ultimately show "\<not> active u" using w(1) u(3) unfolding dead_before_def by metis
  qed
qed

lemma stable_caught:
  assumes "db_ok w1" "by_owner sel"
  shows "stable sound_step (\<lambda>w. since w1 w \<and> caught w1 sel ids w)"
  unfolding stable_def
proof (intro allI impI conjI)
  fix w w'
  assume w: "since w1 w \<and> caught w1 sel ids w" "sound_step w w'"
  then show "since w1 w'" using since_sound [OF assms(1)] by blast
  show "caught w1 sel ids w'"
    unfolding caught_def
  proof (intro ballI impI)
    fix u
    assume u: "u \<in> set (tokens w')" "sel u" "active u" "t_id u < next_id (refresh_tokens w1)"
    then obtain t where "t \<in> set (tokens w)" "t_id t = t_id u" "t_user_id t = t_user_id u"
      "t_family_id t = t_family_id u" "active t"
      using old_row w by blast
    moreover from this u(2) have "sel t" using assms(2) unfolding by_owner_def by blast
    ultimately show "t_id u \<in> ids" using w(1) u(4) unfolding caught_def by metis
  qed
qed

lemma outline_bulk_revoke:
  assumes "db_ok w1" "by_owner sel"
    and "outline sound_step Q (\<lambda>w. since w1 w \<and> dead_before w1 sel w) k"
  shows "outline sound_step Q (since w1) (bulk_revoke (\<lambda>t. sel t \<and> active t) at k)"
  unfolding bulk_revoke_def
proof (rule outline_query [OF stable_since [OF assms(1)]])
  fix w
  assume w: "since w1 w"
  let ?ids = "map t_id (filter (\<lambda>t. sel t \<and> active t) (tokens w))"
  let ?p = "\<lambda>t. t_id t \<in> set ?ids \<and> sel t \<and> active t"
  have "since w1 (revoke_tokens ?p at v) \<and> dead_before w1 sel (revoke_tokens ?p at v)"
    if "since w1 v \<and> caught w1 sel (set ?ids) v" for v
  proof
    show "since w1 (revoke_tokens ?p at v)"
      using that by (intro since_sound [OF assms(1) _ sound.revoking]) blast+
    have "sel (t\<lparr>t_revoked_at := r\<rparr>) = sel t" for t r
      by (rule assms(2) [unfolded by_owner_def, rule_format]) simp_all
    then show "dead_before w1 sel (revoke_tokens ?p at v)"
      using that unfolding dead_before_def caught_def tokens_revoke ball_upd_where by auto
  qed
  then have "outline sound_step Q (\<lambda>w. since w1 w \<and> caught w1 sel (set ?ids) w)
      (effect (revoke_tokens ?p at) k)"
    by (rule outline_effect [OF stable_caught [OF assms(1,2)] assms(3)])
  moreover have "caught w1 sel (set ?ids) w" by (auto simp: caught_def)
  ultimately show "\<exists>P'. P' w \<and> outline sound_step Q P' (effect (revoke_tokens ?p at) k)"
    using w by (intro exI [of _ "\<lambda>w. since w1 w \<and> caught w1 sel (set ?ids) w"]) blast
qed

lemma logout_all_outline:
  assumes "db_ok w1"
  shows "outline sound_step (\<lambda>_. dead_before w1 (\<lambda>t. t_user_id t = uid)) (since w1)
    (logout_all_proc env io uid c (Done a))"
proof -
  let ?sel = "\<lambda>t :: refresh_token_row. t_user_id t = uid"
  have owner: "by_owner ?sel" by (simp add: by_owner_def)
  let ?tail = "audit_proc env io 0 (event LOGOUT (actor uid c) True (Some [(''scope'', PStr ''all'')])) (Done a)"
  have "outline sound_step (\<lambda>_. dead_before w1 ?sel) (\<lambda>w. since w1 w \<and> dead_before w1 ?sel w) ?tail"
    by (rule outline_guaranteed [OF sound.audit_guarantees [OF guarantees.finished]
          stable_dead [OF assms owner] pred_proc_all]) simp
  then have "outline sound_step (\<lambda>_. dead_before w1 ?sel) (since w1)
      (bulk_revoke (\<lambda>t. ?sel t \<and> active t) (io_now io) ?tail)"
    by (rule outline_bulk_revoke [OF assms owner])
  then show ?thesis
    unfolding logout_all_proc_def
    by (rule outline_effect [OF stable_since [OF assms]]) (rule since_sound [OF assms _ sound.epochs [OF TrueI]])
qed

text \<open>A refresh reports reuse only in the branch that closes the family.\<close>

definition not_reuse :: "exn + 'a \<Rightarrow> bool" where
  "not_reuse a \<longleftrightarrow> a \<noteq> Inl (raise_domain TokenReused)"

lemma arotate_error_class:
  assumes "arotate bind inet rq s = (Inl e, s')"
  shows "e = DataError \<or> e = IntegrityError"
proof -
  obtain t where t: "token_by_hash (rq_token_hash rq) s = Some t" "active t"
    using assms by (cases rule: arotate_cases) simp_all
  have "\<not> t_expires_at t \<le> rq_rotated_at rq" "\<not> wrong_device bind rq t"
    using assms t by (auto simp: arotate_expired) (metis (no_types, lifting) arotate_expired
      arotate_mismatch not_less prod.inject sum.distinct(1) t)
  then obtain s2 where "consume inet rq t s = (Inl e, s2)"
    using assms arotate_live [OF t] by (auto split: prod.splits sum.splits)
  then have "create_refresh_token inet (replacement t rq)
      (revoke_tokens (\<lambda>u. t_id u = t_id t) (rq_rotated_at rq) s) = (Inl e, s2)"
    by (simp add: consume_def)
  then show ?thesis
    by (cases rule: create_refresh_token_cases)
      (auto simp: refresh_token_insert_check_def split: if_splits)
qed

lemma sign_access_error: "sign_access env io uid names codes = Inl e \<Longrightarrow> e = OverflowError"
  by (auto simp: sign_access_def encode_access_token_def add_timedelta_def split: if_splits)

lemma pred_proc_audit: "pred_proc A p \<Longrightarrow> pred_proc A (audit_proc env io k ev p)"
  unfolding audit_proc_def by (intro pred_proc_query pred_proc_effect)

lemma rotated_not_reuse:
  assumes "outcome rot \<noteq> Reused"
  shows "pred_proc not_reuse (rotated_proc env io c rot)"
proof (cases "outcome rot")
  case Rotated
  have "pred_proc not_reuse (case sign_access env io uid names codes of
      Inl e \<Rightarrow> Done (Inl e) | Inr access \<Rightarrow> audit_proc env io 1 ev (Done (Inr (f access))))"
    for uid names codes ev and f :: "string \<Rightarrow> token_pair"
    using sign_access_error [of env io uid names codes]
    by (auto simp: not_reuse_def domain_error_def split: sum.split intro!: pred_proc_audit)
  then show ?thesis
    using Rotated
    by (auto simp: rotated_proc_def read_grants_def Let_def not_reuse_def split: option.split
        intro!: pred_proc_audit pred_proc_query)
next
  case BindingMismatch
  then show ?thesis
    by (auto simp: rotated_proc_def close_session_proc_def not_reuse_def split: option.split
        intro!: pred_proc_audit pred_proc_effect)
qed (use assms in \<open>simp_all add: rotated_proc_def not_reuse_def\<close>)

lemma stable_gone:
  assumes "db_ok w1" "i < next_id (refresh_tokens w1)"
  shows "stable sound_step (\<lambda>w. since w1 w \<and> i \<notin> t_id ` set (tokens w))"
  unfolding stable_def
proof (intro allI impI conjI notI)
  fix w w'
  assume w: "since w1 w \<and> i \<notin> t_id ` set (tokens w)" "sound_step w w'"
  then show "since w1 w'" using since_sound [OF assms(1)] by blast
  assume "i \<in> t_id ` set (tokens w')"
  then obtain u where u: "u \<in> set (tokens w')" "t_id u = i" by blast
  then have "\<exists>t \<in> set (tokens w). t_id t = i" using old_row [of w1 w w' u] w assms(2) by blast
  with w(1) show False by blast
qed

text \<open>The row with the digest of \<open>t\<close> is \<open>t\<close> itself, as long as \<open>t\<close> is stored.\<close>

lemma same_token:
  assumes "db_ok w1" "token_by_hash h w1 = Some t" "since w1 w" "token_by_hash h w = Some v"
    and "t_id t \<in> t_id ` set (tokens w)"
  shows "t_family_id v = t_family_id t"
proof -
  obtain x where x: "x \<in> set (tokens w)" "t_id x = t_id t" using assms(5) by auto
  have t: "t \<in> set (tokens w1)" "t_token_hash t = h" using token_by_hash_Some [OF assms(2)] by auto
  have "t_token_hash x = t_token_hash t \<and> t_family_id x = t_family_id t"
    using assms(3) x t(1) unfolding since_def evolves_def revocations_kept_def by blast
  moreover have "tokens_ok w" using assms(3) by (simp add: since_def db_ok_def)
  ultimately have "v = x" using token_by_hash_iff [of w h] x(1) t(2) assms(4) by (metis option.inject)
  with \<open>t_token_hash x = t_token_hash t \<and> _\<close> show ?thesis by blast
qed

text \<open>The process after the rotation, and the two ways its outline goes on.\<close>

definition after_arotate ::
  "'e env_scheme \<Rightarrow> io \<Rightarrow> audit_context \<Rightarrow> exn + rotation_result \<Rightarrow>
     ('z world_scheme, exn + token_pair) proc" where
  "after_arotate env io c r = (case r of Inl e \<Rightarrow> Done (Inl e) | Inr rotation \<Rightarrow> rotated_proc env io c rotation)"

lemma after_arotate_guarantees: "guarantees sound_step (after_arotate env io c r)"
  by (auto simp: after_arotate_def split: sum.split intro: sound.rotated_guarantees)

lemma outline_no_reuse:
  assumes "db_ok w1" "arotate bind inet rq w = (r, w')" "\<And>res. r = Inr res \<Longrightarrow> outcome res \<noteq> Reused"
    and "\<And>a w. not_reuse a \<Longrightarrow> Q a w"
  shows "outline sound_step Q (since w1) (after_arotate env io c r)"
proof (rule outline_guaranteed [OF after_arotate_guarantees stable_since [OF assms(1)]])
  have "pred_proc not_reuse (after_arotate env io c r)"
    using assms(2,3) arotate_error_class [of bind inet rq w _ w'] rotated_not_reuse
    by (auto simp: after_arotate_def not_reuse_def domain_error_def split: sum.split)
  then show "pred_proc (\<lambda>a. \<forall>w. since w1 w \<longrightarrow> Q a w) (after_arotate env io c r)"
    by (rule proc.pred_mono_strong) (simp add: assms(4))
qed

text \<open>The revocation of the family that the row \<open>v\<close> found under the digest names.\<close>

lemma outline_reuse:
  fixes w1 :: "'z world_scheme"
  assumes ok: "db_ok w1" and t: "token_by_hash h w1 = Some t"
    and w: "since w1 w" "token_by_hash h w = Some v" and k: "guarantees sound_step k"
    and Q: "\<And>a w. t_id t \<notin> t_id ` set (tokens w) \<Longrightarrow> Q a w"
      "\<And>a w. dead_before w1 (\<lambda>u. t_family_id u = t_family_id t) w \<Longrightarrow> Q a w"
  shows "\<exists>P. P w \<and> outline sound_step Q P
    (bulk_revoke (\<lambda>u. t_family_id u = t_family_id v \<and> active u) at k)"
proof (cases "t_id t \<in> t_id ` set (tokens w)")
  case True
  let ?sel = "\<lambda>u :: refresh_token_row. t_family_id u = t_family_id t"
  have owner: "by_owner ?sel" by (simp add: by_owner_def)
  have "outline sound_step Q (\<lambda>w. since w1 w \<and> dead_before w1 ?sel w) k"
    by (rule outline_guaranteed [OF k stable_dead [OF ok owner] pred_proc_all]) (use Q(2) in blast)
  then have "outline sound_step Q (since w1) (bulk_revoke (\<lambda>u. ?sel u \<and> active u) at k)"
    by (rule outline_bulk_revoke [OF ok owner])
  then show ?thesis using w(1) same_token [OF ok t w True] by (intro exI [of _ "since w1"]) simp
next
  case False
  have "t_id t < next_id (refresh_tokens w1)"
    using ok token_by_hash_Some [OF t] by (auto simp: db_ok_def tokens_ok_def ids_ok_def)
  note gone = stable_gone [OF ok this]
  have "outline sound_step Q (\<lambda>w. since w1 w \<and> t_id t \<notin> t_id ` set (tokens w))
      (bulk_revoke (\<lambda>u. t_family_id u = t_family_id v \<and> active u) at k)"
    by (rule outline_guaranteed [OF sound.bulk_guarantees [OF _ k] gone pred_proc_all])
      (simp, use Q(1) in blast)
  with w(1) False show ?thesis
    by (intro exI [of _ "\<lambda>w. since w1 w \<and> t_id t \<notin> t_id ` set (tokens w)"]) simp
qed

lemma refresh_outline:
  fixes w1 :: "'z world_scheme"
  assumes ok: "db_ok w1" and t: "token_by_hash (hash_refresh_token (env_sha env) raw) w1 = Some t"
  defines "claim \<equiv> \<lambda>(a :: exn + token_pair) w. not_reuse a \<or> t_id t \<notin> t_id ` set (tokens w) \<or>
    dead_before w1 (\<lambda>u. t_family_id u = t_family_id t) w"
  shows "outline sound_step claim (since w1) (refresh_proc env io raw c)"
proof -
  let ?h = "hash_refresh_token (env_sha env) raw" and ?rq = "rotation_for env io raw c"
  let ?bind = "cfg_refresh_bind_device env" and ?inet = "env_inet_ok env"
  have "outline sound_step claim (since w1) (rotate_proc ?bind ?inet ?rq (after_arotate env io c))"
    unfolding rotate_proc_def
  proof (rule outline.moves [OF stable_since [OF ok]], goal_cases)
    case (1 w)
    obtain r w' where r: "arotate ?bind ?inet ?rq w = (r, w')" by (cases "arotate ?bind ?inet ?rq w")
    show ?case
    proof (cases "\<exists>v. token_by_hash ?h w = Some v \<and> \<not> active v")
      case True
      then obtain v where v: "token_by_hash ?h w = Some v" "\<not> active v" by blast
      have "\<exists>P. P w \<and> outline sound_step claim P
          (bulk_revoke (\<lambda>u. t_family_id u = t_family_id v \<and> active u) at (after_arotate env io c x))" for at x
        by (rule outline_reuse [OF ok t 1 v(1) after_arotate_guarantees]) (simp_all add: claim_def)
      with v show ?thesis by simp
    next
      case False
      have "outcome res \<noteq> Reused" if "r = Inr res" for res
        using r [unfolded that] False by (cases rule: arotate_cases) auto
      then have "outline sound_step claim (since w1) (after_arotate env io c r)"
        by (rule outline_no_reuse [OF ok r]) (simp_all add: claim_def)
      with since_sound [OF ok 1 sound.rotating [OF TrueI r]] r False
      show ?thesis by (intro exI [of _ "since w1"]) (auto split: option.split)
    qed
  qed
  moreover have "outline sound_step claim (since w1) (Done (Inl OverflowError))"
    by (rule outline.finished [OF stable_since [OF ok]])
      (simp add: claim_def not_reuse_def domain_error_def)
  ultimately show ?thesis by (simp add: refresh_proc_def add_timedelta_def after_arotate_def [abs_def])
qed

end
