(* ===== verification/Epochs.thy ===== *)
theory Epochs
  imports Races
begin

text \<open>
  Access tokens under concurrency: what the steps of the use cases do to the revocation epochs in
  Redis. An epoch is overwritten by the next revocation of the user, whichever clock reading that one
  brings along; a token stays refused as long as every revocation that is still to come has read its
  clock after the token was issued.
\<close>

subsection \<open>The database leaves Redis alone\<close>

lemma redis_tokens:
  fixes w :: "'z world_scheme"
  shows "redis (revoke_tokens p at w) = redis w"
    and "create_refresh_token inet mk w = (r1, w') \<Longrightarrow> redis w' = redis w"
    and "token_acreate inet uid h fam par ex dev ip w = (r2, w') \<Longrightarrow> redis w' = redis w"
  by (auto simp: revoke_tokens_def token_acreate_def split: prod.splits sum.splits
      dest!: create_refresh_token_frame)

lemma redis_transaction:
  fixes w :: "'z world_scheme"
  assumes "\<And>r w'. fn w = (r, w') \<Longrightarrow> redis w' = redis w" "run_in_transaction fn w = (r, w')"
  shows "redis w' = redis w"
proof -
  obtain x v where "fn w = (x, v)" by fastforce
  with assms(1) [OF this] assms(2) show ?thesis
    by (auto simp: run_in_transaction_def rollback_def split: sum.splits)
qed

lemma redis_arotate:
  fixes w :: "'z world_scheme"
  assumes "arotate bind inet rq w = (r, w')"
  shows "redis w' = redis w"
  using assms unfolding arotate_def
  by (rule redis_transaction [rotated])
    (auto simp: rotate_body_def redis_tokens(1) Let_def split: option.splits if_splits prod.splits sum.splits
      dest!: redis_tokens(2))

lemma redis_accounts:
  fixes w :: "'z world_scheme"
  shows "update_users p f w = (r1, w') \<Longrightarrow> redis w' = redis w"
    and "aassign_role uid rid w = (r2, w') \<Longrightarrow> redis w' = redis w"
    and "user_adelete uid w = (b, w') \<Longrightarrow> redis w' = redis w"
  by (auto simp: user_adelete_def delete_users_def delete_refresh_tokens_def Let_def
      dest!: update_users_frame aassign_role_frame)

lemma redis_create_user:
  fixes w :: "'z world_scheme"
  assumes "acreate_user_with_role dj now e pw rid w = (r, w')"
  shows "redis w' = redis w"
  using assms unfolding acreate_user_with_role_def
  by (rule redis_transaction [rotated])
    (auto simp: create_user_with_role_body_def split: prod.splits sum.splits
      dest!: create_user_frame create_user_role_frame)

subsection \<open>Refused access tokens\<close>

text \<open>A clock reading that a revocation may bring along without readmitting the token.\<close>

definition read_after :: "'e env_scheme \<Rightarrow> time \<Rightarrow> time \<Rightarrow> io \<Rightarrow> bool" where
  "read_after env iat t io \<longleftrightarrow> io_redis io \<longrightarrow>
     iat < io_now io \<and> datetime_ok (io_now io) \<and> t < io_redis_at io + access_token_ttl_seconds env * sec"

definition stays_refused :: "int \<Rightarrow> time \<Rightarrow> time \<Rightarrow> 'z world_scheme \<Rightarrow> 'z world_scheme \<Rightarrow> bool" where
  "stays_refused uid iat t w w' \<longleftrightarrow> (user_refused uid iat t w \<longrightarrow> user_refused uid iat t w')"

lemma user_refused_cong: "redis w' = redis w \<Longrightarrow> user_refused uid iat t w' = user_refused uid iat t w"
  by (simp add: user_refused_def redis_get_def)

lemma stays_refused_redis:
  assumes "redis w' = redis w"
  shows "stays_refused uid iat t w w'"
  using user_refused_cong [OF assms, of uid iat t] by (simp add: stays_refused_def)

lemma revoke_user_refuses:
  assumes "read_after env iat t io" "io_redis io"
  shows "user_refused uid iat t
    (revoke_user (io_redis io) uid (io_now io) (access_token_ttl_seconds env) (io_redis_at io) w)"
  using assms by (simp add: read_after_def bl.revoke_before)

lemma revoke_user_keeps:
  assumes "read_after env iat t io"
  shows "stays_refused uid iat t w
    (revoke_user (io_redis io) v (io_now io) (access_token_ttl_seconds env) (io_redis_at io) w)"
proof (cases "io_redis io")
  case True
  then show ?thesis
    using revoke_user_refuses [OF assms True, of uid w]
    by (cases "uid = v") (simp_all add: stays_refused_def bl.revoke_other)
qed (simp add: stays_refused_def bl.revoke_down)

interpretation refusing: step_contract env "\<lambda>_. True" "\<lambda>_. True" True "read_after env iat t"
    "stays_refused uid iat t" for env uid iat t
proof (unfold_locales, goal_cases)
  case (2 u v w)
  then show ?case by (simp add: stays_refused_def)
next
  case (4 w up j ttl at)
  then show ?case by (cases up) (simp_all add: stays_refused_def bl.block_user bl.block_down)
next
  case 5
  then show ?case by (rule revoke_user_keeps)
next
  case 7
  then show ?case by (blast intro: stays_refused_redis redis_arotate)
next
  case 8
  then show ?case by (blast intro: stays_refused_redis redis_tokens(3))
next
  case 9
  then show ?case by (blast intro: stays_refused_redis redis_accounts(1))
next
  case 10
  then show ?case by (blast intro: stays_refused_redis redis_accounts(3))
next
  case 11
  then show ?case by (blast intro: stays_refused_redis redis_create_user)
next
  case 12
  then show ?case by (blast intro: stays_refused_redis redis_accounts(2))
qed (simp_all add: stays_refused_redis redis_tokens(1))

lemma stable_refused: "stable (stays_refused uid iat t) (user_refused uid iat t)"
  by (simp add: stable_def stays_refused_def)

lemma stable_any: "stable R (\<lambda>_. True)"
  by (simp add: stable_def)

lemma logout_all_refuses:
  assumes "read_after env iat t io" "io_redis io"
  shows "outline (stays_refused uid iat t) (\<lambda>_. user_refused uid iat t) (\<lambda>_. True)
    (logout_all_proc env io uid c (Done a))"
proof -
  let ?tail = "audit_proc env io 0 (event LOGOUT (actor uid c) True (Some [(''scope'', PStr ''all'')])) (Done a)"
  have "guarantees (stays_refused uid iat t)
      (bulk_revoke (\<lambda>t. t_user_id t = uid \<and> active t) (io_now io) ?tail)"
    by (intro refusing.bulk_guarantees refusing.audit_guarantees guarantees.finished) simp
  then have "outline (stays_refused uid iat t) (\<lambda>_. user_refused uid iat t) (user_refused uid iat t)
      (bulk_revoke (\<lambda>t. t_user_id t = uid \<and> active t) (io_now io) ?tail)"
    by (rule outline_guaranteed [OF _ stable_refused pred_proc_all]) simp
  then show ?thesis
    unfolding logout_all_proc_def
    by (rule outline_effect [OF stable_any]) (rule revoke_user_refuses [OF assms])
qed

end
