(* ===== verification/Schedules.thy ===== *)
theory Schedules
  imports Epochs
begin

text \<open>
  The properties of concurrent requests, for every schedule of their steps.
\<close>

subsection \<open>Pools of requests\<close>

definition pool :: "'e env_scheme \<Rightarrow> use_case list \<Rightarrow> ('z world_scheme, exn + returned) proc list" where
  "pool env rqs = map (proc_of env) rqs"

lemma length_pool [simp]: "length (pool env rqs) = length rqs"
  by (simp add: pool_def)

lemma nth_pool [simp]: "j < length rqs \<Longrightarrow> pool env rqs ! j = proc_of env (rqs ! j)"
  by (simp add: pool_def)

definition succeeded :: "('s, exn + 'a) proc list \<Rightarrow> nat \<Rightarrow> bool" where
  "succeeded ps j \<longleftrightarrow> (case ps ! j of Done (Inr x) \<Rightarrow> True | _ \<Rightarrow> False)"

lemma succeeded_iff: "succeeded ps j \<longleftrightarrow> (\<exists>x. ps ! j = Done (Inr x))"
  by (simp add: succeeded_def split: proc.split sum.split)

fun presents :: "'e env_scheme \<Rightarrow> string \<Rightarrow> use_case \<Rightarrow> bool" where
  "presents env h (DoRefresh io raw c) \<longleftrightarrow> hash_refresh_token (env_sha env) raw = h"
| "presents env h _ \<longleftrightarrow> False"

fun registers :: "'e env_scheme \<Rightarrow> string \<Rightarrow> use_case \<Rightarrow> bool" where
  "registers env e (DoRegister io a p c b) \<longleftrightarrow> normalize_email (env_normalize env) a = e"
| "registers env e (DoCreateUser io a p c) \<longleftrightarrow> normalize_email (env_normalize env) a = e"
| "registers env e _ \<longleftrightarrow> False"

text \<open>A request that stores no new token with this digest, and one that gives no address back.\<close>

fun draws_other :: "'e env_scheme \<Rightarrow> string \<Rightarrow> use_case \<Rightarrow> bool" where
  "draws_other env h (DoLogin io e p c) \<longleftrightarrow> hash_refresh_token (env_sha env) (io_refresh io) \<noteq> h"
| "draws_other env h (DoRefresh io raw c) \<longleftrightarrow> hash_refresh_token (env_sha env) (io_refresh io) \<noteq> h"
| "draws_other env h _ \<longleftrightarrow> True"

fun keeps_addresses :: "use_case \<Rightarrow> bool" where
  "keeps_addresses (DoUpdateUser io uid e p a c) \<longleftrightarrow> e = None"
| "keeps_addresses (DoDeleteUser io uid c) \<longleftrightarrow> False"
| "keeps_addresses _ \<longleftrightarrow> True"

lemma admitted_draws: "admitted env (\<lambda>k. k \<noteq> h) (\<lambda>_. True) True (\<lambda>_. True) rq = draws_other env h rq"
  by (cases rq) simp_all

lemma admitted_addresses:
  "admitted env (\<lambda>_. True) (\<lambda>f. f_email f = None) False (\<lambda>_. True) rq = keeps_addresses rq"
  by (cases rq) simp_all

text \<open>A request whose revocations, if it makes any, read the clock after the instant \<open>iat\<close>.\<close>

fun revokes_after :: "'e env_scheme \<Rightarrow> time \<Rightarrow> time \<Rightarrow> use_case \<Rightarrow> bool" where
  "revokes_after env iat t (DoRefresh io raw c) \<longleftrightarrow> read_after env iat t io"
| "revokes_after env iat t (DoLogoutAll io uid c) \<longleftrightarrow> read_after env iat t io"
| "revokes_after env iat t (DoUpdateUser io uid e p a c) \<longleftrightarrow> read_after env iat t io"
| "revokes_after env iat t _ \<longleftrightarrow> True"

lemma admitted_after:
  "admitted env (\<lambda>_. True) (\<lambda>_. True) True (read_after env iat t) rq = revokes_after env iat t rq"
  by (cases rq) simp_all

lemma presents_contends:
  assumes "presents env h rq"
  shows "contends db_ok (spent_hash h) is_ok (proc_of env rq)"
proof -
  obtain io raw c where rq: "rq = DoRefresh io raw c" "hash_refresh_token (env_sha env) raw = h"
    using assms by (cases rq) simp_all
  have "(\<lambda>a. is_ok (map_sum id Pair_returned a :: exn + returned)) = is_ok"
    by (rule ext) (simp add: is_ok_def split: sum.split)
  with refresh_contends [of env raw io c] show ?thesis unfolding rq by (simp add: rq(2))
qed

lemma registers_contends:
  assumes "registers env e rq"
  shows "contends db_ok (taken e) is_ok (proc_of env rq)"
proof -
  have w: "(\<lambda>a. is_ok (map_sum id User_returned a :: exn + returned)) = is_ok"
    by (rule ext) (simp add: is_ok_def split: sum.split)
  show ?thesis
    using assms
    by (cases rq) (auto simp: w admin_create_proc_def intro!: register_contends)
qed

lemma one_success:
  fixes spent :: "'z world_scheme \<Rightarrow> bool" and w :: "'z world_scheme"
  assumes "\<forall>p \<in> set (pool env rqs). guarantees (stays_spent db_ok spent) p"
    and "\<And>rq. claims rq \<Longrightarrow> contends db_ok spent is_ok (proc_of env rq)"
    and "db_ok w" "interleave is (pool env rqs, w) = (ps, w')"
  shows "card {j. j < length rqs \<and> claims (rqs ! j) \<and> succeeded ps j} \<le> 1"
proof -
  have "succeeded ps j \<Longrightarrow> \<exists>a. ps ! j = Done a \<and> is_ok a" for j
    by (auto simp: succeeded_iff)
  from one_winner [OF assms(1) _ assms(3,4) this, of "\<lambda>j. claims (rqs ! j)"] assms(2)
  show ?thesis by simp
qed

subsection \<open>Schedules that exclude each other\<close>

primrec perform_all ::
  "'e env_scheme \<Rightarrow> use_case list \<Rightarrow> 'z world_scheme \<Rightarrow> (exn + returned) list \<times> 'z world_scheme" where
  "perform_all env [] w = ([], w)"
| "perform_all env (rq # rqs) w =
     (case perform env rq w of (r, w1) \<Rightarrow> case perform_all env rqs w1 of (rs, w2) \<Rightarrow> (r # rs, w2))"

lemma run_all_pool: "run_all (pool env rqs) w = perform_all env rqs w"
  by (induction rqs arbitrary: w) (simp_all add: pool_def run_proc_of)

subsection \<open>A request in its pool\<close>

lemma request_outline:
  assumes "db_ok w" "interleave is1 (pool env rqs, w) = (ps1, w1)" "interleave is2 (ps1, w1) = (ps2, w2)"
    and "j < length rqs" "j \<notin> set is1" "ps2 ! j = Done a"
    and "db_ok w1 \<Longrightarrow> outline sound_step Q (since w1) (proc_of env (rqs ! j))"
  shows "Q a w2"
proof -
  have g: "\<forall>p \<in> set (pool env rqs). guarantees sound_step p"
    unfolding pool_def by (rule sound.pool_guarantees) simp
  have "sound_step w w1"
    by (rule interleave_guarantees [OF g sound.reflexive sound.transitive assms(2)])
  with assms(1) have ok: "db_ok w1" by (simp add: sound_step_def)
  have len: "j < length ps1" using interleave_length [OF assms(2)] assms(4) by simp
  have "ps1 ! j = proc_of env (rqs ! j)"
    using interleave_waiting [OF assms(2,5)] assms(4) by simp
  with assms(7) [OF ok] have "outline sound_step Q (since w1) (ps1 ! j)" by simp
  from interleave_outline [OF interleave_pool_guarantees [OF g sound.reflexive assms(2)]
      sound.reflexive this since_start [OF ok] len assms(3,6)]
  show ?thesis .
qed

subsection \<open>Sample requests\<close>

definition io_at :: "time \<Rightarrow> string \<Rightarrow> io" where
  "io_at now fresh = (sample_io fresh)\<lparr>io_now := now, io_issued := now, io_redis_at := now\<rparr>"

text \<open>User 2 has the family \<open>fam\<close> with the used token \<open>a\<close> and the live one \<open>b\<close>.\<close>

definition chain_row :: "int \<Rightarrow> string \<Rightarrow> int option \<Rightarrow> time option \<Rightarrow> refresh_token_row" where
  "chain_row i raw parent revoked = (session_row revoked)\<lparr>t_id := i, t_parent_id := parent,
     t_token_hash := hash_refresh_token (env_sha sample_env) raw\<rparr>"

definition chain_world :: world where
  "chain_world = sample_world\<lparr>refresh_tokens := \<lparr>rows = [chain_row 7 ''a'' None (Some (5 * sec)),
     chain_row 8 ''b'' (Some 7) None], next_id = 9\<rparr>\<rparr>"

lemma chain_next_id: "next_id (refresh_tokens chain_world) = 9"
  by (simp add: chain_world_def)

lemma chain_db_ok: "db_ok chain_world"
proof -
  have "db_ok sample_world" unfolding sample_world_def by (rule sample_db_ok)
  then show ?thesis
    using sample_hash [of "CHR ''a''"] sample_hash [of "CHR ''b''"]
    by (simp add: db_ok_def ok_defs chain_world_def chain_row_def session_row_def token_links_ok_def
        ids_ok_def sample_world_def sample_defs token_fits_def too_long_def)
qed

text \<open>The live tokens of a world, as the digests they are stored under.\<close>

definition live_hashes :: "'z db_scheme \<Rightarrow> string list" where
  "live_hashes s = map t_token_hash (filter active (tokens s))"

subsection \<open>Properties\<close>

text \<open>
  Single use under concurrency: whatever use cases run at the same time and however their steps
  interleave, of all the refreshes that present the same refresh token at most one is answered with a
  new token pair. Nobody else is assumed to draw the same random token again.
\<close>

theorem concurrent_single_use:
  assumes "db_ok w" "\<forall>rq \<in> set rqs. draws_other env h rq"
    and "interleave is (pool env rqs, w) = (ps, w')"
  shows "card {j. j < length rqs \<and> presents env h (rqs ! j) \<and> succeeded ps j} \<le> 1"
proof -
  have "\<forall>p \<in> set (pool env rqs). guarantees (stays_spent db_ok (spent_hash h)) p"
    unfolding pool_def by (rule spending.pool_guarantees) (use assms(2) in \<open>simp add: admitted_draws\<close>)
  then show ?thesis using presents_contends assms(1,3) by (rule one_success)
qed

definition twice :: "use_case list" where
  "twice = [DoRefresh (io_at (10 * sec) ''x'') ''b'' sample_context,
     DoRefresh (io_at (10 * sec) ''y'') ''b'' sample_context]"

theorem concurrent_single_use_witness:
  "let ps = fst (interleave [0, 1, 0, 1, 0, 1, 0, 1, 0, 1, 0, 1] (pool sample_env twice, chain_world))
   in succeeded ps 0 \<and>
     card {j. j < length twice \<and> presents sample_env (hash_refresh_token (env_sha sample_env) ''b'')
       (twice ! j) \<and> succeeded ps j} \<le> 1"
proof -
  let ?c = "interleave [0, 1, 0, 1, 0, 1, 0, 1, 0, 1, 0, 1] (pool sample_env twice, chain_world)"
  have "succeeded (fst ?c) 0" by code_simp
  moreover have "\<forall>rq \<in> set twice. draws_other sample_env (hash_refresh_token (env_sha sample_env) ''b'') rq"
    by code_simp
  from concurrent_single_use [OF chain_db_ok this surjective_pairing] have
    "card {j. j < length twice \<and> presents sample_env (hash_refresh_token (env_sha sample_env) ''b'')
       (twice ! j) \<and> succeeded (fst ?c) j} \<le> 1" .
  ultimately show ?thesis unfolding Let_def by blast
qed

text \<open>
  One account per address under concurrency: of all the registrations and user creations that run
  at the same time for addresses with the same normal form, at most one succeeds, whatever other
  requests that neither delete an account nor change an address run with them.
\<close>

theorem concurrent_registration_unique:
  assumes "db_ok w" "\<forall>rq \<in> set rqs. keeps_addresses rq"
    and "interleave is (pool env rqs, w) = (ps, w')"
  shows "card {j. j < length rqs \<and> registers env e (rqs ! j) \<and> succeeded ps j} \<le> 1"
proof -
  have "\<forall>p \<in> set (pool env rqs). guarantees (stays_spent db_ok (taken e)) p"
    unfolding pool_def by (rule taking.pool_guarantees) (use assms(2) in \<open>simp add: admitted_addresses\<close>)
  then show ?thesis using registers_contends assms(1,3) by (rule one_success)
qed

definition two_bobs :: "use_case list" where
  "two_bobs = [DoRegister (io_at (10 * sec) ''x'') ''bob@x.io'' ''pw'' sample_context True,
     DoCreateUser (io_at (10 * sec) ''y'') ''Bob@X.io'' ''pw'' sample_context]"

theorem concurrent_registration_unique_witness:
  "let ps = fst (interleave [0, 1, 1, 0, 0, 1, 0, 1, 0, 1] (pool sample_env two_bobs, sample_world))
   in succeeded ps 1 \<and>
     card {j. j < length two_bobs \<and> registers sample_env ''bob@x.io'' (two_bobs ! j) \<and> succeeded ps j} \<le> 1"
proof -
  let ?c = "interleave [0, 1, 1, 0, 0, 1, 0, 1, 0, 1] (pool sample_env two_bobs, sample_world)"
  have "succeeded (fst ?c) 1" by code_simp
  moreover have ok: "db_ok sample_world" unfolding sample_world_def by (rule sample_db_ok)
  have "\<forall>rq \<in> set two_bobs. keeps_addresses rq" by code_simp
  from concurrent_registration_unique [OF ok this surjective_pairing] have
    "card {j. j < length two_bobs \<and> registers sample_env ''bob@x.io'' (two_bobs ! j) \<and>
       succeeded (fst ?c) j} \<le> 1" .
  ultimately show ?thesis unfolding Let_def by blast
qed

text \<open>
  Consistency under concurrency: at every point of every schedule of any use cases the data
  invariant holds (keys, lengths, uniqueness, references), the stored addresses are canonical, the
  catalog of roles and permissions is the one it was, and the audit trail has only grown at its end.
\<close>

theorem concurrent_consistency:
  assumes "db_ok w" "emails_canonical w" "interleave is (pool env rqs, w) = (ps, w')"
  shows "db_ok w' \<and> emails_canonical w' \<and> catalog_of w' = catalog_of w \<and>
    prefix (rows (audit_logs w)) (rows (audit_logs w'))"
proof -
  have "sound_step w w'"
    by (rule sound.schedule_keeps [OF _ assms(3) [unfolded pool_def]]) simp
  with assms(1,2) show ?thesis by (simp add: sound_step_def)
qed

theorem concurrent_consistency_witness:
  "db_ok (snd (interleave [0, 1, 1, 0, 1] (pool sample_env two_bobs, sample_world)))"
proof -
  have ok: "db_ok sample_world" "emails_canonical sample_world"
    unfolding sample_world_def by (rule sample_db_ok, rule sample_emails_canonical)
  then show ?thesis using concurrent_consistency [OF ok surjective_pairing] by blast
qed

text \<open>
  The steps compose to the use cases: the schedule that gives each process of a pool its turn, one
  after the other, yields the answers and the world of the use cases of \<open>AuthService\<close> and
  \<open>AdminService\<close> performed in that order; in particular every process is finished after seven steps.
\<close>

theorem serial_schedule:
  "interleave (serial 7 0 (length rqs)) (pool env rqs, w) =
    (case perform_all env rqs w of (rs, w') \<Rightarrow> (map Done rs, w'))"
proof -
  have "\<forall>p \<in> set (pool env rqs). within 7 p" by (simp add: pool_def within_proc_of)
  from interleave_serial [OF this, of "[]" w] show ?thesis by (simp add: run_all_pool)
qed

text \<open>
  In any schedule, whatever the other requests do meanwhile, a request that has had seven turns is
  finished with an answer. A turn stands for a statement that has got its row locks: how long it waits
  for them, and deadlocks, are not part of the model.
\<close>

theorem request_answered:
  assumes "interleave is (pool env rqs, w) = (ps, w')" "j < length rqs" "7 \<le> count_list is j"
  shows "\<exists>a. ps ! j = Done a"
  by (rule interleave_finishes [OF assms(1) _ _ assms(3)]) (simp_all add: assms(2) within_proc_of)

theorem request_answered_witness:
  "\<exists>a. fst (interleave [0, 1, 0, 1, 0, 1, 0, 1, 0, 1, 0, 1, 0, 1] (pool sample_env twice, chain_world)) ! 1
     = Done a"
  by (rule request_answered [OF surjective_pairing]) (simp_all add: twice_def)

text \<open>
  What a logout from all sessions reaches under concurrency: when the request is answered, every
  refresh token of the user that was stored when the request started is dead, whatever ran before it
  and whatever runs with it.
\<close>

theorem logout_all_reaches:
  assumes "db_ok w" "interleave is1 (pool env rqs, w) = (ps1, w1)" "interleave is2 (ps1, w1) = (ps2, w2)"
    and "j < length rqs" "rqs ! j = DoLogoutAll io uid c" "j \<notin> set is1" "ps2 ! j = Done a"
  shows "\<forall>t \<in> set (tokens w2). t_user_id t = uid \<and> t_id t < next_id (refresh_tokens w1) \<longrightarrow> \<not> active t"
proof -
  have "dead_before w1 (\<lambda>t. t_user_id t = uid) w2"
    by (rule request_outline [OF assms(1-4,6,7)])
      (simp add: assms(5) logout_all_outline)
  then show ?thesis by (simp add: dead_before_def)
qed

definition leaving :: "use_case list" where
  "leaving = [DoLogoutAll (io_at (10 * sec) ''x'') 2 sample_context,
     DoRefresh (io_at (10 * sec) ''y'') ''b'' sample_context]"

theorem logout_all_reaches_witness:
  "filter (\<lambda>t. t_user_id t = 2 \<and> t_id t < 9 \<and> active t)
     (tokens (snd (interleave [0, 0, 1, 0, 0, 0, 1, 1, 1, 1, 1] (pool sample_env leaving, chain_world)))) = []"
proof -
  let ?c = "interleave [0, 0, 1, 0, 0, 0, 1, 1, 1, 1, 1] (pool sample_env leaving, chain_world)"
  have "(case fst ?c ! 0 of Done a \<Rightarrow> True | Step f \<Rightarrow> False)" by code_simp
  then obtain a where "fst ?c ! 0 = Done a" by (auto split: proc.splits)
  note fin = this
  have rq: "0 < length leaving" "leaving ! 0 = DoLogoutAll (io_at (10 * sec) ''x'') 2 sample_context"
    "0 \<notin> set ([] :: nat list)" by (simp_all add: leaving_def)
  have "\<forall>t \<in> set (tokens (snd ?c)). t_user_id t = 2 \<and> t_id t < next_id (refresh_tokens chain_world) \<longrightarrow>
      \<not> active t"
    by (rule logout_all_reaches [OF chain_db_ok interleave.simps(1) surjective_pairing rq fin])
  then have "\<forall>t \<in> set (tokens (snd ?c)). \<not> (t_user_id t = 2 \<and> t_id t < 9 \<and> active t)"
    unfolding chain_next_id by blast
  then show ?thesis unfolding filter_empty_conv .
qed

text \<open>
  A logout from all sessions cuts off the access tokens under concurrency: once the request is
  answered, and Redis took its epoch, every token of the user that was issued at \<open>iat\<close> is refused at
  any time \<open>t\<close> at which the entry lives, whatever runs with it, provided that every request not yet
  answered when the logout started makes its revocations with a clock reading after \<open>iat\<close>.
\<close>

theorem logout_all_cuts_access:
  assumes "interleave is1 (pool env rqs, w) = (ps1, w1)" "interleave is2 (ps1, w1) = (ps2, w2)"
    and "j < length rqs" "rqs ! j = DoLogoutAll io uid c" "j \<notin> set is1" "ps2 ! j = Done a" "io_redis io"
    and "\<forall>i < length rqs. revokes_after env iat t (rqs ! i) \<or> (\<exists>b. ps1 ! i = Done b)"
  shows "is_blocked True jti uid iat t w2"
proof -
  have len: "length ps1 = length rqs" using interleave_length [OF assms(1)] by simp
  have waiting: "ps1 ! j = logout_all_proc env io uid c (Done (Inr Nothing_returned))"
    using interleave_waiting [OF assms(1,5)] assms(3,4) by simp
  have "guarantees (stays_refused uid iat t) (ps1 ! i)" if i: "i < length rqs" for i
  proof (cases "revokes_after env iat t (rqs ! i)")
    case True
    then have "guarantees (stays_refused uid iat t) (pool env rqs ! i)"
      using refusing.use_case_guarantees i by (simp add: admitted_after)
    then show ?thesis
      by (rule interleave_guarantees_nth [OF _ refusing.reflexive _ assms(1)]) (simp add: i)
  next
    case False
    with assms(8) i obtain b where "ps1 ! i = Done b" by blast
    then show ?thesis by simp
  qed
  then have g: "\<forall>p \<in> set ps1. guarantees (stays_refused uid iat t) p"
    using len by (auto simp: in_set_conv_nth)
  have "read_after env iat t io"
    using assms(3,4,8) waiting by (auto simp: logout_all_proc_def effect_def atomic_def)
  from logout_all_refuses [OF this assms(7)] waiting
  have "outline (stays_refused uid iat t) (\<lambda>_. user_refused uid iat t) (\<lambda>_. True) (ps1 ! j)" by simp
  from interleave_outline [OF g refusing.reflexive this TrueI _ assms(2,6)] len assms(3)
  show ?thesis by (simp add: is_blocked_iff)
qed

theorem logout_all_cuts_access_witness:
  "is_blocked True ''j'' 2 (9 * sec) (20 * sec)
     (snd (interleave [0, 0, 1, 0, 0, 0, 1, 1, 1, 1, 1] (pool sample_env leaving, chain_world)))"
proof -
  let ?c = "interleave [0, 0, 1, 0, 0, 0, 1, 1, 1, 1, 1] (pool sample_env leaving, chain_world)"
  have "(case fst ?c ! 0 of Done a \<Rightarrow> True | Step f \<Rightarrow> False)" by code_simp
  then obtain a where fin: "fst ?c ! 0 = Done a" by (auto split: proc.splits)
  have rq: "0 < length leaving" "leaving ! 0 = DoLogoutAll (io_at (10 * sec) ''x'') 2 sample_context"
    "0 \<notin> set ([] :: nat list)" "io_redis (io_at (10 * sec) ''x'')"
    by (simp_all add: leaving_def io_at_def)
  have "list_all (revokes_after sample_env (9 * sec) (20 * sec)) leaving" by code_simp
  then have "\<forall>i < length leaving. revokes_after sample_env (9 * sec) (20 * sec) (leaving ! i) \<or>
      (\<exists>b. pool sample_env leaving ! i = (Done b :: (world, exn + returned) proc))"
    by (simp add: list_all_length)
  from logout_all_cuts_access [OF interleave.simps(1) surjective_pairing rq(1-3) fin rq(4) this]
  show ?thesis .
qed

text \<open>
  C10. What a detected replay reaches under concurrency: when a refresh is answered with
  \<open>TokenReused\<close>, every token of the family of the presented one that was stored when the request
  started is dead, unless the presented token has been deleted with its user.
\<close>

theorem replay_reaches:
  assumes "db_ok w" "interleave is1 (pool env rqs, w) = (ps1, w1)" "interleave is2 (ps1, w1) = (ps2, w2)"
    and "j < length rqs" "rqs ! j = DoRefresh io raw c" "j \<notin> set is1"
    and "ps2 ! j = Done (Inl (raise_domain TokenReused))"
    and "token_by_hash (hash_refresh_token (env_sha env) raw) w1 = Some t"
    and "t_id t \<in> t_id ` set (tokens w2)"
  shows "\<forall>u \<in> set (tokens w2).
    t_family_id u = t_family_id t \<and> t_id u < next_id (refresh_tokens w1) \<longrightarrow> \<not> active u"
proof -
  let ?claim = "\<lambda>(a :: exn + returned) w. not_reuse a \<or> t_id t \<notin> t_id ` set (tokens w) \<or>
    dead_before w1 (\<lambda>u. t_family_id u = t_family_id t) w"
  have keep: "not_reuse (map_sum id Pair_returned a :: exn + returned) = not_reuse a" for a :: "exn + token_pair"
    by (cases a) (simp_all add: not_reuse_def)
  have "outline sound_step ?claim (since w1) (proc_of env (rqs ! j))" if "db_ok w1"
    unfolding assms(5) proc_of.simps
    by (rule outline_map_proc) (unfold keep, rule refresh_outline [OF that assms(8)])
  then have "?claim (Inl (raise_domain TokenReused)) w2"
    by (rule request_outline [OF assms(1-4,6,7)])
  then show ?thesis using assms(9) by (simp add: not_reuse_def dead_before_def)
qed

definition replaying :: "use_case list" where
  "replaying = [DoRefresh (io_at (10 * sec) ''x'') ''a'' sample_context,
     DoRefresh (io_at (10 * sec) ''y'') ''b'' sample_context]"

theorem replay_reaches_witness:
  "filter (\<lambda>t. t_family_id t = ''fam'' \<and> t_id t < 9 \<and> active t)
     (tokens (snd (interleave [0, 0, 1, 0, 0, 0, 0, 1, 1, 1, 1] (pool sample_env replaying, chain_world)))) = []"
proof -
  let ?c = "interleave [0, 0, 1, 0, 0, 0, 0, 1, 1, 1, 1] (pool sample_env replaying, chain_world)"
  have "(case fst ?c ! 0 of Done (Inl e) \<Rightarrow> e = raise_domain TokenReused | _ \<Rightarrow> False)" by code_simp
  then have reused: "fst ?c ! 0 = Done (Inl (raise_domain TokenReused))"
    by (simp split: proc.splits sum.splits)
  have t: "token_by_hash (hash_refresh_token (env_sha sample_env) ''a'') chain_world =
      Some (chain_row 7 ''a'' None (Some (5 * sec)))"
    by (simp add: token_by_hash_def chain_world_def chain_row_def)
  have "7 \<in> t_id ` set (tokens (snd ?c))" by code_simp
  then have in_c: "t_id (chain_row 7 ''a'' None (Some (5 * sec))) \<in> t_id ` set (tokens (snd ?c))"
    by (simp add: chain_row_def)
  have rq: "0 < length replaying" "replaying ! 0 = DoRefresh (io_at (10 * sec) ''x'') ''a'' sample_context"
    "0 \<notin> set ([] :: nat list)" by (simp_all add: replaying_def)
  have fam: "t_family_id (chain_row 7 ''a'' None (Some (5 * sec))) = ''fam''"
    by (simp add: chain_row_def session_row_def)
  have "\<forall>u \<in> set (tokens (snd ?c)). t_family_id u = ''fam'' \<and>
      t_id u < next_id (refresh_tokens chain_world) \<longrightarrow> \<not> active u"
    by (rule replay_reaches [OF chain_db_ok interleave.simps(1) surjective_pairing rq reused t in_c,
          unfolded fam])
  then have "\<forall>u \<in> set (tokens (snd ?c)). \<not> (t_family_id u = ''fam'' \<and> t_id u < 9 \<and> active u)"
    unfolding chain_next_id by blast
  then show ?thesis unfolding filter_empty_conv .
qed

end
