(* ===== verification/Requests.thy ===== *)
theory Requests
  imports Schedules
begin

text \<open>
  HTTP requests as processes: the bearer callback and the guard of \<open>apps/authz/api/auth.py\<close>, then the
  handler of \<open>apps/authz/api/routers\<close> with the use case it calls. Authentication is the first step of
  a request that needs it, each query of a listing is a step, and the response is made of what the
  steps returned. Alone, a request does what \<open>serve\<close> does (lemma \<open>run_request_proc\<close>).
  \<open>serve_all\<close> serves requests one after the other.
\<close>

subsection \<open>Handlers as processes\<close>

definition checked ::
  "exn + 'p \<Rightarrow> ('p \<Rightarrow> ('s, exn + 'a) proc) \<Rightarrow> ('s, exn + 'a) proc" where
  "checked r f = (case r of Inl e \<Rightarrow> Done (Inl e) | Inr x \<Rightarrow> f x)"

definition respond_with ::
  "('a \<Rightarrow> exn + 'b) \<Rightarrow> ('s, exn + 'a) proc \<Rightarrow> ('s, exn + 'b) proc" where
  "respond_with k p = map_proc (\<lambda>r. bind_sum r k) p"

definition permitted :: "string \<Rightarrow> principal option \<Rightarrow> exn + principal" where
  "permitted permission_code auth =
     (case auth of
        None \<Rightarrow> Inl (raise_domain PermissionDenied)
      | Some p \<Rightarrow>
          if permission_code \<notin> pr_permissions p then Inl (raise_domain PermissionDenied) else Inr p)"

definition in_context ::
  "'e env_scheme \<Rightarrow> http_request \<Rightarrow> principal option \<Rightarrow> (audit_context \<Rightarrow> ('s, exn + 'a) proc) \<Rightarrow>
     ('s, exn + 'a) proc" where
  "in_context env request auth f =
     checked (from_request (cfg_trusted_proxy_cidrs env) request (map_option pr_user_id auth)) f"

definition register_route ::
  "'e env_scheme \<Rightarrow> io \<Rightarrow> http_request \<Rightarrow> register_in \<Rightarrow> ('z world_scheme, exn + reply) proc" where
  "register_route env io request payload = respond_with
     (\<lambda>u. bind_sum (auth_user_out env u) (\<lambda>o'. Inr (reply_created (UserData o') ''User registered.'')))
     (in_context env request None
       (\<lambda>c. register_proc env io (in_email payload) (in_password payload) c True Done))"

definition login_route ::
  "'e env_scheme \<Rightarrow> io \<Rightarrow> http_request \<Rightarrow> register_in \<Rightarrow> ('z world_scheme, exn + reply) proc" where
  "login_route env io request payload = respond_with
     (\<lambda>p. Inr (reply_ok (Some (TokenPairData (token_pair_response p))) ''Authenticated.''))
     (in_context env request None (\<lambda>c. login_proc env io (in_email payload) (in_password payload) c))"

definition refresh_route ::
  "'e env_scheme \<Rightarrow> io \<Rightarrow> http_request \<Rightarrow> string \<Rightarrow> ('z world_scheme, exn + reply) proc" where
  "refresh_route env io request token = respond_with
     (\<lambda>p. Inr (reply_ok (Some (TokenPairData (token_pair_response p))) ''Token refreshed.''))
     (in_context env request None (\<lambda>c. refresh_proc env io token c))"

definition logout_route ::
  "'e env_scheme \<Rightarrow> io \<Rightarrow> http_request \<Rightarrow> principal option \<Rightarrow> string \<Rightarrow>
     ('z world_scheme, exn + reply) proc" where
  "logout_route env io request auth token = checked (the_principal auth) (\<lambda>p. respond_with
     (\<lambda>_. Inr (reply_ok None ''Logged out.''))
     (in_context env request auth (\<lambda>c. logout_proc env io token c (Some (pr_jti p))
       (Some (remaining_access_ttl io p)) (Done (Inr ())))))"

definition logout_all_route ::
  "'e env_scheme \<Rightarrow> io \<Rightarrow> http_request \<Rightarrow> principal option \<Rightarrow> ('z world_scheme, exn + reply) proc" where
  "logout_all_route env io request auth = checked (the_principal auth) (\<lambda>p. respond_with
     (\<lambda>_. Inr (reply_ok None ''Logged out from all sessions.''))
     (in_context env request auth (\<lambda>c. logout_all_proc env io (pr_user_id p) c (Done (Inr ())))))"

definition me_route ::
  "'e env_scheme \<Rightarrow> principal option \<Rightarrow> ('z world_scheme, exn + reply) proc" where
  "me_route env auth = checked (the_principal auth) (\<lambda>p.
     query (aget_active_email (pr_user_id p)) (\<lambda>email. Done
       (bind_sum email (\<lambda>email. bind_sum (out_email env email) (\<lambda>e.
         Inr (reply_ok (Some (MeData \<lparr>me_id = pr_user_id p, me_email = e,
           me_roles = sorted_list_of_set (pr_roles p),
           me_permissions = sorted_list_of_set (pr_permissions p)\<rparr>)) ''Profile fetched.''))))))"

text \<open>A listing: the rows of the page and the total are two queries, in the order of the source.\<close>

definition listing ::
  "('s \<Rightarrow> exn + 'r list) \<Rightarrow> ('s \<Rightarrow> int) \<Rightarrow> ('r list \<Rightarrow> int \<Rightarrow> exn + reply) \<Rightarrow> ('s, exn + reply) proc" where
  "listing pageq countq k =
     query pageq (\<lambda>r. checked r (\<lambda>xs. query countq (\<lambda>n. Done (k xs n))))"

definition list_users_route ::
  "'e env_scheme \<Rightarrow> int \<Rightarrow> int \<Rightarrow> ('z world_scheme, exn + reply) proc" where
  "list_users_route env off lim =
     (let (off, lim) = pagination off lim
      in listing (user_alist off lim) user_acount (\<lambda>us n.
           bind_sum (map_result (make_user_out env) us) (\<lambda>its.
             Inr (reply_ok (Some (UsersPage \<lparr>pg_items = its, pg_total = n, pg_offset = off,
               pg_limit = lim\<rparr>)) ''Users fetched.''))))"

definition list_roles_route :: "int \<Rightarrow> int \<Rightarrow> ('z world_scheme, exn + reply) proc" where
  "list_roles_route off lim =
     (let (off, lim) = rbac_pagination off lim
      in listing (alist_roles off lim) acount_roles (\<lambda>rs n.
           Inr (reply_ok (Some (RolesPage \<lparr>pg_items = map make_role_out rs, pg_total = n,
             pg_offset = off, pg_limit = lim\<rparr>)) ''Roles fetched.'')))"

definition list_permissions_route :: "int \<Rightarrow> int \<Rightarrow> ('z world_scheme, exn + reply) proc" where
  "list_permissions_route off lim =
     (let (off, lim) = rbac_pagination off lim
      in listing (alist_permissions off lim) acount_permissions (\<lambda>ps n.
           Inr (reply_ok (Some (PermissionsPage \<lparr>pg_items = map make_permission_out ps, pg_total = n,
             pg_offset = off, pg_limit = lim\<rparr>)) ''Permissions fetched.'')))"

text \<open>The audit listing counts first.\<close>

definition list_audit_logs_route ::
  "'e env_scheme \<Rightarrow> int \<Rightarrow> int \<Rightarrow> audit_query \<Rightarrow> ('z world_scheme, exn + reply) proc" where
  "list_audit_logs_route env off lim q =
     (let (off, lim) = rbac_pagination off lim
      in query (audit_total q) (\<lambda>n. query (audit_page off lim q) (\<lambda>r. checked r (\<lambda>as. Done
           (bind_sum (map_result (make_audit_log_out env) as) (\<lambda>its.
             Inr (reply_ok (Some (AuditLogsPage \<lparr>pg_items = its, pg_total = n, pg_offset = off,
               pg_limit = lim\<rparr>)) ''Audit logs fetched.'')))))))"

definition create_user_route ::
  "'e env_scheme \<Rightarrow> io \<Rightarrow> http_request \<Rightarrow> principal \<Rightarrow> register_in \<Rightarrow>
     ('z world_scheme, exn + reply) proc" where
  "create_user_route env io request p payload = respond_with
     (\<lambda>u. bind_sum (make_user_out env u) (\<lambda>o'. Inr (reply_created (UserData o') ''User created.'')))
     (in_context env request (Some p)
       (\<lambda>c. admin_create_proc env io (in_email payload) (in_password payload) c))"

definition get_user_route ::
  "'e env_scheme \<Rightarrow> int \<Rightarrow> ('z world_scheme, exn + reply) proc" where
  "get_user_route env uid = query (get_user uid) (\<lambda>r. Done (bind_sum r (\<lambda>u.
     bind_sum (make_user_out env u) (\<lambda>o'. Inr (reply_ok (Some (UserData o')) ''User fetched.'')))))"

definition update_user_route ::
  "'e env_scheme \<Rightarrow> io \<Rightarrow> http_request \<Rightarrow> principal \<Rightarrow> int \<Rightarrow> user_update_in \<Rightarrow>
     ('z world_scheme, exn + reply) proc" where
  "update_user_route env io request p uid payload = respond_with
     (\<lambda>u. bind_sum (make_user_out env u) (\<lambda>o'. Inr (reply_ok (Some (UserData o')) ''User updated.'')))
     (in_context env request (Some p) (\<lambda>c. update_user_proc env io uid (up_email payload)
       (up_password payload) (up_is_active payload) c))"

definition delete_user_route ::
  "'e env_scheme \<Rightarrow> io \<Rightarrow> http_request \<Rightarrow> principal \<Rightarrow> int \<Rightarrow> ('z world_scheme, exn + reply) proc" where
  "delete_user_route env io request p uid = respond_with
     (\<lambda>_. Inr (reply_ok None ''User deleted.''))
     (in_context env request (Some p) (\<lambda>c. delete_user_proc env io uid c))"

definition assign_role_route ::
  "'e env_scheme \<Rightarrow> io \<Rightarrow> http_request \<Rightarrow> principal \<Rightarrow> int \<Rightarrow> int \<Rightarrow>
     ('z world_scheme, exn + reply) proc" where
  "assign_role_route env io request p uid rid = respond_with
     (\<lambda>_. Inr (reply_ok None ''Role assigned.''))
     (in_context env request (Some p) (\<lambda>c. assign_role_proc env io uid rid c))"

subsection \<open>A request\<close>

fun route_proc ::
  "'e env_scheme \<Rightarrow> io \<Rightarrow> http_request \<Rightarrow> principal option \<Rightarrow> api_call \<Rightarrow>
     ('z world_scheme, exn + reply) proc" where
  "route_proc env io request auth (PostRegister e p) =
     checked (valid_register env e p) (register_route env io request)"
| "route_proc env io request auth (PostLogin e p) =
     checked (valid_register env e p) (login_route env io request)"
| "route_proc env io request auth (PostRefresh t) =
     checked (valid_refresh t) (refresh_route env io request)"
| "route_proc env io request auth (PostLogout t) =
     checked (valid_refresh t) (logout_route env io request auth)"
| "route_proc env io request auth PostLogoutAll = logout_all_route env io request auth"
| "route_proc env io request auth GetMe = me_route env auth"
| "route_proc env io request auth (GetUsers off lim) =
     checked (permitted ''user.read'' auth) (\<lambda>_. list_users_route env off lim)"
| "route_proc env io request auth (PostUsers e p) = checked (valid_register env e p)
     (\<lambda>pl. checked (permitted ''user.create'' auth) (\<lambda>pr. create_user_route env io request pr pl))"
| "route_proc env io request auth (GetUser i) =
     checked (permitted ''user.read'' auth) (\<lambda>_. get_user_route env i)"
| "route_proc env io request auth (PatchUser i e p a) = checked (valid_user_update env e p a)
     (\<lambda>pl. checked (permitted ''user.update'' auth) (\<lambda>pr. update_user_route env io request pr i pl))"
| "route_proc env io request auth (DeleteUser i) =
     checked (permitted ''user.delete'' auth) (\<lambda>pr. delete_user_route env io request pr i)"
| "route_proc env io request auth (PostUserRoles i r) = checked (valid_assign_role r)
     (\<lambda>rid. checked (permitted ''role.assign'' auth) (\<lambda>pr. assign_role_route env io request pr i rid))"
| "route_proc env io request auth (GetRoles off lim) =
     checked (permitted ''role.read'' auth) (\<lambda>_. list_roles_route off lim)"
| "route_proc env io request auth (GetPermissions off lim) =
     checked (permitted ''permission.read'' auth) (\<lambda>_. list_permissions_route off lim)"
| "route_proc env io request auth (GetAuditLogs off lim aid action res from_at to_at) =
     checked (permitted ''audit.read'' auth) (\<lambda>_. list_audit_logs_route env off lim
       \<lparr>q_actor_id = aid, q_action = map_option action_value action, q_outcome = res,
        q_from_at = from_at, q_to_at = to_at\<rparr>)"
| "route_proc env io request auth GetHealth =
     Done (Inr (reply_ok (Some (StatusData [(''status'', ''ok'')])) ''Service is healthy.''))"

record api_request =
  hr_io :: io
  hr_allowed :: bool
  hr_http :: http_request
  hr_call :: api_call

definition auth_proc ::
  "'e env_scheme \<Rightarrow> io \<Rightarrow> http_request \<Rightarrow> (principal \<Rightarrow> ('z world_scheme, exn + 'a) proc) \<Rightarrow>
     ('z world_scheme, exn + 'a) proc" where
  "auth_proc env io request k = query (jwt_call env io request) (\<lambda>r. case r of
     Inl e \<Rightarrow> Done (Inl e)
   | Inr None \<Rightarrow> Done (Inl (HttpError 401))
   | Inr (Some p) \<Rightarrow> k p)"

definition request_proc :: "'e env_scheme \<Rightarrow> api_request \<Rightarrow> ('z world_scheme, reply option) proc" where
  "request_proc env q = map_proc respond
     (if needs_auth (hr_call q)
      then auth_proc env (hr_io q) (hr_http q)
        (\<lambda>p. route_proc env (hr_io q) (hr_http q) (Some p) (hr_call q))
      else if throttled (hr_call q) \<and> \<not> hr_allowed q then Done (Inl (HttpError 429))
      else route_proc env (hr_io q) (hr_http q) None (hr_call q))"

subsection \<open>Alone, a request is served\<close>

lemma run_checked_proc: "run (checked r f) w = validated r (\<lambda>x. run (f x)) w"
  by (simp add: checked_def validated_def split: sum.split)

lemma run_respond_with: "run (respond_with k p) w = answer (run p w) k"
  by (simp add: respond_with_def run_map_proc answer_def split: prod.split)

lemma with_context_validated: "with_context env request auth f =
    validated (from_request (cfg_trusted_proxy_cidrs env) request (map_option pr_user_id auth)) f"
  by (rule ext) (simp add: with_context_def validated_def)

lemma require_permission_validated:
  "require_permission c auth view = validated (permitted c auth) view"
  by (rule ext) (simp add: require_permission_def permitted_def validated_def split: option.split)

lemmas route_defs = register_route_def login_route_def refresh_route_def logout_route_def
  logout_all_route_def me_route_def list_users_route_def list_roles_route_def
  list_permissions_route_def list_audit_logs_route_def create_user_route_def get_user_route_def
  update_user_route_def delete_user_route_def assign_role_route_def in_context_def listing_def

lemma run_use_cases:
  "run (register_proc env io e p c b Done) = register env io e p c b"
  "run (login_proc env io e p c) = login env io e p c"
  "run (refresh_proc env io raw c) = refresh env io raw c"
  "run (admin_create_proc env io e p c) = admin_create_user env io e p c"
  "run (update_user_proc env io uid e' p' a c) = update_user env io uid e' p' a c"
  "run (delete_user_proc env io uid c) = delete_user env io uid c"
  "run (assign_role_proc env io uid rid c) = assign_role env io uid rid c"
  by (rule ext, simp add: run_register_proc run_login_proc run_refresh_proc run_admin_create_proc
      run_update_user_proc run_delete_user_proc run_assign_role_proc split: prod.split)+

lemma run_route_proc:
  "run (route_proc env io request auth call) w = run_route env io request auth call w"
  by (cases call)
    (simp_all add: route_defs run_checked_proc run_respond_with run_use_cases run_logout_proc
      run_logout_all_proc with_context_validated require_permission_validated answer_def
      validated_def api_register_def api_login_def api_refresh_def api_logout_def
      api_logout_all_def api_me_def api_list_users_def api_create_user_def api_get_user_def
      api_update_user_def api_delete_user_def api_assign_role_def api_list_roles_def
      api_list_permissions_def api_list_audit_logs_def api_health_def list_users_def
      list_roles_def list_permissions_def list_audit_logs_def audit_alist_def Let_def
      split: sum.split prod.split)

lemma run_auth_proc:
  "run (auth_proc env io request k) w = (case jwt_call env io request w of
     Inl e \<Rightarrow> (Inl e, w) | Inr None \<Rightarrow> (Inl (HttpError 401), w) | Inr (Some p) \<Rightarrow> run (k p) w)"
  by (simp add: auth_proc_def split: sum.split option.split)

lemma run_request_proc:
  "run (request_proc env q) w = serve env (hr_io q) (hr_allowed q) (hr_http q) (hr_call q) w"
  by (simp add: request_proc_def serve_def run_checked_def run_map_proc run_auth_proc run_route_proc
      split: prod.split sum.split option.split)

subsection \<open>A request takes at most eight steps\<close>

lemma within_checked: "(\<And>x. within n (f x)) \<Longrightarrow> within n (checked r f)"
  by (simp add: checked_def split: sum.split)

lemma within_respond_with [simp]: "within n (respond_with k p) \<longleftrightarrow> within n p"
  by (simp add: respond_with_def)

lemma within_use_cases:
  "within 7 (register_proc env io e p c b Done)" "within 7 (login_proc env io e p c)"
  "within 7 (refresh_proc env io raw c)" "within 7 (admin_create_proc env io e p c)"
  "within 7 (update_user_proc env io uid e' p' a c)" "within 7 (delete_user_proc env io uid c)"
  "within 7 (assign_role_proc env io uid rid c)"
  using within_proc_of [of env "DoRegister io e p c b"] within_proc_of [of env "DoLogin io e p c"]
    within_proc_of [of env "DoRefresh io raw c"] within_proc_of [of env "DoCreateUser io e p c"]
    within_proc_of [of env "DoUpdateUser io uid e' p' a c"]
    within_proc_of [of env "DoDeleteUser io uid c"] within_proc_of [of env "DoAssignRole io uid rid c"]
  by simp_all

lemma within_logouts:
  "within 7 (logout_proc env io raw c j n (Done a))" "within 7 (logout_all_proc env io uid c (Done a))"
  by (auto simp: logout_proc_def logout_all_proc_def Let_def split: option.split
      intro!: within_intros)

lemma within_route_proc: "within 7 (route_proc env io request auth call)"
  by (cases call)
    (auto simp: route_defs Let_def split: prod.split
      intro!: within_checked within_use_cases within_logouts within_slack)

lemma within_request_proc: "within 8 (request_proc env q)"
proof -
  have "within 7 (route_proc env io request auth call)" for io request auth call
    by (rule within_route_proc)
  then show ?thesis
    by (auto simp: request_proc_def auth_proc_def split: sum.split option.split
        intro!: within_slack intro: within_mono [OF within_route_proc])
qed

subsection \<open>What the steps of a request guarantee\<close>

text \<open>The requests that stay within the parameters of a \<open>step_contract\<close>.\<close>

fun admitted_call ::
  "'e env_scheme \<Rightarrow> (string \<Rightarrow> bool) \<Rightarrow> (user_fields \<Rightarrow> bool) \<Rightarrow> bool \<Rightarrow> (io \<Rightarrow> bool) \<Rightarrow> io \<Rightarrow>
     api_call \<Rightarrow> bool" where
  "admitted_call env drawn writes deletes timely io (PostLogin e p) \<longleftrightarrow>
     drawn (hash_refresh_token (env_sha env) (io_refresh io))"
| "admitted_call env drawn writes deletes timely io (PostRefresh t) \<longleftrightarrow>
     drawn (hash_refresh_token (env_sha env) (io_refresh io)) \<and> timely io"
| "admitted_call env drawn writes deletes timely io PostLogoutAll \<longleftrightarrow> timely io"
| "admitted_call env drawn writes deletes timely io (PatchUser i e p a) \<longleftrightarrow>
     (case valid_user_update env e p a of
        Inl _ \<Rightarrow> True
      | Inr u \<Rightarrow> writes (update_fields env io (up_email u) (up_password u) (up_is_active u)) \<and> timely io)"
| "admitted_call env drawn writes deletes timely io (DeleteUser i) \<longleftrightarrow> deletes"
| "admitted_call env drawn writes deletes timely io _ \<longleftrightarrow> True"

definition admitted_request ::
  "'e env_scheme \<Rightarrow> (string \<Rightarrow> bool) \<Rightarrow> (user_fields \<Rightarrow> bool) \<Rightarrow> bool \<Rightarrow> (io \<Rightarrow> bool) \<Rightarrow>
     api_request \<Rightarrow> bool" where
  "admitted_request env drawn writes deletes timely q \<longleftrightarrow>
     admitted_call env drawn writes deletes timely (hr_io q) (hr_call q)"

lemma admitted_call_all [simp]: "admitted_call env (\<lambda>_. True) (\<lambda>_. True) True (\<lambda>_. True) io call"
  by (cases call) (simp_all split: sum.split)

lemma admitted_request_all [simp]: "admitted_request env (\<lambda>_. True) (\<lambda>_. True) True (\<lambda>_. True) q"
  by (simp add: admitted_request_def)

lemma guarantees_checked: "(\<And>x. r = Inr x \<Longrightarrow> guarantees R (f x)) \<Longrightarrow> guarantees R (checked r f)"
  by (simp add: checked_def split: sum.split)

lemma guarantees_respond_with [simp]: "guarantees R (respond_with k p) \<longleftrightarrow> guarantees R p"
  by (simp add: respond_with_def)

context step_contract
begin

lemma admin_create_guarantees: "guarantees R (admin_create_proc env io e p c)"
  unfolding admin_create_proc_def
  by (rule register_guarantees) (auto split: sum.split intro!: audit_guarantees)

lemma route_guarantees:
  assumes "admitted_call env drawn writes deletes timely io call"
  shows "guarantees R (route_proc env io request auth call)"
  using assms
  by (cases call)
    (auto simp: route_defs Let_def split: prod.split
      intro!: guarantees_checked guarantee_intros register_guarantees login_guarantees
        refresh_guarantees logout_guarantees logout_all_guarantees admin_create_guarantees
        update_user_guarantees delete_user_guarantees assign_role_guarantees)

lemma request_guarantees:
  "admitted_request env drawn writes deletes timely q \<Longrightarrow> guarantees R (request_proc env q)"
  by (auto simp: request_proc_def auth_proc_def admitted_request_def split: sum.split option.split
      intro!: guarantee_intros route_guarantees)

lemma requests_keep:
  assumes "\<forall>q \<in> set qs. admitted_request env drawn writes deletes timely q"
    and "interleave is (map (request_proc env) qs, w) = (ps, w')"
  shows "R w w'"
  by (rule interleave_guarantees [OF _ reflexive transitive assms(2)])
    (use assms(1) request_guarantees in auto)

end

subsection \<open>Requests at the same time\<close>

definition requests ::
  "'e env_scheme \<Rightarrow> api_request list \<Rightarrow> ('z world_scheme, reply option) proc list" where
  "requests env qs = map (request_proc env) qs"

lemma length_requests [simp]: "length (requests env qs) = length qs"
  by (simp add: requests_def)

lemma nth_requests [simp]: "j < length qs \<Longrightarrow> requests env qs ! j = request_proc env (qs ! j)"
  by (simp add: requests_def)

primrec serve_all ::
  "'e env_scheme \<Rightarrow> api_request list \<Rightarrow> 'z world_scheme \<Rightarrow> reply option list \<times> 'z world_scheme" where
  "serve_all env [] w = ([], w)"
| "serve_all env (q # qs) w =
     (case serve env (hr_io q) (hr_allowed q) (hr_http q) (hr_call q) w of
        (r, w1) \<Rightarrow> case serve_all env qs w1 of (rs, w2) \<Rightarrow> (r # rs, w2))"

lemma run_all_requests: "run_all (requests env qs) w = serve_all env qs w"
  by (induction qs arbitrary: w) (simp_all add: requests_def run_request_proc)

definition successful :: "reply option \<Rightarrow> bool" where
  "successful r = (case r of None \<Rightarrow> False | Some (st, b) \<Rightarrow> success b)"

definition answered_ok :: "('s, reply option) proc list \<Rightarrow> nat \<Rightarrow> bool" where
  "answered_ok ps j = (case ps ! j of Done r \<Rightarrow> successful r | _ \<Rightarrow> False)"

lemma answered_ok_iff: "answered_ok ps j \<longleftrightarrow> (\<exists>r. ps ! j = Done r \<and> successful r)"
  by (simp add: answered_ok_def split: proc.split)

lemma successful_respond: "successful (respond r) \<Longrightarrow> is_ok r"
  by (cases r) (auto simp: successful_def respond_def dest: error_response_failure
      split: option.splits)

lemma failure_unsuccessful [simp]: "\<not> successful (respond (Inl e))"
  using successful_respond [of "Inl e"] by auto

lemma successful_bind: "successful (respond (bind_sum r k)) \<Longrightarrow> is_ok r"
  by (drule successful_respond) (cases r, simp_all)

lemma contends_respond:
  assumes "contends I spent is_ok p"
  shows "contends I spent successful (map_proc respond (respond_with k p))"
  using contends_mono [OF assms, of "\<lambda>a. successful (respond (bind_sum a k))"]
  by (simp add: respond_with_def successful_bind)

lemma contends_failed [simp]: "contends I spent successful (map_proc respond (Done (Inl e)))"
  using successful_respond [of "Inl e"] by auto

lemma contends_checked:
  "(\<And>x. r = Inr x \<Longrightarrow> contends I spent successful (map_proc respond (f x))) \<Longrightarrow>
    contends I spent successful (map_proc respond (checked r f))"
  by (cases r) (simp_all only: checked_def sum.case contends_failed)

lemma contends_in_context:
  assumes "\<And>c. contends I spent is_ok (f c)"
  shows "contends I spent is_ok (in_context env request auth f)"
  using assms by (auto simp: in_context_def checked_def split: sum.split)

text \<open>The requests that present a token with this digest, and those that register an address.\<close>

fun presents_token :: "'e env_scheme \<Rightarrow> string \<Rightarrow> api_call \<Rightarrow> bool" where
  "presents_token env h (PostRefresh t) \<longleftrightarrow> hash_refresh_token (env_sha env) t = h"
| "presents_token env h _ \<longleftrightarrow> False"

fun registers_address :: "'e env_scheme \<Rightarrow> string \<Rightarrow> api_call \<Rightarrow> bool" where
  "registers_address env a (PostRegister e p) \<longleftrightarrow>
     (case email_str env e of Inl _ \<Rightarrow> False | Inr v \<Rightarrow> normalize_email (env_normalize env) v = a)"
| "registers_address env a (PostUsers e p) \<longleftrightarrow>
     (case email_str env e of Inl _ \<Rightarrow> False | Inr v \<Rightarrow> normalize_email (env_normalize env) v = a)"
| "registers_address env a _ \<longleftrightarrow> False"

lemma contends_throttled:
  "contends I spent successful (map_proc respond p) \<Longrightarrow>
    contends I spent successful (map_proc respond (if b then Done (Inl e) else p))"
  using contends_failed by (cases b) simp_all

lemma presents_token_contends:
  assumes "presents_token env h (hr_call q)"
  shows "contends db_ok (spent_hash h) successful (request_proc env q)"
proof -
  obtain t where t: "hr_call q = PostRefresh t" "hash_refresh_token (env_sha env) t = h"
    using assms by (cases "hr_call q") simp_all
  have "contends db_ok (spent_hash h) successful
      (map_proc respond (refresh_route env io request t))" for io request
    unfolding refresh_route_def
    by (intro contends_respond contends_in_context) (use refresh_contends [of env t] t(2) in simp)
  moreover have "valid_refresh t = Inr x \<Longrightarrow> x = t" for x by (simp add: valid_refresh_def split: if_splits)
  ultimately show ?thesis
    unfolding request_proc_def t(1) needs_auth.simps if_False route_proc.simps
    by (intro contends_throttled contends_checked) blast
qed

lemma registers_address_contends:
  assumes "registers_address env a (hr_call q)"
  shows "contends db_ok (taken a) successful (request_proc env q)"
proof -
  have valid: "normalize_email (env_normalize env) (in_email pl) = a"
    if "email_str env e = Inr v" "normalize_email (env_normalize env) v = a"
      "valid_register env e p = Inr pl" for e p v pl
    using that by (auto simp: valid_register_def split: if_splits)
  have reg: "contends db_ok (taken a) successful (map_proc respond (register_route env io request pl))"
    if "normalize_email (env_normalize env) (in_email pl) = a" for io request pl
    unfolding register_route_def
    by (intro contends_respond contends_in_context register_contends) (simp_all add: that)
  have create: "contends db_ok (taken a) successful (map_proc respond (create_user_route env io request pr pl))"
    if "normalize_email (env_normalize env) (in_email pl) = a" for io request pr pl
    unfolding create_user_route_def admin_create_proc_def
    by (intro contends_respond contends_in_context register_contends) (simp_all add: that)
  show ?thesis
  proof (cases "hr_call q")
    case (PostRegister e p)
    then obtain v where v: "email_str env e = Inr v" "normalize_email (env_normalize env) v = a"
      using assms by (auto split: sum.splits)
    show ?thesis
      unfolding request_proc_def PostRegister needs_auth.simps if_False route_proc.simps
      by (intro contends_throttled contends_checked reg) (rule valid [OF v])
  next
    case (PostUsers e p)
    then obtain v where v: "email_str env e = Inr v" "normalize_email (env_normalize env) v = a"
      using assms by (auto split: sum.splits)
    have "contends db_ok (taken a) successful
        (map_proc respond (route_proc env io request auth (PostUsers e p)))" for io request auth
      unfolding route_proc.simps by (intro contends_checked create) (rule valid [OF v])
    then show ?thesis
      by (auto simp: request_proc_def PostUsers auth_proc_def query_def atomic_def
          split: sum.split option.split)
  qed (use assms in simp_all)
qed

subsection \<open>Requests one after the other\<close>

lemma run_guarantees:
  assumes "guarantees R p" "reflp R" "transp R"
  shows "R s (snd (run p s))"
  using assms(1)
proof (induction arbitrary: s rule: guarantees.induct)
  case (finished a)
  show ?case using assms(2) by (simp add: reflp_def)
next
  case (moves f)
  then have "R s (snd (f s))" "R (snd (f s)) (snd (run (fst (f s)) (snd (f s))))" by blast+
  with assms(3) show ?case by (auto simp: case_prod_beta dest: transpD)
qed

lemma serve_all_keeps:
  fixes R :: "'z world_scheme \<Rightarrow> 'z world_scheme \<Rightarrow> bool"
  assumes "\<And>q. q \<in> set qs \<Longrightarrow> guarantees R (request_proc env q)" "reflp R" "transp R"
    and "serve_all env qs w = (rs, w')"
  shows "R w w'"
  using assms(1,4)
proof (induction qs arbitrary: w rs)
  case Nil
  then show ?case using assms(2) by (simp add: reflp_def)
next
  case (Cons q qs)
  obtain r w1 where r: "serve env (hr_io q) (hr_allowed q) (hr_http q) (hr_call q) w = (r, w1)"
    by (cases "serve env (hr_io q) (hr_allowed q) (hr_http q) (hr_call q) w")
  have "R w w1"
    using run_guarantees [OF Cons.prems(1) assms(2,3), of q w] by (simp add: run_request_proc r)
  moreover have "R w1 w'"
    using Cons.IH Cons.prems r by (auto split: prod.splits)
  ultimately show ?case using assms(3) by (blast dest: transpD)
qed

lemma logout_all_refuses_now:
  assumes "read_after env iat t io" "io_redis io"
  shows "user_refused uid iat t (logout_all env io uid c w)"
proof -
  have "redis (logout_all env io uid c w) = redis (revoke_user (io_redis io) uid (io_now io)
      (access_token_ttl_seconds env) (io_redis_at io) w)"
    by (simp add: logout_all_def)
  from user_refused_cong [OF this] revoke_user_refuses [OF assms] show ?thesis by simp
qed

subsection \<open>Requests that are refused\<close>

lemma auth_first:
  assumes "needs_auth (hr_call q)"
  shows "request_proc env q = Step (\<lambda>w. (map_proc respond (case jwt_call env (hr_io q) (hr_http q) w of
      Inl e \<Rightarrow> Done (Inl e)
    | Inr None \<Rightarrow> Done (Inl (HttpError 401))
    | Inr (Some p) \<Rightarrow> route_proc env (hr_io q) (hr_http q) (Some p) (hr_call q)), w))"
  using assms by (simp add: request_proc_def auth_proc_def query_def atomic_def comp_def)

lemma auth_not_done: "needs_auth (hr_call q) \<Longrightarrow> request_proc env q \<noteq> Done r"
  by (simp add: auth_first)

lemma permitted_denied: "c \<notin> granted auth \<Longrightarrow> permitted c auth = Inl (raise_domain PermissionDenied)"
  by (auto simp: permitted_def granted_def split: option.splits)

lemma checked_denied: "\<exists>e. checked r (\<lambda>x. checked (Inl e') (f x)) = Done (Inl e)"
  by (cases r) (simp_all add: checked_def)

lemma route_proc_denied:
  assumes "route_permission call = Some c" "c \<notin> granted auth"
  shows "\<exists>e. route_proc env io request auth call = Done (Inl e)"
  using assms by (cases call) (auto simp: permitted_denied checked_denied, simp_all add: checked_def)

text \<open>Whom a request authenticates, but for the blocklist.\<close>

definition bears :: "'e env_scheme \<Rightarrow> api_request \<Rightarrow> principal \<Rightarrow> bool" where
  "bears env q p \<longleftrightarrow> (\<exists>header tok c uid. h_authorization (hr_http q) = Some header \<and> bearer header tok \<and>
     decode_access_token (env_jwt_decode env) (cfg_jwt_secret env) (io_now (hr_io q)) tok None = Inr c \<and>
     int_of_str (c_subject c) = Some uid \<and> 0 < uid \<and> p = principal_of uid c)"

lemma bears_jwt_call:
  assumes "bears env q p"
  shows "jwt_call env (hr_io q) (hr_http q) w =
    (if is_blocked (io_redis (hr_io q)) (pr_jti p) (pr_user_id p) (pr_issued_at p) (io_redis_at (hr_io q)) w
     then Inl (raise_domain InvalidToken) else Inr (Some p))"
proof -
  obtain header tok c uid where
    b: "h_authorization (hr_http q) = Some header" "bearer header tok" and
    d: "decode_access_token (env_jwt_decode env) (cfg_jwt_secret env) (io_now (hr_io q)) tok None = Inr c"
      "int_of_str (c_subject c) = Some uid" "0 < uid" "p = principal_of uid c"
    using assms unfolding bears_def by blast
  show ?thesis
    unfolding jwt_call_bearer [OF b] using d by (simp add: authenticate_def principal_of_def)
qed

lemma bears_unique: "bears env q p \<Longrightarrow> jwt_call env (hr_io q) (hr_http q) w = Inr (Some p') \<Longrightarrow> p' = p"
  using bears_jwt_call [of env q p w] by (simp split: if_splits)

lemma jwt_call_bears: "jwt_call env (hr_io q) (hr_http q) w = Inr (Some p) \<Longrightarrow> bears env q p"
  unfolding jwt_call_accepts_iff bears_def by blast

subsection \<open>A logout from all sessions\<close>

fun revoking_call :: "api_call \<Rightarrow> bool" where
  "revoking_call (PostRefresh t) \<longleftrightarrow> True"
| "revoking_call PostLogoutAll \<longleftrightarrow> True"
| "revoking_call (PatchUser i e p a) \<longleftrightarrow> True"
| "revoking_call _ \<longleftrightarrow> False"

lemma admitted_revoking:
  assumes "revoking_call (hr_call q) \<longrightarrow> timely (hr_io q)"
  shows "admitted_request env (\<lambda>_. True) (\<lambda>_. True) True timely q"
  using assms by (cases "hr_call q") (simp_all add: admitted_request_def split: sum.split)

text \<open>What the steps of the logout establish, a successful response has established.\<close>

lemma logout_all_request_outline:
  assumes "hr_call q = PostLogoutAll" "bears env q p" "stable R P"
    and "\<And>c. outline R (\<lambda>_ :: exn + unit. G) P
      (logout_all_proc env (hr_io q) (pr_user_id p) c (Done (Inr ())))"
  shows "outline R (\<lambda>r w. successful r \<longrightarrow> G w) P (request_proc env q)"
    (is "outline R ?Q P _")
proof -
  have failed: "outline R ?Q P (map_proc respond (Done (Inl e)))" for e
    by (simp add: outline.finished assms(3))
  have view: "outline R ?Q P (map_proc respond (logout_all_route env (hr_io q) (hr_http q) (Some p)))"
  proof (cases "from_request (cfg_trusted_proxy_cidrs env) (hr_http q) (Some (pr_user_id p))")
    case (Inr c)
    have "outline R (\<lambda>_ :: exn + unit. G) P
        (logout_all_proc env (hr_io q) (pr_user_id p) c (Done (Inr ())))"
      by (rule assms(4))
    then show ?thesis
      by (simp add: logout_all_route_def the_principal_def checked_def in_context_def Inr respond_with_def)
        (intro outline_map_proc, erule outline_weaken, simp)
  qed (use failed in \<open>simp add: logout_all_route_def the_principal_def checked_def in_context_def
      respond_with_def\<close>)
  have "outline R ?Q P (map_proc respond (case jwt_call env (hr_io q) (hr_http q) w of
      Inl e \<Rightarrow> Done (Inl e)
    | Inr None \<Rightarrow> Done (Inl (HttpError 401))
    | Inr (Some p) \<Rightarrow> route_proc env (hr_io q) (hr_http q) (Some p) (hr_call q)))" for w
    unfolding bears_jwt_call [OF assms(2)] using failed view by (simp add: assms(1))
  then have "outline R ?Q P (Step (\<lambda>w. (map_proc respond (case jwt_call env (hr_io q) (hr_http q) w of
      Inl e \<Rightarrow> Done (Inl e)
    | Inr None \<Rightarrow> Done (Inl (HttpError 401))
    | Inr (Some p) \<Rightarrow> route_proc env (hr_io q) (hr_http q) (Some p) (hr_call q)), w)))"
    by (intro outline.moves [OF assms(3)] exI [of _ P]) simp
  moreover have "needs_auth (hr_call q)" by (simp add: assms(1))
  ultimately show ?thesis by (simp only: auth_first)
qed

subsection \<open>Sample requests\<close>

definition ask :: "io \<Rightarrow> string \<Rightarrow> api_call \<Rightarrow> api_request" where
  "ask io tok call = \<lparr>hr_io = io, hr_allowed = True, hr_http = bearer_request tok, hr_call = call\<rparr>"

definition both_refresh :: "api_request list" where
  "both_refresh = [ask (io_at (10 * sec) ''x'') ''none'' (PostRefresh ''b''),
     ask (io_at (10 * sec) ''y'') ''none'' (PostRefresh ''b'')]"

definition both_register :: "api_request list" where
  "both_register = [ask (io_at (10 * sec) ''x'') ''none'' (PostRegister ''bob@x.io'' ''long-enough-pw''),
     ask (io_at (10 * sec) ''y'') ''none'' (PostRegister ''Bob@X.io'' ''long-enough-pw'')]"

definition unpermitted :: "api_request list" where
  "unpermitted = [ask (sample_io ''u'') ''tok'' (DeleteUser 2),
     ask (sample_io ''d'') ''none'' (PostRefresh ''t'')]"

definition all_out :: api_request where
  "all_out = ask (io_at (20 * sec) ''o'') ''tok'' PostLogoutAll"

lemma bears_sample:
  "hr_io q = sample_io r \<Longrightarrow> hr_http q = bearer_request ''tok'' \<Longrightarrow> bears jwt_env q sample_principal"
  using jwt_call_bears [of jwt_env q "session_world None" sample_principal] by (simp add: sample_call)

lemma all_out_bears: "bears jwt_env all_out sample_principal"
proof (rule jwt_call_bears)
  show "jwt_call jwt_env (hr_io all_out) (hr_http all_out) (session_world None) = Inr (Some sample_principal)"
    using issued_accepted [OF jwt_env_honest, of "bearer_request ''tok''" "io_at (20 * sec) ''o''"
        "session_world None"]
    by (simp add: all_out_def ask_def bearer_request_def sample_principal_def session_rbac io_at_def
        is_blocked_def redis_get_def)
qed

subsection \<open>Properties\<close>

text \<open>
  The processes of this theory and the sequential model agree: the schedule that gives each request of
  any list its turn, one after the other, yields the responses and the world of \<open>serve\<close> performed in
  that order.
\<close>

theorem requests_serial:
  "interleave (serial 8 0 (length qs)) (requests env qs, w) =
    (case serve_all env qs w of (rs, w') \<Rightarrow> (map Done rs, w'))"
proof -
  have "\<forall>p \<in> set (requests env qs). within 8 p" by (simp add: requests_def within_request_proc)
  from interleave_serial [OF this, of "[]" w] show ?thesis by (simp add: run_all_requests)
qed

text \<open>
  In any schedule, whatever the other requests do meanwhile, a request that has had eight turns is
  finished with a response; waits for row locks are not part of the model.
\<close>

theorem requests_answered:
  assumes "interleave is (requests env qs, w) = (ps, w')" "j < length qs" "8 \<le> count_list is j"
  shows "\<exists>r. ps ! j = Done r"
  by (rule interleave_finishes [OF assms(1) _ _ assms(3)])
    (simp_all add: assms(2) within_request_proc)

theorem requests_answered_witness:
  "\<exists>r. fst (interleave (concat (replicate 8 [0, 1])) (requests sample_env both_refresh, chain_world)) ! 1 =
     Done r"
  by (rule requests_answered [OF surjective_pairing])
    (simp_all add: both_refresh_def count_list_append numeral_eq_Suc)

text \<open>
  C6. Consistency under concurrency: at every point of every schedule of any requests the data
  invariant holds (keys, lengths, uniqueness, references), the stored addresses are canonical, the
  catalog of roles and permissions is the one it was, and the audit trail has only grown at its end.
\<close>

theorem requests_consistent:
  assumes "db_ok w" "emails_canonical w" "interleave is (requests env qs, w) = (ps, w')"
  shows "db_ok w' \<and> emails_canonical w' \<and> catalog_of w' = catalog_of w \<and>
    prefix (rows (audit_logs w)) (rows (audit_logs w'))"
proof -
  have "sound_step w w'"
    by (rule sound.requests_keep [OF _ assms(3) [unfolded requests_def]]) simp
  with assms(1,2) show ?thesis by (simp add: sound_step_def)
qed

theorem requests_consistent_witness:
  "db_ok (snd (interleave [0, 1, 1, 0, 1, 0, 0] (requests sample_env both_register, sample_world)))"
proof -
  have ok: "db_ok sample_world" "emails_canonical sample_world"
    unfolding sample_world_def by (rule sample_db_ok, rule sample_emails_canonical)
  then show ?thesis using requests_consistent [OF ok surjective_pairing] by blast
qed

text \<open>
  C5. Single use under concurrency: whatever requests run at the same time and however their steps
  interleave, of all the refresh requests that present the same refresh token at most one is answered
  with success. Nobody else is assumed to draw the same random token again.
\<close>

theorem requests_single_use:
  assumes "db_ok w"
    and "\<forall>q \<in> set qs. (\<exists>e p. hr_call q = PostLogin e p) \<or> (\<exists>t. hr_call q = PostRefresh t) \<longrightarrow>
      hash_refresh_token (env_sha env) (io_refresh (hr_io q)) \<noteq> h"
    and "interleave is (requests env qs, w) = (ps, w')"
  shows "card {j. j < length qs \<and> presents_token env h (hr_call (qs ! j)) \<and> answered_ok ps j} \<le> 1"
proof -
  have "admitted_request env (\<lambda>k. k \<noteq> h) (\<lambda>_. True) True (\<lambda>_. True) q" if "q \<in> set qs" for q
    using assms(2) that by (cases "hr_call q") (auto simp: admitted_request_def split: sum.split)
  then have "\<forall>p \<in> set (requests env qs). guarantees (stays_spent db_ok (spent_hash h)) p"
    using spending.request_guarantees by (auto simp: requests_def)
  from one_winner [OF this _ assms(1,3), of "\<lambda>j. presents_token env h (hr_call (qs ! j))" successful
      "answered_ok ps"]
  show ?thesis by (simp add: presents_token_contends answered_ok_iff)
qed

theorem requests_single_use_witness:
  "let ps = fst (interleave [0, 1, 0, 1, 0, 1, 0, 1, 0, 1, 0, 1] (requests sample_env both_refresh, chain_world))
   in answered_ok ps 0 \<and>
     card {j. j < length both_refresh \<and>
       presents_token sample_env (hash_refresh_token (env_sha sample_env) ''b'')
         (hr_call (both_refresh ! j)) \<and> answered_ok ps j} \<le> 1"
proof -
  let ?c = "interleave [0, 1, 0, 1, 0, 1, 0, 1, 0, 1, 0, 1] (requests sample_env both_refresh, chain_world)"
  let ?h = "hash_refresh_token (env_sha sample_env) ''b''"
  have "answered_ok (fst ?c) 0" by code_simp
  moreover have "list_all (\<lambda>q. hash_refresh_token (env_sha sample_env) (io_refresh (hr_io q)) \<noteq> ?h) both_refresh"
    by code_simp
  then have "\<forall>q \<in> set both_refresh. (\<exists>e p. hr_call q = PostLogin e p) \<or> (\<exists>t. hr_call q = PostRefresh t) \<longrightarrow>
      hash_refresh_token (env_sha sample_env) (io_refresh (hr_io q)) \<noteq> ?h"
    by (simp add: list_all_iff)
  from requests_single_use [OF chain_db_ok this surjective_pairing] have
    "card {j. j < length both_refresh \<and> presents_token sample_env ?h (hr_call (both_refresh ! j)) \<and>
       answered_ok (fst ?c) j} \<le> 1" .
  ultimately show ?thesis unfolding Let_def by blast
qed

text \<open>
  C7. One account per address under concurrency: of all the registrations and user creations that run
  at the same time for addresses with the same normal form, at most one is answered with success,
  whatever other requests that neither delete an account nor change an address run with them.
\<close>

theorem requests_registration_unique:
  assumes "db_ok w"
    and "\<forall>q \<in> set qs. (\<nexists>i. hr_call q = DeleteUser i) \<and> (\<nexists>i e p b. hr_call q = PatchUser i (Some e) p b)"
    and "interleave is (requests env qs, w) = (ps, w')"
  shows "card {j. j < length qs \<and> registers_address env a (hr_call (qs ! j)) \<and> answered_ok ps j} \<le> 1"
proof -
  have "admitted_request env (\<lambda>_. True) (\<lambda>f. f_email f = None) False (\<lambda>_. True) q" if "q \<in> set qs" for q
  proof (cases "hr_call q")
    case (PatchUser i e p b)
    with assms(2) that have "e = None" by (cases e) auto
    with PatchUser show ?thesis
      by (auto simp: admitted_request_def valid_user_update_def update_fields_def split: sum.split)
  qed (use assms(2) that in \<open>auto simp: admitted_request_def\<close>)
  then have "\<forall>p \<in> set (requests env qs). guarantees (stays_spent db_ok (taken a)) p"
    using taking.request_guarantees by (auto simp: requests_def)
  from one_winner [OF this _ assms(1,3), of "\<lambda>j. registers_address env a (hr_call (qs ! j))" successful
      "answered_ok ps"]
  show ?thesis by (simp add: registers_address_contends answered_ok_iff)
qed

theorem requests_registration_unique_witness:
  "let ps = fst (interleave [0, 1, 1, 0, 0, 1, 0, 1, 0, 1] (requests sample_env both_register, sample_world))
   in answered_ok ps 1 \<and>
     card {j. j < length both_register \<and>
       registers_address sample_env ''bob@x.io'' (hr_call (both_register ! j)) \<and> answered_ok ps j} \<le> 1"
proof -
  let ?c = "interleave [0, 1, 1, 0, 0, 1, 0, 1, 0, 1] (requests sample_env both_register, sample_world)"
  have "answered_ok (fst ?c) 1" by code_simp
  moreover have ok: "db_ok sample_world" unfolding sample_world_def by (rule sample_db_ok)
  have "\<forall>q \<in> set both_register. (\<nexists>i. hr_call q = DeleteUser i) \<and>
      (\<nexists>i e p b. hr_call q = PatchUser i (Some e) p b)"
    by (simp add: both_register_def ask_def)
  from requests_registration_unique [OF ok this surjective_pairing] have
    "card {j. j < length both_register \<and>
       registers_address sample_env ''bob@x.io'' (hr_call (both_register ! j)) \<and> answered_ok (fst ?c) j} \<le> 1" .
  ultimately show ?thesis unfolding Let_def by blast
qed

text \<open>
  C20. A refused request leaves no trace: when a request to a route with authentication gets its first
  turn and the token it bears is missing, invalid, revoked or lacks the permission of the route, then
  everything else happens as it does without the request: the final world and the responses to all the
  others are those of the schedule without its turns, and its own response, if any, is a failure
  without data.
\<close>

theorem refused_invisible:
  fixes w w1 :: "'z world_scheme"
  assumes "interleave is1 (requests env qs, w) = (ps1, w1)" "j < length qs" "j \<notin> set is1"
    and "needs_auth (hr_call (qs ! j))"
    and "\<nexists>p. jwt_call env (hr_io (qs ! j)) (hr_http (qs ! j)) w1 = Inr (Some p) \<and>
      (\<forall>c. route_permission (hr_call (qs ! j)) = Some c \<longrightarrow> c \<in> pr_permissions p)"
  shows "\<exists>r. (\<forall>st b. r = Some (st, b) \<longrightarrow> \<not> success b \<and> code b = st \<and> data b = None) \<and>
    interleave (is1 @ j # is2) (requests env qs, w) =
      (case interleave (filter (\<lambda>i. i \<noteq> j) (is1 @ is2)) (requests env qs, w) of
         (ps, w') \<Rightarrow> (ps[j := Done r], w'))"
proof -
  let ?q = "qs ! j"
  let ?auth = "jwt_call env (hr_io ?q) (hr_http ?q) w1"
  note first = auth_first [OF assms(4), of env]
  have "\<exists>e. (case ?auth of Inl e \<Rightarrow> Done (Inl e) | Inr None \<Rightarrow> Done (Inl (HttpError 401))
      | Inr (Some p) \<Rightarrow> route_proc env (hr_io ?q) (hr_http ?q) (Some p) (hr_call ?q)) =
        (Done (Inl e) :: ('z world_scheme, exn + reply) proc)"
  proof (cases "\<exists>p. ?auth = Inr (Some p)")
    case True
    then obtain p where p: "?auth = Inr (Some p)" by blast
    with assms(5) obtain c where "route_permission (hr_call ?q) = Some c" "c \<notin> granted (Some p)"
      by (auto simp: granted_def)
    from route_proc_denied [OF this] p show ?thesis by simp
  qed (auto split: sum.split option.split)
  then obtain e where e: "(case ?auth of Inl e \<Rightarrow> Done (Inl e) | Inr None \<Rightarrow> Done (Inl (HttpError 401))
      | Inr (Some p) \<Rightarrow> route_proc env (hr_io ?q) (hr_http ?q) (Some p) (hr_call ?q)) =
        (Done (Inl e) :: ('z world_scheme, exn + reply) proc)"
    by blast
  have nth: "requests env qs ! j = request_proc env ?q" using assms(2) by simp
  from interleave_invisible [OF assms(1,3) _ nth [unfolded first], of "error_response e" is2] assms(2)
  have "interleave (is1 @ j # is2) (requests env qs, w) =
      (case interleave (filter (\<lambda>i. i \<noteq> j) (is1 @ is2)) (requests env qs, w) of
         (ps, w') \<Rightarrow> (ps[j := Done (error_response e)], w'))"
    by (simp add: e respond_def)
  then show ?thesis using error_response_envelope by blast
qed

theorem refused_invisible_witness:
  "snd (interleave [1, 0, 1, 1, 1, 0, 1, 1, 1] (requests jwt_env unpermitted, session_world None)) =
   snd (interleave [1, 1, 1, 1, 1, 1, 1] (requests jwt_env unpermitted, session_world None))"
proof -
  let ?c = "interleave [1] (requests jwt_env unpermitted, session_world None)"
  have q: "0 < length unpermitted" "0 \<notin> set [1::nat]" "needs_auth (hr_call (unpermitted ! 0))"
    "route_permission (hr_call (unpermitted ! 0)) = Some ''user.delete''"
    by (simp_all add: unpermitted_def ask_def)
  have "bears jwt_env (unpermitted ! 0) sample_principal"
    by (rule bears_sample [of _ "''u''"]) (simp_all add: unpermitted_def ask_def)
  from bears_unique [OF this, of "snd ?c"] have
    "\<nexists>p. jwt_call jwt_env (hr_io (unpermitted ! 0)) (hr_http (unpermitted ! 0)) (snd ?c) = Inr (Some p) \<and>
      (\<forall>c. route_permission (hr_call (unpermitted ! 0)) = Some c \<longrightarrow> c \<in> pr_permissions p)"
    by (auto simp: q(4) sample_principal_def)
  from refused_invisible [OF surjective_pairing q(1-3) this, of "[1, 1, 1, 0, 1, 1, 1]"]
  show ?thesis by (elim exE conjE) (simp add: case_prod_beta del: interleave.simps)
qed

text \<open>
  C8. What a logout from all sessions reaches under concurrency: when the request is answered with
  success, every refresh token of its user that was stored when the request started is dead, whatever
  ran before it and whatever runs with it.
\<close>

theorem logout_all_ends_sessions:
  assumes "db_ok w" "interleave is1 (requests env qs, w) = (ps1, w1)" "interleave is2 (ps1, w1) = (ps2, w2)"
    and "j < length qs" "j \<notin> set is1" "hr_call (qs ! j) = PostLogoutAll" "bears env (qs ! j) p"
    and "answered_ok ps2 j"
  shows "\<forall>t \<in> set (tokens w2).
    t_user_id t = pr_user_id p \<and> t_id t < next_id (refresh_tokens w1) \<longrightarrow> \<not> active t"
proof -
  have g: "\<forall>p \<in> set (requests env qs). guarantees sound_step p"
    using sound.request_guarantees [OF admitted_request_all] by (auto simp: requests_def)
  have "sound_step w w1"
    by (rule interleave_guarantees [OF g sound.reflexive sound.transitive assms(2)])
  with assms(1) have ok: "db_ok w1" by (simp add: sound_step_def)
  have waiting: "ps1 ! j = request_proc env (qs ! j)"
    using interleave_waiting [OF assms(2,5)] assms(4) by simp
  have len: "j < length ps1" using interleave_length [OF assms(2)] assms(4) by simp
  from logout_all_request_outline [OF assms(6,7) stable_since [OF ok] logout_all_outline [OF ok]] waiting
  have out: "outline sound_step (\<lambda>r w. successful r \<longrightarrow> dead_before w1 (\<lambda>t. t_user_id t = pr_user_id p) w)
      (since w1) (ps1 ! j)" by simp
  obtain r where r: "ps2 ! j = Done r" "successful r" using assms(8) unfolding answered_ok_iff by blast
  from interleave_outline [OF interleave_pool_guarantees [OF g sound.reflexive assms(2)] sound.reflexive
      out since_start [OF ok] len assms(3) r(1)] r(2)
  show ?thesis by (simp add: dead_before_def)
qed

definition logout_race :: "api_request list" where
  "logout_race = [all_out, ask (io_at (20 * sec) ''d'') ''none'' (PostRefresh ''t'')]"

theorem logout_all_ends_sessions_witness:
  "filter (\<lambda>t. t_user_id t = 2 \<and> t_id t < 8 \<and> active t) (tokens (snd (interleave
     [0, 0, 1, 0, 0, 0, 0, 0, 1, 1, 1, 1, 1] (requests jwt_env logout_race, session_world None)))) = []"
proof -
  let ?c = "interleave [0, 0, 1, 0, 0, 0, 0, 0, 1, 1, 1, 1, 1]
    (requests jwt_env logout_race, session_world None)"
  have j: "0 < length logout_race" "0 \<notin> set ([] :: nat list)" "hr_call (logout_race ! 0) = PostLogoutAll"
    by (simp_all add: logout_race_def all_out_def ask_def)
  have b: "bears jwt_env (logout_race ! 0) sample_principal"
    using all_out_bears by (simp add: logout_race_def)
  have "answered_ok (fst ?c) 0" by code_simp
  note fin = this
  have "next_id (refresh_tokens (session_world None)) = 8" "pr_user_id sample_principal = 2"
    by (simp_all add: session_world_def sample_principal_def)
  note n = this
  from logout_all_ends_sessions [OF session_db_ok interleave.simps(1) surjective_pairing j b fin]
  have "\<forall>t \<in> set (tokens (snd ?c)). \<not> (t_user_id t = 2 \<and> t_id t < 8 \<and> active t)"
    unfolding n by blast
  then show ?thesis unfolding filter_empty_conv .
qed

text \<open>
  C9. A logout from all sessions cuts off the requests that come after it: once it is answered with
  success, and Redis took its epoch, every request to a route with authentication that bears an access
  token of the same user issued at \<open>iat\<close>, and looks at Redis at a time \<open>t\<close> at which the entry lives, is
  answered with 401 and changes nothing, whatever ran with the logout, provided that every refresh,
  logout from all sessions or account update not yet answered when the logout started read its clock
  after \<open>iat\<close>.
\<close>

theorem logout_all_ends_requests:
  assumes "interleave is1 (requests env qs, w) = (ps1, w1)" "interleave is2 (ps1, w1) = (ps2, w2)"
    and "j < length qs" "j \<notin> set is1" "hr_call (qs ! j) = PostLogoutAll" "bears env (qs ! j) p"
    and "io_redis (hr_io (qs ! j))" "answered_ok ps2 j"
    and "\<forall>i < length qs. (revoking_call (hr_call (qs ! i)) \<longrightarrow> read_after env iat t (hr_io (qs ! i))) \<or>
      (\<exists>r. ps1 ! i = Done r)"
    and "needs_auth (hr_call q)" "bears env q p'" "pr_user_id p' = pr_user_id p"
    and "pr_issued_at p' = iat" "io_redis (hr_io q)" "io_redis_at (hr_io q) = t"
  shows "serve env (hr_io q) (hr_allowed q) (hr_http q) (hr_call q) w2 =
    (Some (401, \<lparr>success = False, code = 401, message = safe_error_message 401, data = None\<rparr>), w2)"
proof -
  let ?R = "stays_refused (pr_user_id p) iat t"
  have len: "length ps1 = length qs" using interleave_length [OF assms(1)] by simp
  have waiting: "ps1 ! j = request_proc env (qs ! j)"
    using interleave_waiting [OF assms(1,4)] assms(3) by simp
  have "guarantees ?R (ps1 ! i)" if i: "i < length qs" for i
  proof (cases "revoking_call (hr_call (qs ! i)) \<longrightarrow> read_after env iat t (hr_io (qs ! i))")
    case True
    then have "guarantees ?R (requests env qs ! i)"
      using refusing.request_guarantees [OF admitted_revoking [where timely = "read_after env iat t", OF True]] i by simp
    then show ?thesis
      by (rule interleave_guarantees_nth [OF _ refusing.reflexive _ assms(1)]) (simp add: i)
  next
    case False
    with assms(9) i obtain r where "ps1 ! i = Done r" by blast
    then show ?thesis by simp
  qed
  then have g: "\<forall>p \<in> set ps1. guarantees ?R p" using len by (auto simp: in_set_conv_nth)
  have "\<nexists>r. ps1 ! j = Done r" using waiting by (simp add: auth_not_done assms(5))
  moreover from assms(3,9) have "(revoking_call (hr_call (qs ! j)) \<longrightarrow>
      read_after env iat t (hr_io (qs ! j))) \<or> (\<exists>r. ps1 ! j = Done r)" by blast
  ultimately have "read_after env iat t (hr_io (qs ! j))" by (simp add: assms(5))
  from logout_all_request_outline [OF assms(5,6) stable_any logout_all_refuses [OF this assms(7)]] waiting
  have out: "outline ?R (\<lambda>r w. successful r \<longrightarrow> user_refused (pr_user_id p) iat t w) (\<lambda>_. True) (ps1 ! j)"
    by simp
  obtain r where r: "ps2 ! j = Done r" "successful r" using assms(8) unfolding answered_ok_iff by blast
  from interleave_outline [OF g refusing.reflexive out TrueI _ assms(2) r(1)] len assms(3) r(2)
  have "user_refused (pr_user_id p) iat t w2" by simp
  then have "jwt_call env (hr_io q) (hr_http q) w2 = Inl (raise_domain InvalidToken)"
    unfolding bears_jwt_call [OF assms(11)] using assms(12-15) by (simp add: is_blocked_iff)
  then show ?thesis
    using assms(10) by (simp add: serve_def run_checked_def respond_def domain_error_def handle_domain_error_def)
qed

theorem logout_all_ends_requests_witness:
  "let w = snd (interleave [0, 0, 0, 0, 0, 0, 0, 0] (requests jwt_env [all_out], session_world None))
   in snd (serve jwt_env (sample_io ''u'') True (bearer_request ''tok'') GetMe w) = w"
proof -
  let ?c = "interleave [0, 0, 0, 0, 0, 0, 0, 0] (requests jwt_env [all_out], session_world None)"
  let ?q = "ask (sample_io ''u'') ''tok'' GetMe"
  have j: "0 < length [all_out]" "0 \<notin> set ([] :: nat list)" "hr_call ([all_out] ! 0) = PostLogoutAll"
    "io_redis (hr_io ([all_out] ! 0))"
    by (simp_all add: all_out_def ask_def io_at_def)
  have fin: "answered_ok (fst ?c) 0" by code_simp
  have b: "bears jwt_env ?q sample_principal"
    by (rule bears_sample [of _ "''u''"]) (simp_all add: ask_def)
  have b0: "bears jwt_env ([all_out] ! 0) sample_principal"
    using all_out_bears by simp
  have rest: "\<forall>i < length [all_out]. (revoking_call (hr_call ([all_out] ! i)) \<longrightarrow>
        read_after jwt_env (10 * sec) (10 * sec) (hr_io ([all_out] ! i))) \<or>
      (\<exists>r. requests jwt_env [all_out] ! i = (Done r :: (world, reply option) proc))"
    by (simp add: all_out_def ask_def io_at_def read_after_def datetime_ok_def access_token_ttl_seconds_def)
  have q: "needs_auth (hr_call ?q)" "pr_user_id sample_principal = pr_user_id sample_principal"
    "pr_issued_at sample_principal = 10 * sec" "io_redis (hr_io ?q)" "io_redis_at (hr_io ?q) = 10 * sec"
    by (simp_all add: ask_def sample_principal_def)
  from logout_all_ends_requests [OF interleave.simps(1) surjective_pairing j(1-3) b0 j(4) fin rest q(1) b q(2-5)]
  show ?thesis unfolding Let_def by (simp add: ask_def del: interleave.simps)
qed

text \<open>
  C13. After logging out everywhere an earlier access token is not accepted any more: whatever requests
  are served after the logout, in any number, as long as those of them that may set a revocation epoch
  (refreshes, logouts from all sessions, account updates) read their clocks no earlier than the logout
  did, a request that carries the token is refused with 401 while Redis answers it, at whatever time,
  first because of the revocation and then because the token has expired. (It must not take longer
  between decoding the token and asking Redis than passed between the issue and the logout.)
\<close>

theorem logout_all_ends_access:
  assumes "jwt_honest env io uid s" "0 < uid" "uid < 2 ^ 63"
    and "cfg_access_lifetime env = k * sec" "0 < k"
    and "io_redis io1" "datetime_ok (io_now io1)" "io_issued io < io_now io1"
    and "\<forall>q \<in> set qs. revoking_call (hr_call q) \<longrightarrow> datetime_ok (io_now (hr_io q)) \<and>
      io_now io1 \<le> io_now (hr_io q) \<and> io_redis_at io1 \<le> io_redis_at (hr_io q)"
    and "serve_all env qs (logout_all env io1 uid context w) = (rs, w')"
    and "io_redis io2" "io_redis_at io2 - io_now io2 \<le> io_redis_at io1 - io_issued io"
    and "h_authorization request = Some header" "bearer header (access_for env io uid s)"
    and "needs_auth call"
  shows "jwt_call env io2 request w' = Inl (raise_domain InvalidToken) \<and>
    serve env io2 allowed request call w' =
      (Some (401, \<lparr>success = False, code = 401, message = safe_error_message 401, data = None\<rparr>), w')"
proof -
  let ?iat = "io_issued io div sec * sec"
  have floor: "t div sec * sec \<le> t" for t :: time
    using div_mult_mod_eq [of t sec] pos_mod_sign [of sec t] by simp
  have i: "int_of_str (str_of_int uid) = Some uid"
    using assms(2,3) by (intro int_of_str_small) simp
  have "authenticate env io2 (access_for env io uid s) w' = Inl (raise_domain InvalidToken)"
  proof (cases "?iat \<le> io_now io2 \<and> io_now io2 < (io_issued io + cfg_access_lifetime env) div sec * sec")
    case False
    then show ?thesis unfolding authenticate_def decode_access_for [OF assms(1)] if_not_P [OF False]
      by simp
  next
    case True
    let ?R = "stays_refused uid ?iat (io_redis_at io2)"
    have "io_now io2 < io_issued io + k * sec"
      using True floor [of "io_issued io + cfg_access_lifetime env"] assms(4) by simp
    moreover have "access_token_ttl_seconds env = k"
      using assms(4,5) by (simp add: access_token_ttl_seconds_def)
    ultimately have t: "io_redis_at io2 < io_redis_at io1 + access_token_ttl_seconds env * sec"
      using assms(12) by simp
    have iat: "?iat < io_now io1" using floor [of "io_issued io"] assms(8) by simp
    have "revoking_call (hr_call q) \<longrightarrow> read_after env ?iat (io_redis_at io2) (hr_io q)" if "q \<in> set qs" for q
      using assms(9) that t iat by (fastforce simp: read_after_def)
    then have "guarantees ?R (request_proc env q)" if "q \<in> set qs" for q
      using refusing.request_guarantees [OF admitted_revoking] that by blast
    from serve_all_keeps [OF this refusing.reflexive refusing.transitive assms(10)]
    have "?R (logout_all env io1 uid context w) w'" by blast
    moreover have "read_after env ?iat (io_redis_at io2) io1"
      using t iat assms(7) by (simp add: read_after_def)
    ultimately have "user_refused uid ?iat (io_redis_at io2) w'"
      using logout_all_refuses_now assms(6) unfolding stays_refused_def by blast
    then have "is_blocked (io_redis io2) (io_jti io) uid ?iat (io_redis_at io2) w'"
      using assms(11) by (simp add: is_blocked_iff)
    then show ?thesis
      using True i assms(2) by (simp add: authenticate_def decode_access_for [OF assms(1)] claims_for_def)
  qed
  then have "jwt_call env io2 request w' = Inl (raise_domain InvalidToken)"
    by (simp add: jwt_call_bearer [OF assms(13,14)])
  with assms(15) show ?thesis
    by (simp add: serve_def run_checked_def respond_def domain_error_def handle_domain_error_def)
qed

theorem logout_all_ends_access_witness:
  "fst (serve jwt_env (sample_io ''u'') True (bearer_request ''tok'') GetMe
     (snd (serve_all jwt_env [ask (io_at (12 * sec) ''v'') ''none'' (PostRefresh ''t'')]
       (logout_all jwt_env ((sample_io ''o'')\<lparr>io_now := 11 * sec\<rparr>) 2 sample_context (session_world None))))) =
    Some (401, \<lparr>success = False, code = 401, message = safe_error_message 401, data = None\<rparr>)"
proof -
  have "bearer (''Bearer '' @ ''tok'') (access_for jwt_env (sample_io ''t'') 2 (session_world None))"
    unfolding bearer_def by (rule exI [of _ "''Bearer''"]) (simp add: lower_Bearer)
  note b = this
  have h: "h_authorization (bearer_request ''tok'') = Some (''Bearer '' @ ''tok'')"
    by (simp add: bearer_request_def)
  let ?w = "logout_all jwt_env ((sample_io ''o'')\<lparr>io_now := 11 * sec\<rparr>) 2 sample_context (session_world None)"
  from logout_all_ends_access [OF jwt_env_honest, of 900 "(sample_io ''o'')\<lparr>io_now := 11 * sec\<rparr>"
      "[ask (io_at (12 * sec) ''v'') ''none'' (PostRefresh ''t'')]" sample_context "session_world None" _ _
      "sample_io ''u''", OF _ _ _ _ _ _ _ _ surjective_pairing _ _ h b, of GetMe True]
  show ?thesis by (simp add: ask_def io_at_def datetime_ok_def del: serve_all.simps)
qed

end
