(* ===== verification/Overlaps.thy ===== *)
theory Overlaps
  imports Schedules
begin

text \<open>
  What revocation does not reach when requests overlap: in every world with a live refresh token there
  is an order of the steps in which a replacement survives the revocation of its family or of its
  user, which it does not when one request follows the other; and a revocation with an earlier clock
  reading takes back what a later one had cut off.
\<close>

subsection \<open>The first turns of a pool of two\<close>

definition turn :: "('s, 'a) proc \<Rightarrow> 's \<Rightarrow> ('s, 'a) proc \<times> 's" where
  "turn p s = (case p of Done a \<Rightarrow> (p, s) | Step f \<Rightarrow> f s)"

lemma turn_simps [simp]:
  "turn (atomic f k) s = (case f s of (b, s') \<Rightarrow> (k b, s'))"
  "turn (query q k') s = (k' (q s), s)"
  "turn (effect h p) s = (p, h s)"
  by (simp_all add: turn_def atomic_def query_def effect_def)

lemma turn_map_proc [simp]: "turn (map_proc g p) s = map_prod (map_proc g) id (turn p s)"
  by (cases p) (simp_all add: turn_def)

lemma map_proc_statements [simp]:
  "map_proc g (query q k) = query q (\<lambda>b. map_proc g (k b))"
  "map_proc g (effect h p) = effect h (map_proc g p)"
  by (auto simp: query_def effect_def atomic_def fun_eq_iff split: prod.split)

lemma map_proc_bulk_revoke [simp]:
  "map_proc g (bulk_revoke q at k) = bulk_revoke q at (map_proc g k)"
  by (simp add: bulk_revoke_def)

lemma advance_pair:
  "advance 0 ([p, q], s) = (case turn p s of (p', s') \<Rightarrow> ([p', q], s'))"
  "advance (Suc 0) ([p, q], s) = (case turn q s of (q', s') \<Rightarrow> ([p, q'], s'))"
  by (cases p; cases q; simp add: advance_def turn_def split: prod.split)+

text \<open>What all answers of a process satisfy, its answer in a pool satisfies.\<close>

lemma interleave_answers:
  assumes "interleave is (ps, s) = (ps', s')" "j < length ps" "pred_proc A (ps ! j)"
  shows "pred_proc A (ps' ! j)"
  using assms
proof (induction "is" arbitrary: ps s)
  case (Cons i "is")
  obtain qs t where a: "advance i (ps, s) = (qs, t)" by fastforce
  have "pred_proc A (qs ! j)"
    using a
  proof (cases rule: advance_cases)
    case (step f)
    with Cons.prems(2,3) show ?thesis by (cases "i = j") (auto simp: pred_prod_beta)
  qed (use Cons.prems(3) in simp)
  with Cons a advance_length [OF a] show ?case by simp
qed simp

subsection \<open>What is left of the requests after the race\<close>

lemma rotated_tail:
  fixes R :: "'z world_scheme \<Rightarrow> 'z world_scheme \<Rightarrow> bool"
  assumes "\<And>w. R w w" "\<And>w k e. R w (audit_put env io k e w)" "outcome rot = Rotated"
  shows "guarantees R (rotated_proc env io c rot)"
  using assms(3)
  by (auto simp: rotated_proc_def read_grants_def audit_proc_def Let_def assms(1,2)
      split: option.split sum.split intro!: guarantees_query guarantees_effect)

lemma rotated_answers:
  assumes "outcome rot = Rotated" "result_token rot \<noteq> None"
    and "datetime_ok (io_issued io + cfg_access_lifetime env)"
  shows "pred_proc (\<lambda>a. \<exists>pair. a = Inr pair \<and> refresh_token pair = io_refresh io) (rotated_proc env io c rot)"
proof -
  have "sign_access env io uid names codes \<noteq> Inl e" for uid names codes e
    using assms(3) encode_access_token_Inr unfolding sign_access_def by (metis sum.distinct(1))
  then show ?thesis
    using assms(1,2)
    by (auto simp: rotated_proc_def read_grants_def Let_def split: option.split sum.split
        intro!: pred_proc_audit pred_proc_query)
qed

lemma close_session_tail:
  "guarantees (\<lambda>w w'. tokens w' = tokens w) (close_session_proc env io a c (Some t) (Done r))"
  "pred_proc (\<lambda>b. b = r) (close_session_proc env io a c (Some t) (Done r))"
  by (auto simp: close_session_proc_def audit_proc_def
      intro!: guarantees_query guarantees_effect pred_proc_query pred_proc_effect)

text \<open>The same with the answers of a pool.\<close>

lemma pred_proc_reused:
  "pred_proc (\<lambda>a. map_sum id Pair_returned a = Inl (raise_domain TokenReused))
    (close_session_proc env io a c (Some t) (Done (Inl (raise_domain TokenReused))))"
  by (rule proc.pred_mono_strong [OF close_session_tail(2)]) simp

lemma pred_proc_given:
  assumes "outcome rot = Rotated" "result_token rot \<noteq> None"
    and "datetime_ok (io_issued io + cfg_access_lifetime env)"
  shows "pred_proc (\<lambda>a. \<exists>p. map_sum id Pair_returned a = Inr (Pair_returned p) \<and>
    refresh_token p = io_refresh io) (rotated_proc env io c rot)"
  by (rule proc.pred_mono_strong [OF rotated_answers [OF assms]]) auto

subsection \<open>A rotation that succeeds on its own\<close>

lemma refresh_success:
  fixes w :: "'z world_scheme"
  assumes "refresh env io raw c w = (Inr pair, v)"
  obtains u w1 where "token_by_hash (hash_refresh_token (env_sha env) raw) w = Some u" "active u"
    "arotate (cfg_refresh_bind_device env) (env_inet_ok env) (rotation_for env io raw c) w =
      (Inr \<lparr>outcome = Rotated, result_token = Some (refresh_token_dto_of
         (replacement u (rotation_for env io raw c) (next_id (refresh_tokens w)))),
         previous_issued_ip = t_issued_ip u\<rparr>, w1)"
    "tokens w1 = consume_row (t_id u) (io_now io) (tokens w) @
      [replacement u (rotation_for env io raw c) (next_id (refresh_tokens w))]"
    "tokens v = tokens w1" "datetime_ok (io_now io + cfg_refresh_lifetime env)"
    "datetime_ok (io_issued io + cfg_access_lifetime env)"
proof -
  let ?rq = "rotation_for env io raw c"
  have d: "datetime_ok (io_now io + cfg_refresh_lifetime env)"
    using assms by (auto simp: refresh_def add_timedelta_def split: if_splits)
  obtain r w1 where a: "arotate (cfg_refresh_bind_device env) (env_inet_ok env) ?rq w = (r, w1)"
    by (cases "arotate (cfg_refresh_bind_device env) (env_inet_ok env) ?rq w")
  from assms a have after: "(case r of Inl e \<Rightarrow> (Inl e, w1)
      | Inr rot \<Rightarrow> after_rotation env io c rot w1) = (Inr pair, v)"
    by (simp add: refresh_after [OF d])
  from a show thesis
  proof (cases rule: arotate_cases)
    case (rotated u x)
    have "datetime_ok (io_issued io + cfg_access_lifetime env)" "tokens v = tokens w1"
      using after rotated(7)
      by (auto simp: after_rotation_def Let_def encode_for_def encode_access_token_def add_timedelta_def
          split: sum.splits if_splits)
    with rotated a d show thesis by (intro that [of u w1]) simp_all
  qed (use after in \<open>auto simp: after_rotation_def\<close>)
qed

text \<open>It depends on the users and the tokens only.\<close>

lemma rotation_elsewhere:
  fixes w :: "'z db_scheme" and y :: "'z db_scheme"
  assumes "arotate bind inet rq w = (Inr rot, w1)" "outcome rot = Rotated"
    and "refresh_tokens y = refresh_tokens w" "users y = users w"
  shows "\<exists>y1. arotate bind inet rq y = (Inr rot, y1) \<and> tokens y1 = tokens w1"
proof -
  from assms(1) show ?thesis
  proof (cases rule: arotate_cases)
    case (rotated t u)
    let ?mk = "replacement t rq"
    have live: "token_by_hash (rq_token_hash rq) y = Some t"
      using rotated(1) assms(3) by (simp add: token_by_hash_def)
    obtain q s2 where c: "consume inet rq t w = (q, s2)" by (cases "consume inet rq t w")
    have q: "is_ok q" "s2 = w1"
      using assms(1) arotate_live [OF rotated(1-4)] rotated(7) c by (auto split: sum.splits)
    note c' = c [unfolded consume_def]
    have nid: "next_id (refresh_tokens (revoke_tokens p at s)) = next_id (refresh_tokens s)"
      for p at and s :: "'z db_scheme" by (simp add: revoke_tokens_def)
    from c' have chk: "refresh_token_insert_check inet (map u_id (rows (users w)))
        (tokens (revoke_tokens (\<lambda>u. t_id u = t_id t) (rq_rotated_at rq) w)) (?mk (next_id (refresh_tokens w))) = None"
      by (cases rule: create_refresh_token_cases) (use q(1) nid in auto)
    obtain q' z where d: "consume inet rq t y = (q', z)" by (cases "consume inet rq t y")
    then have "q' = Inr (?mk (next_id (refresh_tokens y)))"
      "tokens z = consume_row (t_id t) (rq_rotated_at rq) (tokens y) @ [?mk (next_id (refresh_tokens y))]"
      unfolding consume_def
      by (cases rule: create_refresh_token_cases;
          use chk assms(3,4) in \<open>simp add: nid consume_row_def\<close>)+
    moreover have "u = ?mk (next_id (refresh_tokens y))" using rotated(5) assms(3) by simp
    ultimately show ?thesis
      using arotate_live [OF live rotated(2-4), of inet] d rotated(6,7) assms(3) by simp
  qed (use assms(2) in auto)
qed

text \<open>The replacement has a new id: a statement over the rows there were before does not reach it.\<close>

lemma replacement_survives:
  assumes "db_ok w" "db_ok w1" "tokens w1 = rs @ [x]" "t_id x = next_id (refresh_tokens w)"
    and "I \<subseteq> t_id ` set (tokens w)"
  shows "token_by_hash (t_token_hash x) (revoke_tokens (\<lambda>r. t_id r \<in> I \<and> q r) at w1) = Some x"
proof -
  let ?w2 = "revoke_tokens (\<lambda>r. t_id r \<in> I \<and> q r) at w1"
  have "\<forall>t \<in> set (tokens w). t_id t < next_id (refresh_tokens w)"
    using assms(1) by (simp add: db_ok_def tokens_ok_def ids_ok_def)
  with assms(4,5) have "t_id x \<notin> I" by fastforce
  then have "x \<in> set (tokens ?w2)" by (simp add: assms(3))
  moreover have "tokens_ok ?w2" using db_ok_revoke_tokens [OF assms(2)] by (simp add: db_ok_def)
  ultimately show ?thesis by (simp add: token_by_hash_iff)
qed

subsection \<open>One request after the other\<close>

lemma ttl_not_over [simp]: "\<not> access_token_ttl_seconds env \<le> 0"
  by (simp add: not_le)

lemma serial_two: "snd (perform_all env [a, b] w) = snd (perform env b (snd (perform env a w)))"
  by (simp split: prod.split)

lemma snd_returning [simp]: "snd (returning g x) = snd x"
  by (simp add: returning_def)

lemma first_revoked:
  "first (\<lambda>t. t_token_hash t = h) (upd_where p (\<lambda>t. t\<lparr>t_revoked_at := r\<rparr>) rs) =
    map_option (\<lambda>t. if p t then t\<lparr>t_revoked_at := r\<rparr> else t) (first (\<lambda>t. t_token_hash t = h) rs)"
  by (induction rs) auto

lemma refresh_reused:
  assumes "token_by_hash (hash_refresh_token (env_sha env) raw) w = Some t" "\<not> active t"
    and "datetime_ok (io_now io + cfg_refresh_lifetime env)"
  shows "refresh env io raw c w = (Inl (raise_domain TokenReused), close_session_of env io
    TOKEN_REUSE_DETECTED c (Some (refresh_token_dto_of t)) (arevoke_family (t_family_id t) (io_now io) w))"
  using assms arotate_reused [of "rotation_for env io raw c" w t]
  by (simp add: refresh_after after_rotation_def)

lemma refresh_reused_family:
  assumes "token_by_hash (hash_refresh_token (env_sha env) raw) w = Some t" "\<not> active t"
    and "datetime_ok (io_now io + cfg_refresh_lifetime env)"
  shows "\<forall>x \<in> set (tokens (snd (refresh env io raw c w))). t_family_id x = t_family_id t \<longrightarrow> \<not> active x"
  by (simp add: refresh_reused [OF assms] arevoke_family_def ball_upd_where)

text \<open>The used row is found as it was after a rotation of another one.\<close>

lemma used_after_rotation:
  assumes "db_ok w" "token_by_hash h w = Some t" "\<not> active t" "u \<in> set (tokens w)" "active u"
    and "tokens v = consume_row (t_id u) at (tokens w) @ xs"
  shows "token_by_hash h v = Some t"
proof -
  have "t_id t \<noteq> t_id u"
    using tokens_ok_id_eq [of w t u] token_by_hash_Some [OF assms(2)] assms(1,3-5)
    by (auto simp: db_ok_def)
  with assms(2) have "first (\<lambda>t. t_token_hash t = h) (consume_row (t_id u) at (tokens w)) = Some t"
    by (simp add: consume_row_def first_revoked token_by_hash_def)
  moreover have "first P (ys @ zs) = Some a" if "first P ys = Some a" for P ys zs and a :: refresh_token_row
    using that by (induction ys) (auto split: if_splits)
  ultimately show ?thesis by (simp add: token_by_hash_def assms(6))
qed

subsection \<open>Properties\<close>

text \<open>
  C34. The replay race: the row lock of \<open>_rotate\<close> covers the presented token only. In every world
  with a used token and a live one of the same family that can be exchanged: when the exchange commits
  between the start of the statement that revokes the family and its end (the schedule
  \<open>[0, 0, 1, 0]\<close>, then any), the request with the used token is answered with \<open>TokenReused\<close> after four
  more turns and the exchange with its pair after six, and in every world from then on the new token
  of that family is live. When one of the requests follows the other, no token of the family is live.
\<close>

theorem replay_race:
  fixes w :: "'z world_scheme"
  assumes "db_ok w"
    and "token_by_hash (hash_refresh_token (env_sha env) raw) w = Some t" "\<not> active t"
    and "token_by_hash (hash_refresh_token (env_sha env) raw') w = Some u"
    and "t_family_id u = t_family_id t"
    and "refresh env io' raw' c' w = (Inr pair, v)"
    and "datetime_ok (io_now io + cfg_refresh_lifetime env)"
    and "interleave ([0, 0, 1, 0] @ rest)
      (pool env [DoRefresh io raw c, DoRefresh io' raw' c'], w) = (ps, w')"
  shows "(4 \<le> count_list rest 0 \<longrightarrow> ps ! 0 = Done (Inl (raise_domain TokenReused))) \<and>
    (6 \<le> count_list rest 1 \<longrightarrow> (\<exists>p. ps ! 1 = Done (Inr (Pair_returned p)) \<and>
       refresh_token p = io_refresh io')) \<and>
    (\<exists>x. token_by_hash (hash_refresh_token (env_sha env) (io_refresh io')) w' = Some x \<and> active x \<and>
       t_family_id x = t_family_id t \<and> t_expires_at x = io_now io' + cfg_refresh_lifetime env) \<and>
    (\<forall>x \<in> set (tokens (snd (perform_all env [DoRefresh io raw c, DoRefresh io' raw' c'] w))).
       t_family_id x = t_family_id t \<longrightarrow> \<not> active x) \<and>
    (\<forall>x \<in> set (tokens (snd (perform_all env [DoRefresh io' raw' c', DoRefresh io raw c] w))).
       t_family_id x = t_family_id t \<longrightarrow> \<not> active x)"
    (is "?reused \<and> ?given \<and> ?left \<and> ?first \<and> ?second")
proof -
  let ?rq = "rotation_for env io' raw' c'" and ?n = "next_id (refresh_tokens w)"
  let ?x = "replacement u ?rq ?n"
  let ?rot = "\<lparr>outcome = Rotated, result_token = Some (refresh_token_dto_of ?x),
    previous_issued_ip = t_issued_ip u\<rparr>"
  let ?q = "\<lambda>x. t_family_id x = t_family_id t \<and> active x"
  obtain w1 where live: "active u"
    and rot: "arotate (cfg_refresh_bind_device env) (env_inet_ok env) ?rq w = (Inr ?rot, w1)"
    and w1: "tokens w1 = consume_row (t_id u) (io_now io') (tokens w) @ [?x]" "tokens v = tokens w1"
    and d: "datetime_ok (io_now io' + cfg_refresh_lifetime env)"
      "datetime_ok (io_issued io' + cfg_access_lifetime env)"
    using refresh_success [OF assms(6)] assms(4) by (metis option.inject)
  let ?w2 = "revoke_tokens (\<lambda>x. t_id x \<in> set (map t_id (filter ?q (tokens w))) \<and> ?q x) (io_now io) w1"
  let ?p = "map_proc (map_sum id Pair_returned) (close_session_proc env io TOKEN_REUSE_DETECTED c
    (Some (refresh_token_dto_of t)) (Done (Inl (raise_domain TokenReused))))"
  let ?p' = "map_proc (map_sum id Pair_returned) (rotated_proc env io' c' ?rot)"
  have "interleave [0, 0, 1, 0] (pool env [DoRefresh io raw c, DoRefresh io' raw' c'], w) = ([?p, ?p'], ?w2)"
    using assms(2-4,7) d(1) rot live
    by (simp add: pool_def refresh_proc_def add_timedelta_def advance_pair rotate_proc_def turn_def [of "Step _"]
        bulk_revoke_def rotated_proc_def [where rotation = "\<lparr>outcome = Reused, result_token = _, previous_issued_ip = _\<rparr>"])
  then have run: "interleave rest ([?p, ?p'], ?w2) = (ps, w')"
    using assms(8) by (simp only: interleave_append)
  have g: "\<forall>p \<in> set [?p, ?p']. guarantees (\<lambda>w w'. tokens w' = tokens w) p"
    using close_session_tail(1) by (auto intro!: rotated_tail)
  have rest: "tokens w' = tokens ?w2"
    by (rule interleave_guarantees [OF g _ _ run]) (simp_all add: reflp_def transp_def)
  have ?reused
  proof
    assume n: "4 \<le> count_list rest 0"
    have "\<exists>a. ps ! 0 = Done a"
      by (rule interleave_finishes [OF assms(8), where n = 7])
        (use n within_proc_of in \<open>simp_all add: pool_def del: proc_of.simps\<close>)
    moreover have "pred_proc (\<lambda>b. b = Inl (raise_domain TokenReused)) (ps ! 0)"
      by (rule interleave_answers [OF run])
        (simp_all add: proc.pred_map comp_def pred_proc_reused)
    ultimately show "ps ! 0 = Done (Inl (raise_domain TokenReused))" by auto
  qed
  moreover have ?given
  proof
    assume n: "6 \<le> count_list rest 1"
    have "\<exists>a. ps ! 1 = Done a"
      by (rule interleave_finishes [OF assms(8), where n = 7])
        (use n within_proc_of in \<open>simp_all add: pool_def del: proc_of.simps\<close>)
    moreover have "pred_proc (\<lambda>b. \<exists>p. b = Inr (Pair_returned p) \<and> refresh_token p = io_refresh io') (ps ! 1)"
      by (rule interleave_answers [OF run])
        (simp_all add: proc.pred_map comp_def pred_proc_given d(2))
    ultimately show "\<exists>p. ps ! 1 = Done (Inr (Pair_returned p)) \<and> refresh_token p = io_refresh io'" by auto
  qed
  moreover have ?left
  proof -
    have "token_by_hash (t_token_hash ?x) ?w2 = Some ?x"
      by (rule replacement_survives [OF assms(1) db_ok_arotate [OF assms(1) rot] w1(1)])
        (auto simp: replacement_def)
    then show ?thesis using rest assms(5) by (auto simp: token_by_hash_def replacement_def)
  qed
  moreover have ?first
  proof -
    obtain r y where a: "refresh env io raw c w = (r, y)" by (cases "refresh env io raw c w")
    have y: "tokens y = upd_where ?q (\<lambda>t. t\<lparr>t_revoked_at := Some (io_now io)\<rparr>) (tokens w)"
      using a refresh_reused [OF assms(2,3,7)] by (auto simp: arevoke_family_def)
    then have "token_by_hash (hash_refresh_token (env_sha env) raw') y = Some (u\<lparr>t_revoked_at := Some (io_now io)\<rparr>)"
      using assms(4,5) live by (simp add: token_by_hash_def first_revoked)
    from refresh_reused_family [OF this _ d(1)] a show ?thesis
      using assms(5) unfolding serial_two by simp
  qed
  moreover have ?second
  proof -
    have "token_by_hash (hash_refresh_token (env_sha env) raw) v = Some t"
      using used_after_rotation [OF assms(1-3) _ live] token_by_hash_Some [OF assms(4)] w1 by simp
    from refresh_reused_family [OF this assms(3,7)] show ?thesis
      unfolding serial_two by (simp add: assms(6))
  qed
  ultimately show ?thesis by blast
qed

theorem replay_race_witness:
  "let c = interleave ([0, 0, 1, 0] @ [0, 0, 0, 0, 1, 1, 1, 1, 1, 1]) (pool sample_env replaying, chain_world)
   in fst c ! 0 = Done (Inl (raise_domain TokenReused)) \<and>
     (\<exists>x. token_by_hash (hash_refresh_token (env_sha sample_env) ''y'') (snd c) = Some x \<and> active x)"
proof -
  let ?c = "interleave ([0, 0, 1, 0] @ [0, 0, 0, 0, 1, 1, 1, 1, 1, 1]) (pool sample_env replaying, chain_world)"
  have t: "token_by_hash (hash_refresh_token (env_sha sample_env) ''a'') chain_world =
      Some (chain_row 7 ''a'' None (Some (5 * sec)))"
    by (simp add: token_by_hash_def chain_world_def chain_row_def)
  have u: "token_by_hash (hash_refresh_token (env_sha sample_env) ''b'') chain_world =
      Some (chain_row 8 ''b'' (Some 7) None)"
    by code_simp
  have "is_ok (fst (refresh sample_env (io_at (10 * sec) ''y'') ''b'' sample_context chain_world))"
    by code_simp
  then obtain pair v where "refresh sample_env (io_at (10 * sec) ''y'') ''b'' sample_context chain_world =
      (Inr pair, v)" by (auto simp: is_ok_def split: sum.splits) (metis prod.collapse)
  note r = this
  have rows: "\<not> active (chain_row 7 ''a'' None (Some (5 * sec)))"
    "t_family_id (chain_row 8 ''b'' (Some 7) None) = t_family_id (chain_row 7 ''a'' None (Some (5 * sec)))"
    "datetime_ok (io_now (io_at (10 * sec) ''x'') + cfg_refresh_lifetime sample_env)"
    "io_refresh (io_at (10 * sec) ''y'') = ''y''"
    by (simp_all add: chain_row_def session_row_def io_at_def sample_io_def sample_env_def datetime_ok_def)
  from replay_race [OF chain_db_ok t rows(1) u rows(2) r rows(3) surjective_pairing
      [of "interleave ([0, 0, 1, 0] @ [0, 0, 0, 0, 1, 1, 1, 1, 1, 1]) (pool sample_env
        [DoRefresh (io_at (10 * sec) ''x'') ''a'' sample_context, _], chain_world)"]]
  show ?thesis unfolding Let_def replaying_def rows(4) by auto
qed

text \<open>
  C35. The logout race: in every world with a live token that can be exchanged, when the exchange
  commits between the start of the statement with which a logout from all sessions of the token's user
  revokes the tokens and its end, the logout succeeds (after four more turns), the exchange succeeds
  (after six), and in every world from then on the new refresh token is live and an access token of
  the user that was issued at the end of the second of the logout, or later, is not refused by the
  epoch. When one of the requests follows the other, no token of the user is live.
\<close>

theorem logout_all_race:
  fixes w :: "'z world_scheme"
  assumes "db_ok w" "token_by_hash (hash_refresh_token (env_sha env) raw) w = Some u"
    and "refresh env io' raw c' w = (Inr pair, v)" "io_redis io" "datetime_ok (io_now io)"
    and "interleave ([0, 0, 1, 0] @ rest)
      (pool env [DoLogoutAll io (t_user_id u) c, DoRefresh io' raw c'], w) = (ps, w')"
  shows "(4 \<le> count_list rest 0 \<longrightarrow> ps ! 0 = Done (Inr Nothing_returned)) \<and>
    (6 \<le> count_list rest 1 \<longrightarrow> (\<exists>p. ps ! 1 = Done (Inr (Pair_returned p)) \<and>
       refresh_token p = io_refresh io')) \<and>
    (\<exists>x. token_by_hash (hash_refresh_token (env_sha env) (io_refresh io')) w' = Some x \<and> active x \<and>
       t_user_id x = t_user_id u \<and> t_expires_at x = io_now io' + cfg_refresh_lifetime env) \<and>
    (\<forall>jti iat now. ceil_seconds (io_now io) * sec \<le> iat \<and> \<not> jti_refused jti now w \<longrightarrow>
       \<not> is_blocked True jti (t_user_id u) iat now w') \<and>
    (\<forall>x \<in> set (tokens (snd (perform_all env
         [DoLogoutAll io (t_user_id u) c, DoRefresh io' raw c'] w))).
       t_user_id x = t_user_id u \<longrightarrow> \<not> active x) \<and>
    (\<forall>x \<in> set (tokens (snd (perform_all env
         [DoRefresh io' raw c', DoLogoutAll io (t_user_id u) c] w))).
       t_user_id x = t_user_id u \<longrightarrow> \<not> active x)"
    (is "?out \<and> ?given \<and> ?left \<and> ?accepted \<and> ?first \<and> ?second")
proof -
  let ?uid = "t_user_id u"
  let ?rq = "rotation_for env io' raw c'" and ?n = "next_id (refresh_tokens w)"
  let ?x = "replacement u ?rq ?n"
  let ?rot = "\<lparr>outcome = Rotated, result_token = Some (refresh_token_dto_of ?x),
    previous_issued_ip = t_issued_ip u\<rparr>"
  let ?q = "\<lambda>x. t_user_id x = ?uid \<and> active x"
  let ?y = "revoke_user True ?uid (io_now io) (access_token_ttl_seconds env) (io_redis_at io) w"
  obtain w0 where live: "active u"
    and rot0: "arotate (cfg_refresh_bind_device env) (env_inet_ok env) ?rq w = (Inr ?rot, w0)"
    and w0: "tokens w0 = consume_row (t_id u) (io_now io') (tokens w) @ [?x]" "tokens v = tokens w0"
    and d: "datetime_ok (io_now io' + cfg_refresh_lifetime env)"
      "datetime_ok (io_issued io' + cfg_access_lifetime env)"
    using refresh_success [OF assms(3)] assms(2) by (metis option.inject)
  have "refresh_tokens ?y = refresh_tokens w" "users ?y = users w" by simp_all
  from rotation_elsewhere [OF rot0 _ this] obtain w1
    where rot: "arotate (cfg_refresh_bind_device env) (env_inet_ok env) ?rq ?y = (Inr ?rot, w1)"
    and w1: "tokens w1 = consume_row (t_id u) (io_now io') (tokens w) @ [?x]"
    using w0(1) by auto
  let ?w2 = "revoke_tokens (\<lambda>x. t_id x \<in> set (map t_id (filter ?q (tokens w))) \<and> ?q x) (io_now io) w1"
  let ?p = "audit_proc env io 0 (event LOGOUT (actor ?uid c) True (Some [(''scope'', PStr ''all'')]))
    (Done (Inr Nothing_returned)) :: ('z world_scheme, exn + returned) proc"
  let ?p' = "map_proc (map_sum id Pair_returned) (rotated_proc env io' c' ?rot)"
  have live_y: "token_by_hash (hash_refresh_token (env_sha env) raw) ?y = Some u"
    using assms(2) by (simp add: token_by_hash_def)
  have "interleave [0, 0, 1, 0] (pool env [DoLogoutAll io ?uid c, DoRefresh io' raw c'], w) = ([?p, ?p'], ?w2)"
    using live_y assms(4) d(1) rot live
    by (simp add: pool_def logout_all_proc_def refresh_proc_def add_timedelta_def advance_pair
        rotate_proc_def turn_def [of "Step _"] bulk_revoke_def)
  then have run: "interleave rest ([?p, ?p'], ?w2) = (ps, w')"
    using assms(6) by (simp only: interleave_append)
  have "guarantees (\<lambda>w w'. tokens w' = tokens w \<and> redis w' = redis w) ?p"
    by (auto simp: audit_proc_def intro!: guarantees_query guarantees_effect)
  then have g: "\<forall>p \<in> set [?p, ?p']. guarantees (\<lambda>w w'. tokens w' = tokens w \<and> redis w' = redis w) p"
    by (auto intro!: rotated_tail)
  have rest: "tokens w' = tokens ?w2 \<and> redis w' = redis ?w2"
    by (rule interleave_guarantees [OF g _ _ run]) (simp_all add: reflp_def transp_def)
  have ?out
  proof
    assume n: "4 \<le> count_list rest 0"
    have "\<exists>a. ps ! 0 = Done a"
      by (rule interleave_finishes [OF assms(6), where n = 7])
        (use n within_proc_of in \<open>simp_all add: pool_def del: proc_of.simps\<close>)
    moreover have "pred_proc (\<lambda>b. b = Inr Nothing_returned) (ps ! 0)"
      by (rule interleave_answers [OF run]) (simp_all add: pred_proc_audit)
    ultimately show "ps ! 0 = Done (Inr Nothing_returned)" by auto
  qed
  moreover have ?given
  proof
    assume n: "6 \<le> count_list rest 1"
    have "\<exists>a. ps ! 1 = Done a"
      by (rule interleave_finishes [OF assms(6), where n = 7])
        (use n within_proc_of in \<open>simp_all add: pool_def del: proc_of.simps\<close>)
    moreover have "pred_proc (\<lambda>b. \<exists>p. b = Inr (Pair_returned p) \<and> refresh_token p = io_refresh io') (ps ! 1)"
      by (rule interleave_answers [OF run])
        (simp_all add: proc.pred_map comp_def pred_proc_given d(2))
    ultimately show "\<exists>p. ps ! 1 = Done (Inr (Pair_returned p)) \<and> refresh_token p = io_refresh io'" by auto
  qed
  moreover have ?left
  proof -
    have "token_by_hash (t_token_hash ?x) ?w2 = Some ?x"
      by (rule replacement_survives [OF assms(1) db_ok_arotate [OF db_ok_redis(1) [OF assms(1)] rot] w1])
        (auto simp: replacement_def)
    then show ?thesis using rest by (auto simp: token_by_hash_def replacement_def)
  qed
  moreover have ?accepted
  proof (intro allI impI)
    fix jti iat now
    assume h: "ceil_seconds (io_now io) * sec \<le> iat \<and> \<not> jti_refused jti now w"
    have "redis w' = redis ?y"
      using rest redis_arotate [OF rot] by (simp add: redis_tokens)
    then have "is_blocked True jti ?uid iat now w' = is_blocked True jti ?uid iat now ?y"
      by (rule is_blocked_cong)
    also have "\<dots> \<longleftrightarrow> False"
      using h assms(5) by (simp add: is_blocked_iff blocklist_defs jti_refused_def user_refused_def)
    finally show "\<not> is_blocked True jti ?uid iat now w'" by simp
  qed
  moreover have ?first
  proof -
    let ?z = "logout_all env io ?uid c w"
    have z: "tokens ?z = upd_where ?q (\<lambda>t. t\<lparr>t_revoked_at := Some (io_now io)\<rparr>) (tokens w)"
      by (simp add: logout_all_def arevoke_user_def)
    then have "token_by_hash (hash_refresh_token (env_sha env) raw) ?z = Some (u\<lparr>t_revoked_at := Some (io_now io)\<rparr>)"
      using assms(2) live by (simp add: token_by_hash_def first_revoked)
    from refresh_reused [OF this _ d(1)] show ?thesis
      unfolding serial_two by (simp add: arevoke_family_def ball_upd_where z)
  qed
  moreover have ?second
    unfolding serial_two
    by (simp add: assms(3) logout_all_def arevoke_user_def ball_upd_where)
  ultimately show ?thesis by blast
qed

theorem logout_all_race_witness:
  "let c = interleave ([0, 0, 1, 0] @ [0, 0, 0, 0, 1, 1, 1, 1, 1, 1]) (pool sample_env leaving, chain_world)
   in fst c ! 0 = Done (Inr Nothing_returned) \<and>
     (\<exists>x. token_by_hash (hash_refresh_token (env_sha sample_env) ''y'') (snd c) = Some x \<and> active x)"
proof -
  have u: "token_by_hash (hash_refresh_token (env_sha sample_env) ''b'') chain_world =
      Some (chain_row 8 ''b'' (Some 7) None)"
    by code_simp
  have "is_ok (fst (refresh sample_env (io_at (10 * sec) ''y'') ''b'' sample_context chain_world))"
    by code_simp
  then obtain pair v where r: "refresh sample_env (io_at (10 * sec) ''y'') ''b'' sample_context chain_world =
      (Inr pair, v)" by (auto simp: is_ok_def split: sum.splits) (metis prod.collapse)
  have io: "io_redis (io_at (10 * sec) ''x'')" "datetime_ok (io_now (io_at (10 * sec) ''x''))"
    "io_refresh (io_at (10 * sec) ''y'') = ''y''" "t_user_id (chain_row 8 ''b'' (Some 7) None) = 2"
    by (simp_all add: chain_row_def session_row_def io_at_def sample_io_def datetime_ok_def)
  from logout_all_race [OF chain_db_ok u r io(1,2) surjective_pairing
      [of "interleave ([0, 0, 1, 0] @ [0, 0, 0, 0, 1, 1, 1, 1, 1, 1]) (pool sample_env
        [DoLogoutAll (io_at (10 * sec) ''x'') (t_user_id (chain_row 8 ''b'' (Some 7) None)) sample_context, _],
        chain_world)"]]
  show ?thesis unfolding Let_def leaving_def io(3,4) by auto
qed

text \<open>
  C36. A later revocation with an earlier clock reading takes an epoch back. When a logout from all
  sessions of the user of a used token is over, an access token of the user issued before it is
  refused; when a refresh with the used token, which read its clock before that access token was
  issued and then waited, goes on after the logout, it is answered with \<open>TokenReused\<close>, sets the
  earlier epoch, and the access token is accepted again.
\<close>

theorem epoch_taken_back:
  assumes "token_by_hash (hash_refresh_token (env_sha env) raw) w = Some t" "\<not> active t"
    and "datetime_ok (io_now io + cfg_refresh_lifetime env)" "io_redis io" "io_redis io'"
    and "datetime_ok (io_now io)" "datetime_ok (io_now io')"
    and "ceil_seconds (io_now io) * sec \<le> iat" "iat < io_now io'"
    and "now < io_redis_at io' + access_token_ttl_seconds env * sec" "\<not> jti_refused jti now w"
    and "perform env (DoLogoutAll io' (t_user_id t) c') w = (r1, w1)"
    and "perform env (DoRefresh io raw c) w1 = (r2, w2)"
  shows "r1 = Inr Nothing_returned \<and> is_blocked True jti (t_user_id t) iat now w1 \<and>
    r2 = Inl (raise_domain TokenReused) \<and> \<not> is_blocked True jti (t_user_id t) iat now w2"
proof -
  let ?uid = "t_user_id t"
  have w1: "w1 = logout_all env io' ?uid c' w" "r1 = Inr Nothing_returned" using assms(12) by auto
  have tk: "tokens w1 = upd_where (\<lambda>x. t_user_id x = ?uid \<and> active x)
      (\<lambda>t. t\<lparr>t_revoked_at := Some (io_now io')\<rparr>) (tokens w)"
    by (simp add: w1 logout_all_def arevoke_user_def)
  have b1: "is_blocked True j ?uid i n w1 = is_blocked True j ?uid i n
      (revoke_user True ?uid (io_now io') (access_token_ttl_seconds env) (io_redis_at io') w)" for j i n
    by (rule is_blocked_cong) (simp add: w1 logout_all_def assms(5))
  have "is_blocked True jti ?uid iat now
      (revoke_user True ?uid (io_now io') (access_token_ttl_seconds env) (io_redis_at io') w)"
    unfolding is_blocked_iff using assms(7,9,10) by (intro disjI2 bl.revoke_before) simp_all
  then have "is_blocked True jti ?uid iat now w1" by (simp only: b1)
  moreover have "token_by_hash (hash_refresh_token (env_sha env) raw) w1 = Some t"
    using assms(1,2) by (simp add: token_by_hash_def tk first_revoked)
  note reused = refresh_reused [OF this assms(2,3)]
  have r2: "r2 = Inl (raise_domain TokenReused)" "w2 = close_session_of env io TOKEN_REUSE_DETECTED c
      (Some (refresh_token_dto_of t)) (arevoke_family (t_family_id t) (io_now io) w1)"
    using assms(13) by (simp_all add: reused returning_def)
  have uid: "rt_user_id (refresh_token_dto_of t) = ?uid" by (simp add: refresh_token_dto_of_def)
  have "is_blocked True jti ?uid iat now w2 = is_blocked True jti ?uid iat now
      (revoke_user True ?uid (io_now io) (access_token_ttl_seconds env) (io_redis_at io)
        (arevoke_family (t_family_id t) (io_now io) w1))"
    by (rule is_blocked_cong) (simp add: r2(2) close_session_of_def uid assms(4))
  moreover have "\<not> jti_refused jti now w1"
    using assms(11) by (simp add: jti_refused_def redis_get_def w1 logout_all_def assms(5)
        revoke_user_def redis_set_def)
  then have "\<not> is_blocked True jti ?uid iat now
      (revoke_user True ?uid (io_now io) (access_token_ttl_seconds env) (io_redis_at io)
        (arevoke_family (t_family_id t) (io_now io) w1))"
    using assms(6,8)
    by (simp add: is_blocked_iff blocklist_defs jti_refused_def user_refused_def redis_get_def
        redis_set_def)
  ultimately show ?thesis using w1(2) r2(1) by simp
qed

theorem epoch_taken_back_witness:
  "\<not> is_blocked True ''j'' 2 (10 * sec) (13 * sec) (snd (perform sample_env
     (DoRefresh ((io_at (12 * sec) ''x'')\<lparr>io_now := 9 * sec\<rparr>) ''a'' sample_context)
     (snd (perform sample_env (DoLogoutAll (io_at (11 * sec) ''y'') 2 sample_context) chain_world))))"
proof -
  have t: "token_by_hash (hash_refresh_token (env_sha sample_env) ''a'') chain_world =
      Some (chain_row 7 ''a'' None (Some (5 * sec)))"
    by (simp add: token_by_hash_def chain_world_def chain_row_def)
  have uid: "t_user_id (chain_row 7 ''a'' None (Some (5 * sec))) = 2"
    by (simp add: chain_row_def session_row_def)
  have "\<not> jti_refused ''j'' (13 * sec) chain_world" "access_token_ttl_seconds sample_env = 900" by code_simp+
  then show ?thesis
    using epoch_taken_back [OF t, of "(io_at (12 * sec) ''x'')\<lparr>io_now := 9 * sec\<rparr>" "io_at (11 * sec) ''y''"
      "10 * sec" "13 * sec" "''j''" sample_context _ _ sample_context, OF _ _ _ _ _ _ _ _ _ _
      surjective_pairing surjective_pairing]
    by (simp add: uid chain_row_def session_row_def io_at_def sample_io_def sample_env_def datetime_ok_def
        ceil_seconds_def)
qed

end
