(* ===== verification/Asgi.thy ===== *)
theory Asgi
  imports Errors
begin

text \<open>
  The ASGI entry point \<open>config/asgi.py\<close>: the lifespan protocol as a state machine.

  An input is the message \<open>receive\<close> gives, with the outcome of the database check it would start
  (\<open>None\<close> a connection; \<open>Some DatabaseUnavailable\<close> Django's \<open>OperationalError\<close>; any other exception
  as it is). The state is what has been sent and where the loop is. Scopes of another
  type go to Django's own application; the dispatch is in theory \<open>Deployment\<close>.
\<close>

datatype lifespan_message = LifespanStartup | LifespanShutdown | OtherMessage string

datatype lifespan_reply = StartupComplete | StartupFailed string | ShutdownComplete

type_synonym lifespan_input = "lifespan_message \<times> exn option"

datatype control = Looping | Returned | Raised exn

record lifespan =
  ls_control :: control
  ls_sent :: "lifespan_reply list"

definition lifespan_start :: lifespan where
  "lifespan_start = \<lparr>ls_control = Looping, ls_sent = []\<rparr>"

text \<open>One round of the \<open>while True\<close> loop.\<close>

fun lifespan_round :: "lifespan_input \<Rightarrow> lifespan_reply list \<Rightarrow> lifespan" where
  "lifespan_round (LifespanStartup, None) out =
     \<lparr>ls_control = Looping, ls_sent = out @ [StartupComplete]\<rparr>"
| "lifespan_round (LifespanStartup, Some DatabaseUnavailable) out =
     \<lparr>ls_control = Returned,
      ls_sent = out @ [StartupFailed ''Database connection is unavailable.'']\<rparr>"
| "lifespan_round (LifespanStartup, Some e) out = \<lparr>ls_control = Raised e, ls_sent = out\<rparr>"
| "lifespan_round (LifespanShutdown, _) out =
     \<lparr>ls_control = Returned, ls_sent = out @ [ShutdownComplete]\<rparr>"
| "lifespan_round (OtherMessage _, _) out = \<lparr>ls_control = Looping, ls_sent = out\<rparr>"

inductive lifespan_step :: "lifespan \<Rightarrow> lifespan_input \<Rightarrow> lifespan \<Rightarrow> bool" where
  receive: "ls_control st = Looping \<Longrightarrow> lifespan_step st i (lifespan_round i (ls_sent st))"

inductive lifespan_run :: "lifespan \<Rightarrow> lifespan_input list \<Rightarrow> lifespan \<Rightarrow> bool" where
  none: "lifespan_run st [] st"
| snoc: "lifespan_run st is st' \<Longrightarrow> lifespan_step st' i st'' \<Longrightarrow> lifespan_run st (is @ [i]) st''"

inductive_cases lifespan_stepE [elim!]: "lifespan_step st i st'"
inductive_simps lifespan_run_Nil [simp]: "lifespan_run st [] st'"
inductive_simps lifespan_run_snoc [simp]: "lifespan_run st (is @ [i]) st'"

code_pred lifespan_step .

subsection \<open>What the protocol guarantees\<close>

text \<open>The replies the inputs deserve, one by one.\<close>

fun reply_to :: "lifespan_input \<Rightarrow> lifespan_reply list" where
  "reply_to (LifespanStartup, None) = [StartupComplete]"
| "reply_to (LifespanStartup, Some e) =
     (if e = DatabaseUnavailable then [StartupFailed ''Database connection is unavailable.''] else [])"
| "reply_to (LifespanShutdown, _) = [ShutdownComplete]"
| "reply_to (OtherMessage _, _) = []"

fun keeps_looping :: "lifespan_input \<Rightarrow> bool" where
  "keeps_looping (LifespanStartup, r) = (r = None)"
| "keeps_looping (LifespanShutdown, _) = False"
| "keeps_looping (OtherMessage _, _) = True"

lemma lifespan_round_sent: "ls_sent (lifespan_round i out) = out @ reply_to i"
  by (induction i out rule: lifespan_round.induct) simp_all

lemma lifespan_round_looping: "ls_control (lifespan_round i out) = Looping \<longleftrightarrow> keeps_looping i"
  by (induction i out rule: lifespan_round.induct) simp_all

lemma lifespan_step_deterministic:
  "lifespan_step st i st' \<Longrightarrow> lifespan_step st i st'' \<Longrightarrow> st' = st''"
  by auto

lemma lifespan_run_sent:
  assumes "lifespan_run lifespan_start is st"
  shows "ls_sent st = concat (map reply_to is) \<and>
    (ls_control st = Looping \<longleftrightarrow> list_all keeps_looping is)"
  using assms
proof (induction "lifespan_start" "is" st rule: lifespan_run.induct)
  case none
  then show ?case by (simp add: lifespan_start_def)
next
  case (snoc "is" st' i st'')
  then show ?case
    by (auto simp: lifespan_round_sent lifespan_round_looping)
qed

lemma lifespan_run_prefix_loops:
  assumes "lifespan_run lifespan_start is st"
  shows "list_all keeps_looping (butlast is)"
  using assms
proof (cases "is" rule: rev_cases)
  case (snoc js i)
  with assms obtain st' where "lifespan_run lifespan_start js st'" "ls_control st' = Looping" by auto
  with lifespan_run_sent snoc show ?thesis by auto
qed simp

text \<open>
  Startup only on a reachable database: in every run of the lifespan protocol exactly one reply is
  sent per startup and shutdown message, in their order; each \<open>startup.complete\<close> answers a startup
  whose database check succeeded; and a failed startup or a shutdown is the last message the
  application reads, so nothing is sent after its reply.
\<close>

theorem lifespan_replies:
  assumes "lifespan_run lifespan_start is st"
  shows "ls_sent st = concat (map reply_to is) \<and>
    count_list (ls_sent st) StartupComplete = count_list is (LifespanStartup, None) \<and>
    (\<forall>i \<in> set (butlast is). keeps_looping i) \<and>
    (\<forall>r \<in> set (butlast (ls_sent st)). r = StartupComplete)"
proof -
  have sent: "ls_sent st = concat (map reply_to is)" using lifespan_run_sent [OF assms] by simp
  have loops: "list_all keeps_looping (butlast is)" using lifespan_run_prefix_loops [OF assms] .
  have "count_list (concat (map reply_to js)) StartupComplete = count_list js (LifespanStartup, None)" for js
  proof (induction js)
    case (Cons j js)
    then show ?case by (cases j rule: reply_to.cases) auto
  qed simp
  moreover have only: "set (concat (map reply_to js)) \<subseteq> {StartupComplete}"
    if "list_all keeps_looping js" for js
    using that
  proof (induction js)
    case (Cons j js)
    then show ?case by (cases j rule: reply_to.cases) auto
  qed simp
  moreover have "\<forall>r \<in> set (butlast (concat (map reply_to is))). r = StartupComplete"
  proof (cases "is" rule: rev_cases)
    case (snoc js i)
    have "length (reply_to i) \<le> 1" by (cases i rule: reply_to.cases) auto
    then consider "reply_to i = []" | r where "reply_to i = [r]"
      by (cases "reply_to i") auto
    then show ?thesis
    proof cases
      case 1
      have "set (concat (map reply_to js)) \<subseteq> {StartupComplete}" using snoc only loops by simp
      then have "\<forall>r \<in> set (butlast (concat (map reply_to js))). r = StartupComplete"
        by (meson in_set_butlastD singletonD subsetD)
      with 1 snoc show ?thesis by simp
    next
      case 2
      with snoc only [of js] loops show ?thesis by (auto simp: butlast_append)
    qed
  qed simp
  ultimately show ?thesis using sent loops by (simp add: list_all_iff)
qed

theorem lifespan_replies_witness:
  "ls_sent (lifespan_round (LifespanShutdown, None) [StartupComplete]) =
    [StartupComplete, ShutdownComplete]"
proof -
  have s: "lifespan_step lifespan_start (LifespanStartup, None)
      (lifespan_round (LifespanStartup, None) [])"
    using lifespan_step.receive [of lifespan_start "(LifespanStartup, None)"]
    by (simp add: lifespan_start_def)
  have "lifespan_run lifespan_start ([] @ [(LifespanStartup, None)])
      (lifespan_round (LifespanStartup, None) [])"
    by (rule lifespan_run.snoc [OF lifespan_run.none s])
  moreover have "lifespan_step (lifespan_round (LifespanStartup, None) []) (LifespanShutdown, None)
      (lifespan_round (LifespanShutdown, None) [StartupComplete])"
    using lifespan_step.receive [of "lifespan_round (LifespanStartup, None) []" "(LifespanShutdown, None)"]
    by simp
  ultimately have "lifespan_run lifespan_start (([] @ [(LifespanStartup, None)]) @ [(LifespanShutdown, None)])
      (lifespan_round (LifespanShutdown, None) [StartupComplete])"
    by (rule lifespan_run.snoc)
  from lifespan_replies [OF this] show ?thesis by simp
qed

end
