(* ===== verification/Deployment.thy ===== *)
theory Deployment
  imports Settings Asgi
begin

text \<open>
  What the service is started with: the settings modules \<open>config/settings/base.py\<close>, \<open>dev.py\<close> and
  \<open>prod.py\<close> as the values they give Django, the configuration the services read, and the dispatch and
  the database check of \<open>config/asgi.py\<close>.

  Django's own defaults stay out: a module sets what it sets. \<open>parse_db\<close> is \<open>dj_database_url.parse\<close>;
  only the keys that the code reads or overrides are kept.
\<close>

subsection \<open>The settings modules\<close>

record database_settings =
  da_url :: database_config
  da_conn_max_age :: int
  da_conn_health_checks :: bool

record cache_settings =
  ca_backend :: string
  ca_location :: string
  ca_ignore_exceptions :: bool
  ca_key_prefix :: string

record django_settings =
  dj_secret_key :: string
  dj_debug :: bool
  dj_allowed_hosts :: "string list"
  dj_root_urlconf :: string
  dj_asgi_application :: string
  dj_default_auto_field :: string
  dj_auth_user_model :: string
  dj_language_code :: string
  dj_time_zone :: string
  dj_use_i18n :: bool
  dj_use_tz :: bool
  dj_installed_apps :: "string list"
  dj_middleware :: "string list"
  dj_template_backend :: string
  dj_template_dirs :: "string list"
  dj_app_dirs :: bool
  dj_context_processors :: "string list"
  dj_database :: database_settings
  dj_cache :: cache_settings
  dj_password_hashers :: "string list"
  dj_static_url :: string

definition INSTALLED_APPS :: "string list" where
  "INSTALLED_APPS = [''django.contrib.admin'', ''django.contrib.auth'', ''django.contrib.contenttypes'',
     ''django.contrib.sessions'', ''django.contrib.messages'', ''django.contrib.staticfiles'',
     ''apps.accounts'', ''apps.authz'', ''apps.audit'', ''apps.common'']"

definition MIDDLEWARE :: "string list" where
  "MIDDLEWARE = [''django.middleware.security.SecurityMiddleware'',
     ''django.contrib.sessions.middleware.SessionMiddleware'',
     ''django.middleware.common.CommonMiddleware'',
     ''django.middleware.csrf.CsrfViewMiddleware'',
     ''django.contrib.auth.middleware.AuthenticationMiddleware'',
     ''django.contrib.messages.middleware.MessageMiddleware'',
     ''django.middleware.clickjacking.XFrameOptionsMiddleware'']"

definition CONTEXT_PROCESSORS :: "string list" where
  "CONTEXT_PROCESSORS = [''django.template.context_processors.request'',
     ''django.contrib.auth.context_processors.auth'',
     ''django.contrib.messages.context_processors.messages'']"

definition PASSWORD_HASHERS :: "string list" where
  "PASSWORD_HASHERS = [''django.contrib.auth.hashers.Argon2PasswordHasher'',
     ''django.contrib.auth.hashers.PBKDF2PasswordHasher'',
     ''django.contrib.auth.hashers.PBKDF2SHA1PasswordHasher'',
     ''django.contrib.auth.hashers.BCryptSHA256PasswordHasher'',
     ''django.contrib.auth.hashers.ScryptPasswordHasher'']"

definition DATABASES :: "database_config \<Rightarrow> database_settings" where
  "DATABASES c = \<lparr>da_url = c, da_conn_max_age = 0, da_conn_health_checks = False\<rparr>"

definition CACHES :: "'z loaded_scheme \<Rightarrow> cache_settings" where
  "CACHES s = \<lparr>ca_backend = ''django_redis.cache.RedisCache'', ca_location = ld_redis_url s,
     ca_ignore_exceptions = True, ca_key_prefix = ''rbac_auth''\<rparr>"

definition base_module ::
  "(string \<Rightarrow> exn + database_config) \<Rightarrow> 'z loaded_scheme \<Rightarrow> exn + django_settings" where
  "base_module parse_db s = bind_sum (parse_db (ld_database_url s)) (\<lambda>c. Inr \<lparr>
     dj_secret_key = ld_django_secret_key s, dj_debug = False, dj_allowed_hosts = [],
     dj_root_urlconf = ''config.urls'', dj_asgi_application = ''config.asgi.application'',
     dj_default_auto_field = ''django.db.models.BigAutoField'',
     dj_auth_user_model = ''accounts.User'', dj_language_code = ''en-us'', dj_time_zone = ''UTC'',
     dj_use_i18n = True, dj_use_tz = True, dj_installed_apps = INSTALLED_APPS,
     dj_middleware = MIDDLEWARE,
     dj_template_backend = ''django.template.backends.django.DjangoTemplates'',
     dj_template_dirs = [], dj_app_dirs = True, dj_context_processors = CONTEXT_PROCESSORS,
     dj_database = DATABASES c, dj_cache = CACHES s, dj_password_hashers = PASSWORD_HASHERS,
     dj_static_url = ''static/''\<rparr>)"

definition dev_module ::
  "(string \<Rightarrow> exn + database_config) \<Rightarrow> 'z loaded_scheme \<Rightarrow> exn + django_settings" where
  "dev_module parse_db s = bind_sum (base_module parse_db s) (\<lambda>d. Inr (d\<lparr>dj_debug := True,
     dj_allowed_hosts := [''localhost'', ''127.0.0.1'', ''testserver'']\<rparr>))"

record production_settings = django_settings +
  pr_ssl_redirect :: bool
  pr_session_cookie_secure :: bool
  pr_csrf_cookie_secure :: bool
  pr_hsts_seconds :: int
  pr_hsts_include_subdomains :: bool
  pr_hsts_preload :: bool
  pr_content_type_nosniff :: bool
  pr_referrer_policy :: string

definition prod_module ::
  "(string \<Rightarrow> exn + database_config) \<Rightarrow> 'z loaded_scheme \<Rightarrow> exn + production_settings" where
  "prod_module parse_db s =
     bind_sum (base_module parse_db s) (\<lambda>d.
     bind_sum (prod_allowed_hosts s) (\<lambda>hosts.
       Inr (django_settings.extend (d\<lparr>dj_debug := False, dj_allowed_hosts := hosts\<rparr>)
         (production_settings.fields True True True 31536000 True True True ''same-origin''))))"

text \<open>
  The configuration of the services: the settings that the code reads by \<open>settings.X\<close> at each call,
  with the libraries it is linked to.
\<close>

definition service_env ::
  "'z loaded_scheme \<Rightarrow> (string \<Rightarrow> string) \<Rightarrow> make_password \<Rightarrow> check_password \<Rightarrow> string \<Rightarrow> digest \<Rightarrow>
     jwt_encode \<Rightarrow> jwt_decode \<Rightarrow> (string \<Rightarrow> bool) \<Rightarrow> (string \<Rightarrow> string option) \<Rightarrow> env" where
  "service_env s norm mkpw chk salt sha enc dec inet email =
    \<lparr>cfg_jwt_secret = cfg_jwt_secret s, cfg_access_lifetime = cfg_access_lifetime s,
     cfg_refresh_lifetime = cfg_refresh_lifetime s,
     cfg_refresh_bind_device = cfg_refresh_bind_device s,
     cfg_refresh_bind_ip = cfg_refresh_bind_ip s,
     cfg_default_user_role = cfg_default_user_role s,
     cfg_trusted_proxy_cidrs = cfg_trusted_proxy_cidrs s, env_normalize = norm,
     env_make_password = mkpw, env_check_password = chk, env_import_salt = salt, env_sha = sha,
     env_jwt_encode = enc, env_jwt_decode = dec, env_inet_ok = inet, env_email_str = email\<rparr>"

subsection \<open>The ASGI application\<close>

text \<open>
  A connection is open or not; \<open>attempt\<close> is what connecting gives. \<open>ensure_connection\<close> connects only
  when there is no open connection.
\<close>

definition ensure_connection :: "exn option \<Rightarrow> bool \<Rightarrow> (exn + unit) \<times> bool" where
  "ensure_connection attempt is_open =
     (if is_open then (Inr (), True)
      else case attempt of None \<Rightarrow> (Inr (), True) | Some e \<Rightarrow> (Inl e, False))"

definition ensure_database_connection :: "exn option \<Rightarrow> bool \<Rightarrow> (exn + unit) \<times> bool" where
  "ensure_database_connection attempt is_open =
     (case ensure_connection attempt is_open of
        (Inl e, b) \<Rightarrow> (Inl e, b)
      | (Inr _, b) \<Rightarrow> (Inr (), False))"

definition database_is_ready :: "exn option \<Rightarrow> bool \<Rightarrow> (exn + unit) \<times> bool" where
  "database_is_ready attempt is_open = ensure_database_connection attempt is_open"

text \<open>A scope of any other type goes to Django's application, whose work is a parameter.\<close>

datatype 'r handled = ByDjango 'r | Lifespan lifespan

fun lifespan_rounds :: "lifespan_input list \<Rightarrow> lifespan \<Rightarrow> lifespan" where
  "lifespan_rounds [] st = st"
| "lifespan_rounds (i # is) st =
     (if ls_control st = Looping then lifespan_rounds is (lifespan_round i (ls_sent st)) else st)"

definition application ::
  "(string \<Rightarrow> 'r) \<Rightarrow> string \<Rightarrow> (lifespan_message \<times> exn option) list \<Rightarrow> 'r handled" where
  "application django_application scope_type messages =
     (if scope_type \<noteq> ''lifespan'' then ByDjango (django_application scope_type)
      else Lifespan (lifespan_rounds
        (map (\<lambda>(m, attempt). (m, case fst (database_is_ready attempt False) of
           Inl e \<Rightarrow> Some e | Inr _ \<Rightarrow> None)) messages) lifespan_start))"

subsection \<open>What a start has established\<close>

lemma base_module_Inr:
  "base_module parse_db s = Inr d \<Longrightarrow> dj_secret_key d = ld_django_secret_key s \<and>
    dj_installed_apps d = INSTALLED_APPS \<and> dj_middleware d = MIDDLEWARE \<and>
    da_conn_max_age (dj_database d) = 0 \<and> ca_ignore_exceptions (dj_cache d) \<and>
    parse_db (ld_database_url s) = Inr (da_url (dj_database d))"
  by (auto simp: base_module_def bind_sum_eq_Inr DATABASES_def CACHES_def)

lemma prod_module_Inr:
  assumes "prod_module parse_db s = Inr d"
  obtains b where "base_module parse_db s = Inr b" "ld_allowed_hosts s \<noteq> []"
    "django_settings.truncate d = b\<lparr>dj_debug := False, dj_allowed_hosts := ld_allowed_hosts s\<rparr>"
    "pr_ssl_redirect d \<and> pr_session_cookie_secure d \<and> pr_csrf_cookie_secure d \<and> 0 < pr_hsts_seconds d"
  using assms
  by (auto simp: prod_module_def prod_allowed_hosts_def bind_sum_eq_Inr django_settings.defs
      production_settings.defs split: if_splits)

lemma parse_allowed_hosts_clean: "[] \<notin> set (parse_allowed_hosts (Inl v))"
  by (simp add: parse_allowed_hosts_def)

lemma load_settings_hosts:
  assumes "load_settings parse_db parse_bool v = Inr s"
  shows "ld_allowed_hosts s = (case var_allowed_hosts v of None \<Rightarrow> [] | Some h \<Rightarrow> parse_allowed_hosts (Inl h))"
  using assms unfolding load_settings_def Let_def
  by (simp split: sum.splits) (hypsubst, simp)

lemma first_untrusted_ok: "cidrs_ok cidrs \<Longrightarrow> is_ok (first_untrusted cidrs r cs)"
  by (simp add: first_untrusted_find)

lemma client_ip_ok: "cidrs_ok cidrs \<Longrightarrow> is_ok (client_ip cidrs rq)"
  by (auto simp: client_ip_def bind_sum_def first_untrusted_find split: option.splits sum.splits)

lemma from_request_ok: "cidrs_ok cidrs \<Longrightarrow> is_ok (from_request cidrs rq uid)"
  using client_ip_ok [of cidrs rq] by (auto simp: from_request_def elim: is_okE)

lemma service_env_simps [simp]:
  "cfg_jwt_secret (service_env s nm mkpw chk salt sha enc dec inet email) = cfg_jwt_secret s"
  "cfg_access_lifetime (service_env s nm mkpw chk salt sha enc dec inet email) = cfg_access_lifetime s"
  "cfg_trusted_proxy_cidrs (service_env s nm mkpw chk salt sha enc dec inet email) =
     cfg_trusted_proxy_cidrs s"
  by (simp_all add: service_env_def)

lemma whole_minutes_ttl:
  "whole_minutes (cfg_access_lifetime env) \<Longrightarrow>
    access_token_ttl_seconds env * sec = cfg_access_lifetime env"
proof -
  assume w: "whole_minutes (cfg_access_lifetime env)"
  then have "60 * sec dvd cfg_access_lifetime env" "0 < cfg_access_lifetime env"
    by (auto simp: whole_minutes_def mod_eq_0_iff_dvd)
  then obtain k where k: "cfg_access_lifetime env = 60 * sec * k" "0 < k"
    by (auto elim!: dvdE simp: zero_less_mult_iff)
  then have "cfg_access_lifetime env div sec = 60 * k" by simp
  with k show ?thesis by (simp add: access_token_ttl_seconds_def max_def)
qed

text \<open>
  C32. A production start: when the settings load and \<open>prod.py\<close> accepts them, debugging is off, the
  allowed hosts are not empty and none of them is blank, Django's secret and the JWT secret differ and
  have at least 32 characters, the database is PostgreSQL without persistent connections, redirects,
  cookies and HSTS are secured; and in the services so configured the lifetime of a blocklist entry is
  exactly that of an access token, and no request fails because of the trusted proxy list.
\<close>

theorem production_start:
  assumes "load_settings parse_db parse_bool v = Inr s" "prod_module parse_db s = Inr d"
    and "env = service_env s nm mkpw chk salt sha enc dec inet email"
  shows "\<not> dj_debug d \<and> dj_allowed_hosts d \<noteq> [] \<and> [] \<notin> set (dj_allowed_hosts d) \<and>
    dj_secret_key d \<noteq> cfg_jwt_secret env \<and> 32 \<le> length (dj_secret_key d) \<and>
    32 \<le> length (cfg_jwt_secret env) \<and>
    db_engine (da_url (dj_database d)) = Some ''django.db.backends.postgresql'' \<and>
    da_conn_max_age (dj_database d) = 0 \<and>
    pr_ssl_redirect d \<and> pr_session_cookie_secure d \<and> pr_csrf_cookie_secure d \<and> 0 < pr_hsts_seconds d \<and>
    0 < cfg_access_lifetime env \<and>
    access_token_ttl_seconds env * sec = cfg_access_lifetime env \<and>
    (\<forall>rq uid. is_ok (from_request (cfg_trusted_proxy_cidrs env) rq uid))"
proof -
  note L = load_settings_sound [OF assms(1)]
  from assms(2) obtain b where b: "base_module parse_db s = Inr b" "ld_allowed_hosts s \<noteq> []"
    "django_settings.truncate d = b\<lparr>dj_debug := False, dj_allowed_hosts := ld_allowed_hosts s\<rparr>"
    "pr_ssl_redirect d \<and> pr_session_cookie_secure d \<and> pr_csrf_cookie_secure d \<and> 0 < pr_hsts_seconds d"
    by (rule prod_module_Inr)
  have d: "\<not> dj_debug d" "dj_allowed_hosts d = ld_allowed_hosts s" "dj_secret_key d = dj_secret_key b"
    "dj_database d = dj_database b"
    using arg_cong [OF b(3), of dj_debug] arg_cong [OF b(3), of dj_allowed_hosts]
      arg_cong [OF b(3), of dj_secret_key] arg_cong [OF b(3), of dj_database]
    by (simp_all add: django_settings.truncate_def)
  have "[] \<notin> set (ld_allowed_hosts s)"
    using load_settings_hosts [OF assms(1)] parse_allowed_hosts_clean by (simp split: option.splits)
  moreover have "whole_minutes (cfg_access_lifetime env)" using L assms(3) by simp
  then have "0 < cfg_access_lifetime env" "access_token_ttl_seconds env * sec = cfg_access_lifetime env"
    by (simp add: whole_minutes_def, rule whole_minutes_ttl)
  moreover have "is_ok (from_request (cfg_trusted_proxy_cidrs env) rq uid)" for rq uid
    using L assms(3) by (intro from_request_ok) simp
  ultimately show ?thesis
    using L base_module_Inr [OF b(1)] b(2,4) d assms(3) by auto
qed

theorem production_start_witness:
  "case prod_module sample_parse_db sample_loaded of Inl _ \<Rightarrow> False
   | Inr d \<Rightarrow> \<not> dj_debug d \<and> [] \<notin> set (dj_allowed_hosts d) \<and> da_conn_max_age (dj_database d) = 0"
proof -
  have "is_ok (prod_module sample_parse_db sample_loaded)" by code_simp
  then obtain d where d: "prod_module sample_parse_db sample_loaded = Inr d" by (rule is_okE)
  from production_start [OF sample_vars_load d refl] show ?thesis unfolding d sum.case by blast
qed

subsection \<open>The lifespan scope\<close>

text \<open>The loop reads messages until it returns or raises.\<close>

lemma lifespan_rounds_run:
  assumes "lifespan_run lifespan_start done_is st"
  shows "\<exists>k. lifespan_run lifespan_start (done_is @ take k is) (lifespan_rounds is st)"
  using assms
proof (induction "is" arbitrary: done_is st)
  case (Cons i "is")
  show ?case
  proof (cases "ls_control st = Looping")
    case True
    have "lifespan_run lifespan_start (done_is @ [i]) (lifespan_round i (ls_sent st))"
      by (rule lifespan_run.snoc [OF Cons.prems lifespan_step.receive [OF True]])
    from Cons.IH [OF this] obtain k where
      "lifespan_run lifespan_start ((done_is @ [i]) @ take k is) (lifespan_rounds (i # is) st)"
      using True by auto
    then show ?thesis by (intro exI [of _ "Suc k"]) simp
  next
    case False
    with Cons.prems show ?thesis by (intro exI [of _ 0]) simp
  qed
qed auto

lemma database_is_ready_None: "fst (database_is_ready attempt False) = Inr () \<longleftrightarrow> attempt = None"
  by (simp add: database_is_ready_def ensure_database_connection_def ensure_connection_def
      split: option.split)

text \<open>The check leaves no connection open.\<close>

lemma database_is_ready_closed: "\<not> snd (database_is_ready attempt b)"
  by (simp add: database_is_ready_def ensure_database_connection_def ensure_connection_def
      split: option.split)

end
