(* ===== verification/Wiring.thy ===== *)
theory Wiring
  imports Blocklist Deployment "HOL-Library.State_Monad"
begin

text \<open>
  How the parts are put together: the constructors of the services, the configurations of the
  applications, and the entry points \<open>manage.py\<close> and \<open>config/asgi.py\<close>.

  An object is the number it was allocated with and the objects it refers to; a constructor is a state
  transformer over the next free number. A default \<open>x or Y()\<close> takes the argument when there is one:
  none of the classes defines its own truth value.
\<close>

subsection \<open>Services and their collaborators\<close>

datatype repository = Repository nat

record blocklist_service =
  bs_id :: nat
  bs_redis :: "nat option"

record audit_service =
  as_id :: nat
  as_repository :: repository
  as_users :: repository

record auth_service =
  au_id :: nat
  au_users :: repository
  au_authz :: repository
  au_refresh_tokens :: repository
  au_audit :: audit_service
  au_blocklist :: blocklist_service

record admin_service =
  ad_id :: nat
  ad_users :: repository
  ad_authz :: repository
  ad_blocklist :: blocklist_service
  ad_auth :: auth_service
  ad_audit :: audit_service
  ad_audit_records :: repository

record jwt_auth =
  ja_id :: nat
  ja_blocklist :: blocklist_service

definition allocate :: "(nat, nat) state" where
  "allocate = State (\<lambda>n. (n, n + 1))"

definition or_new :: "'a option \<Rightarrow> (nat, 'a) state \<Rightarrow> (nat, 'a) state" where
  "or_new given build = (case given of Some x \<Rightarrow> State_Monad.return x | None \<Rightarrow> build)"

definition new_repository :: "(nat, repository) state" where
  "new_repository = do {i \<leftarrow> allocate; State_Monad.return (Repository i)}"

definition new_blocklist_service :: "nat option \<Rightarrow> (nat, blocklist_service) state" where
  "new_blocklist_service redis_client = do {
     i \<leftarrow> allocate;
     State_Monad.return \<lparr>bs_id = i, bs_redis = redis_client\<rparr>}"

definition new_audit_service ::
  "repository option \<Rightarrow> repository option \<Rightarrow> (nat, audit_service) state" where
  "new_audit_service repository user_repo = do {
     i \<leftarrow> allocate;
     repository \<leftarrow> or_new repository new_repository;
     user_repo \<leftarrow> or_new user_repo new_repository;
     State_Monad.return \<lparr>as_id = i, as_repository = repository, as_users = user_repo\<rparr>}"

definition new_auth_service ::
  "repository option \<Rightarrow> repository option \<Rightarrow> repository option \<Rightarrow> audit_service option \<Rightarrow>
     blocklist_service option \<Rightarrow> (nat, auth_service) state" where
  "new_auth_service user_repo authz token_repo audit block_list = do {
     i \<leftarrow> allocate;
     user_repo \<leftarrow> or_new user_repo new_repository;
     authz \<leftarrow> or_new authz new_repository;
     token_repo \<leftarrow> or_new token_repo new_repository;
     audit \<leftarrow> or_new audit (new_audit_service None None);
     block_list \<leftarrow> or_new block_list (new_blocklist_service None);
     State_Monad.return \<lparr>au_id = i, au_users = user_repo, au_authz = authz,
       au_refresh_tokens = token_repo, au_audit = audit, au_blocklist = block_list\<rparr>}"

definition new_admin_service ::
  "repository option \<Rightarrow> repository option \<Rightarrow> auth_service option \<Rightarrow> audit_service option \<Rightarrow>
     repository option \<Rightarrow> blocklist_service option \<Rightarrow> (nat, admin_service) state" where
  "new_admin_service user_repo authz auth audit audit_records block_list = do {
     i \<leftarrow> allocate;
     user_repo \<leftarrow> or_new user_repo new_repository;
     authz \<leftarrow> or_new authz new_repository;
     block_list \<leftarrow> or_new block_list (new_blocklist_service None);
     auth \<leftarrow> or_new auth (new_auth_service (Some user_repo) (Some authz) None None (Some block_list));
     audit \<leftarrow> or_new audit (new_audit_service None None);
     audit_records \<leftarrow> or_new audit_records new_repository;
     State_Monad.return \<lparr>ad_id = i, ad_users = user_repo, ad_authz = authz, ad_blocklist = block_list,
       ad_auth = auth, ad_audit = audit, ad_audit_records = audit_records\<rparr>}"

definition new_jwt_auth :: "blocklist_service option \<Rightarrow> (nat, jwt_auth) state" where
  "new_jwt_auth block_list = do {
     i \<leftarrow> allocate;
     block_list \<leftarrow> or_new block_list (new_blocklist_service None);
     State_Monad.return \<lparr>ja_id = i, ja_blocklist = block_list\<rparr>}"

lemma run_allocate [simp]: "run_state allocate n = (n, n + 1)"
  by (simp add: allocate_def)

lemma run_or_new [simp]:
  "run_state (or_new (Some x) build) n = (x, n)" "run_state (or_new None build) n = run_state build n"
  by (simp_all add: or_new_def)

lemmas constructor_defs = new_repository_def new_blocklist_service_def new_audit_service_def
  new_auth_service_def new_admin_service_def new_jwt_auth_def

text \<open>
  Whatever collaborators an \<open>AdminService\<close> is given, the \<open>AuthService\<close> it builds itself works on its
  repositories and its block_list, with an audit service of its own.
\<close>

lemma admin_shares:
  assumes "run_state (new_admin_service user_repo authz None audit audit_records block_list) n = (s, n')"
  shows "au_users (ad_auth s) = ad_users s \<and> au_authz (ad_auth s) = ad_authz s \<and>
    au_blocklist (ad_auth s) = ad_blocklist s"
  using assms
  by (cases user_repo; cases authz; cases audit; cases audit_records; cases block_list)
    (auto simp: constructor_defs)

lemma admin_audits_apart:
  assumes "run_state (new_admin_service user_repo authz None None audit_records block_list) n = (s, n')"
  shows "as_id (au_audit (ad_auth s)) \<noteq> as_id (ad_audit s)"
  using assms
  by (cases user_repo; cases authz; cases audit_records; cases block_list) (auto simp: constructor_defs)

text \<open>
  The services the routes build without arguments, and the authentication callback, have no Redis client
  of their own: on one event loop all of them reach the client of that loop.
\<close>

lemma services_one_client:
  assumes "clients_ok c"
    and "run_state (new_auth_service None None None None None) n = (a, n')"
    and "run_state (new_admin_service None None None None None None) m = (s, m')"
    and "run_state (new_jwt_auth None) k = (j, k')"
    and "service_client (bs_redis (ja_blocklist j)) loop c = (r1, c1)"
    and "service_client (bs_redis (au_blocklist a)) loop c1 = (r2, c2)"
    and "service_client (bs_redis (ad_blocklist s)) loop c2 = (r3, c3)"
  shows "r2 = r1 \<and> r3 = r1 \<and> c3 = c1"
proof -
  have none: "bs_redis (ja_blocklist j) = None" "bs_redis (au_blocklist a) = None"
    "bs_redis (ad_blocklist s) = None"
    using assms(2-4) by (auto simp: constructor_defs)
  then have "get_redis_client loop c = (r1, c1)" using assms(5) by (simp add: service_client_def)
  from clients_ok_get [OF assms(1) this] have "loop_clients c1 loop = Some r1" by blast
  with none assms(6,7) show ?thesis by (auto simp: service_client_def get_redis_client_def)
qed

subsection \<open>Applications and entry points\<close>

record app_config =
  ap_default_auto_field :: string
  ap_name :: string
  ap_label :: string

definition accounts_config :: app_config where
  "accounts_config = \<lparr>ap_default_auto_field = ''django.db.models.BigAutoField'',
     ap_name = ''apps.accounts'', ap_label = ''accounts''\<rparr>"

definition authz_config :: app_config where
  "authz_config = \<lparr>ap_default_auto_field = ''django.db.models.BigAutoField'',
     ap_name = ''apps.authz'', ap_label = ''authz''\<rparr>"

definition audit_config :: app_config where
  "audit_config = \<lparr>ap_default_auto_field = ''django.db.models.BigAutoField'',
     ap_name = ''apps.audit'', ap_label = ''audit''\<rparr>"

definition common_config :: app_config where
  "common_config = \<lparr>ap_default_auto_field = ''django.db.models.BigAutoField'',
     ap_name = ''apps.common'', ap_label = ''common''\<rparr>"

definition app_configs :: "app_config list" where
  "app_configs = [accounts_config, authz_config, audit_config, common_config]"

text \<open>
  The applications are installed under different labels, the account model of the settings is one of
  theirs, and they number their rows with the field type of the settings.
\<close>

lemma app_configs_agree:
  assumes "base_module parse_db s = Inr d"
  shows "ap_name ` set app_configs \<subseteq> set (dj_installed_apps d) \<and> distinct (map ap_label app_configs) \<and>
    dj_auth_user_model d \<in> (\<lambda>a. ap_label a @ ''.User'') ` set app_configs \<and>
    (\<forall>a \<in> set app_configs. ap_default_auto_field a = dj_default_auto_field d)"
  using assms
  by (auto simp: base_module_def bind_sum_eq_Inr app_configs_def accounts_config_def authz_config_def
      audit_config_def common_config_def INSTALLED_APPS_def)

type_synonym environment = "string \<rightharpoonup> string"

definition environ_setdefault :: "string \<Rightarrow> string \<Rightarrow> environment \<Rightarrow> environment" where
  "environ_setdefault k v e = (case e k of None \<Rightarrow> e(k \<mapsto> v) | Some _ \<Rightarrow> e)"

text \<open>
  \<open>exec\<close> is Django's \<open>execute_from_command_line\<close>, \<open>build_app\<close> its \<open>get_asgi_application\<close>: both find
  the settings module in the environment.
\<close>

definition manage_main :: "(string list \<Rightarrow> environment \<Rightarrow> 'r) \<Rightarrow> string list \<Rightarrow> environment \<Rightarrow> 'r" where
  "manage_main exec argv e =
     exec argv (environ_setdefault ''DJANGO_SETTINGS_MODULE'' ''config.settings.dev'' e)"

definition asgi_module :: "(environment \<Rightarrow> 'app) \<Rightarrow> environment \<Rightarrow> 'app" where
  "asgi_module build_app e =
     build_app (environ_setdefault ''DJANGO_SETTINGS_MODULE'' ''config.settings.dev'' e)"

text \<open>Both entry points keep the settings module of the environment, and fall back to development.\<close>

lemma entry_points_settings:
  fixes e :: environment
  defines "m \<equiv> (case e ''DJANGO_SETTINGS_MODULE'' of None \<Rightarrow> ''config.settings.dev'' | Some v \<Rightarrow> v)"
  shows "manage_main (\<lambda>_ e'. e' ''DJANGO_SETTINGS_MODULE'') argv e = Some m \<and>
    asgi_module (\<lambda>e'. e' ''DJANGO_SETTINGS_MODULE'') e = Some m"
  by (simp add: m_def manage_main_def asgi_module_def environ_setdefault_def split: option.split)

end
