(* ===== verification/SchemaMigrations.thy ===== *)
theory SchemaMigrations
  imports Db "HOL-Library.Multiset"
begin

text \<open>
  The schema: the models that \<open>apps/*/models.py\<close> declare, the schema operations of the migrations
  under \<open>apps/*/migrations\<close>, and Django's state of a project, in which each operation is an update
  that fails when it refers to something that is not there.

  A field is its kind with the options that reach the database (length, null, unique, index, default);
  display options (\<open>verbose_name\<close>, \<open>help_text\<close>, \<open>serialize\<close>) are left out. Models are named as in
  Django's state, by application and lower-case name. What \<open>AbstractBaseUser\<close> and \<open>PermissionsMixin\<close>
  contribute to the user model is Django's: a parameter of \<open>user_model\<close>.
\<close>

subsection \<open>Models as values\<close>

datatype deletion = CASCADE | SET_NULL

datatype field_kind =
    BigAutoField
  | CharField nat
  | EmailField nat
  | BooleanField
  | DateTimeField
  | UUIDField
  | BigIntegerField
  | GenericIPAddressField
  | JSONField
  | ForeignKey string deletion string
  | ManyToManyField string

datatype field_default = DTrue | DFalse | DStr string | DUuid4 | DDict

record field =
  fl_kind :: field_kind
  fl_null :: bool
  fl_blank :: bool
  fl_unique :: bool
  fl_index :: bool
  fl_auto_now_add :: bool
  fl_default :: "field_default option"

definition plain :: "field_kind \<Rightarrow> field" where
  "plain k = \<lparr>fl_kind = k, fl_null = False, fl_blank = False, fl_unique = False, fl_index = False,
     fl_auto_now_add = False, fl_default = None\<rparr>"

abbreviation optional_field :: "field_kind \<Rightarrow> field" where
  "optional_field k \<equiv> (plain k)\<lparr>fl_null := True, fl_blank := True\<rparr>"

datatype unique_constraint = UniqueFields "string list" string | UniqueLower string string

record model =
  md_fields :: "(string \<times> field) list"
  md_indexes :: "(string list \<times> string) list"
  md_constraints :: "unique_constraint list"

type_synonym schema = "(string \<times> model) list"

subsection \<open>Operations on the state\<close>

datatype operation =
    CreateModel string "(string \<times> field) list" "(string list \<times> string) list" "unique_constraint list"
  | AddField string string field
  | AddConstraint string unique_constraint
  | RemoveIndex string string
  | RunPython

definition target_ok :: "schema \<Rightarrow> string \<Rightarrow> field \<Rightarrow> bool" where
  "target_ok s self f = (case fl_kind f of
     ForeignKey target _ _ \<Rightarrow> target = self \<or> map_of s target \<noteq> None | _ \<Rightarrow> True)"

definition update_model :: "string \<Rightarrow> (model \<Rightarrow> model) \<Rightarrow> schema \<Rightarrow> schema" where
  "update_model nm f s = map (\<lambda>(k, m). if k = nm then (k, f m) else (k, m)) s"

fun apply_operation :: "operation \<Rightarrow> schema \<Rightarrow> exn + schema" where
  "apply_operation (CreateModel nm fs ixs cs) s =
     (if map_of s nm \<noteq> None \<or> \<not> distinct (map fst fs)
      then Inl (ValueError ''Found duplicate value in CreateModel'')
      else if \<not> list_all (\<lambda>(_, f). target_ok s nm f) fs
      then Inl (ValueError ''Related model cannot be resolved'')
      else Inr (s @ [(nm, \<lparr>md_fields = fs, md_indexes = ixs, md_constraints = cs\<rparr>)]))"
| "apply_operation (AddField nm fnm f) s =
     (case map_of s nm of
        None \<Rightarrow> Inl (KeyError nm)
      | Some m \<Rightarrow>
          if \<not> target_ok s nm f then Inl (ValueError ''Related model cannot be resolved'')
          else Inr (update_model nm (\<lambda>m. m\<lparr>md_fields := md_fields m @ [(fnm, f)]\<rparr>) s))"
| "apply_operation (AddConstraint nm c) s =
     (case map_of s nm of
        None \<Rightarrow> Inl (KeyError nm)
      | Some m \<Rightarrow> Inr (update_model nm (\<lambda>m. m\<lparr>md_constraints := md_constraints m @ [c]\<rparr>) s))"
| "apply_operation (RemoveIndex nm ix) s =
     (case map_of s nm of
        None \<Rightarrow> Inl (KeyError nm)
      | Some m \<Rightarrow>
          if ix \<notin> set (map snd (md_indexes m)) then Inl (ValueError ''No index named'')
          else Inr (update_model nm
            (\<lambda>m. m\<lparr>md_indexes := filter (\<lambda>(_, n). n \<noteq> ix) (md_indexes m)\<rparr>) s))"
| "apply_operation RunPython s = Inr s"

fun apply_operations :: "operation list \<Rightarrow> schema \<Rightarrow> exn + schema" where
  "apply_operations [] s = Inr s"
| "apply_operations (op # ops) s = bind_sum (apply_operation op s) (apply_operations ops)"

record migration =
  mg_name :: "string \<times> string"
  mg_dependencies :: "(string \<times> string) list"
  mg_operations :: "operation list"

text \<open>
  A plan applies migrations one after the other; each must find its dependencies applied. The
  migrations of other applications (\<open>outside\<close>) count as applied.
\<close>

fun run_plan ::
  "(string \<times> string) list \<Rightarrow> migration list \<Rightarrow> (string \<times> string) list \<Rightarrow> schema \<Rightarrow> exn + schema" where
  "run_plan outside [] applied s = Inr s"
| "run_plan outside (m # ms) applied s =
     (if \<not> list_all (\<lambda>d. d \<in> set (applied @ outside)) (mg_dependencies m)
      then Inl (RuntimeError ''A dependency has not been applied'')
      else bind_sum (apply_operations (mg_operations m) s) (run_plan outside ms (mg_name m # applied)))"

subsection \<open>The models\<close>

text \<open>Every application names \<open>BigAutoField\<close> as its \<open>default_auto_field\<close>.\<close>

definition auto_id :: "string \<times> field" where
  "auto_id = (''id'', plain BigAutoField)"

abbreviation user_link :: "string \<Rightarrow> field" where
  "user_link related \<equiv> plain (ForeignKey ''accounts.user'' CASCADE related)"

definition user_model :: "(string \<times> field) list \<Rightarrow> string \<times> model" where
  "user_model inherited = (''accounts.user'', \<lparr>md_fields = auto_id # inherited @
     [(''email'', (plain (EmailField 254))\<lparr>fl_unique := True\<rparr>),
      (''is_active'', (plain BooleanField)\<lparr>fl_default := Some DTrue\<rparr>),
      (''is_staff'', (plain BooleanField)\<lparr>fl_default := Some DFalse\<rparr>),
      (''date_joined'', (plain DateTimeField)\<lparr>fl_auto_now_add := True\<rparr>)],
     md_indexes = [],
     md_constraints = [UniqueLower ''email'' ''accounts_user_email_ci_unique'']\<rparr>)"

definition permission_model :: "string \<times> model" where
  "permission_model = (''authz.permission'', \<lparr>md_fields = [auto_id,
      (''code'', (plain (CharField 100))\<lparr>fl_unique := True\<rparr>)],
     md_indexes = [], md_constraints = []\<rparr>)"

definition role_model :: "string \<times> model" where
  "role_model = (''authz.role'', \<lparr>md_fields = [auto_id,
      (''name'', (plain (CharField 50))\<lparr>fl_unique := True\<rparr>)],
     md_indexes = [], md_constraints = []\<rparr>)"

definition user_role_model :: "string \<times> model" where
  "user_role_model = (''authz.userrole'', \<lparr>md_fields = [auto_id,
      (''user'', user_link ''role_links''),
      (''role'', plain (ForeignKey ''authz.role'' CASCADE ''user_links''))],
     md_indexes = [],
     md_constraints = [UniqueFields [''user'', ''role''] ''authz_user_role_unique'']\<rparr>)"

definition role_permission_model :: "string \<times> model" where
  "role_permission_model = (''authz.rolepermission'', \<lparr>md_fields = [auto_id,
      (''role'', plain (ForeignKey ''authz.role'' CASCADE ''permission_links'')),
      (''permission'', plain (ForeignKey ''authz.permission'' CASCADE ''role_links''))],
     md_indexes = [],
     md_constraints = [UniqueFields [''role'', ''permission''] ''authz_role_permission_unique'']\<rparr>)"

definition refresh_token_model :: "string \<times> model" where
  "refresh_token_model = (''authz.refreshtoken'', \<lparr>md_fields = [auto_id,
      (''user'', user_link ''refresh_tokens''),
      (''token_hash'', (plain (CharField 64))\<lparr>fl_unique := True\<rparr>),
      (''family_id'', (plain UUIDField)\<lparr>fl_default := Some DUuid4, fl_index := True\<rparr>),
      (''parent'', optional_field (ForeignKey ''authz.refreshtoken'' SET_NULL ''children'')),
      (''device_hash'', optional_field (CharField 64)),
      (''issued_ip'', optional_field GenericIPAddressField),
      (''expires_at'', plain DateTimeField),
      (''revoked_at'', optional_field DateTimeField)],
     md_indexes = [([''family_id'', ''revoked_at''], ''authz_refresh_family_rev_idx'')],
     md_constraints = []\<rparr>)"

definition audit_log_model :: "string \<times> model" where
  "audit_log_model = (''audit.auditlog'', \<lparr>md_fields = [auto_id,
      (''created_at'', (plain DateTimeField)\<lparr>fl_auto_now_add := True, fl_index := True\<rparr>),
      (''action'', plain (CharField 64)),
      (''actor_id'', optional_field BigIntegerField),
      (''actor_email'', optional_field (EmailField 254)),
      (''target_type'', optional_field (CharField 64)),
      (''target_id'', optional_field (CharField 255)),
      (''outcome'', (plain (CharField 16))\<lparr>fl_default := Some (DStr ''success'')\<rparr>),
      (''ip'', optional_field GenericIPAddressField),
      (''user_agent'', optional_field (CharField 512)),
      (''metadata'', (plain JSONField)\<lparr>fl_default := Some DDict\<rparr>)],
     md_indexes = [([''actor_id'', ''created_at''], ''audit_actor_created_idx''),
       ([''action'', ''created_at''], ''audit_action_created_idx'')],
     md_constraints = []\<rparr>)"

definition declared_models :: "(string \<times> field) list \<Rightarrow> schema" where
  "declared_models inherited = [user_model inherited, permission_model, role_model, user_role_model,
     role_permission_model, refresh_token_model, audit_log_model]"

subsection \<open>The migrations\<close>

text \<open>A swappable dependency on the user model stands for its application's first migration.\<close>

abbreviation user_first :: "string \<times> string" where
  "user_first \<equiv> (''accounts'', ''0001_initial'')"

definition accounts_0001 :: migration where
  "accounts_0001 = \<lparr>mg_name = (''accounts'', ''0001_initial''),
     mg_dependencies = [(''auth'', ''0012_alter_user_first_name_max_length'')],
     mg_operations = [CreateModel ''accounts.user''
      [(''id'', plain BigAutoField),
       (''password'', plain (CharField 128)),
       (''last_login'', optional_field DateTimeField),
       (''is_superuser'', (plain BooleanField)\<lparr>fl_default := Some DFalse\<rparr>),
       (''email'', (plain (EmailField 254))\<lparr>fl_unique := True\<rparr>),
       (''is_active'', (plain BooleanField)\<lparr>fl_default := Some DTrue\<rparr>),
       (''is_staff'', (plain BooleanField)\<lparr>fl_default := Some DFalse\<rparr>),
       (''groups'', (plain (ManyToManyField ''auth.group''))\<lparr>fl_blank := True\<rparr>),
       (''user_permissions'', (plain (ManyToManyField ''auth.permission''))\<lparr>fl_blank := True\<rparr>)]
      [] []]\<rparr>"

definition accounts_0002 :: migration where
  "accounts_0002 = \<lparr>mg_name = (''accounts'', ''0002_user_date_joined_and_email_ci_unique''),
     mg_dependencies = [(''accounts'', ''0001_initial'')],
     mg_operations = [
       AddField ''accounts.user'' ''date_joined'' ((plain DateTimeField)\<lparr>fl_auto_now_add := True\<rparr>),
       AddConstraint ''accounts.user'' (UniqueLower ''email'' ''accounts_user_email_ci_unique'')]\<rparr>"

definition authz_0001 :: migration where
  "authz_0001 = \<lparr>mg_name = (''authz'', ''0001_initial''), mg_dependencies = [user_first],
     mg_operations = [
       CreateModel ''authz.permission'' [(''id'', plain BigAutoField),
         (''code'', (plain (CharField 100))\<lparr>fl_unique := True\<rparr>)] [] [],
       CreateModel ''authz.role'' [(''id'', plain BigAutoField),
         (''name'', (plain (CharField 50))\<lparr>fl_unique := True\<rparr>)] [] [],
       CreateModel ''authz.userrole'' [(''id'', plain BigAutoField),
         (''role'', plain (ForeignKey ''authz.role'' CASCADE ''user_links'')),
         (''user'', plain (ForeignKey ''accounts.user'' CASCADE ''role_links''))]
         [([''user'', ''role''], ''authz_userrole_user_role_idx'')]
         [UniqueFields [''user'', ''role''] ''authz_user_role_unique''],
       CreateModel ''authz.rolepermission'' [(''id'', plain BigAutoField),
         (''permission'', plain (ForeignKey ''authz.permission'' CASCADE ''role_links'')),
         (''role'', plain (ForeignKey ''authz.role'' CASCADE ''permission_links''))]
         [([''role'', ''permission''], ''authz_roleperm_role_perm_idx'')]
         [UniqueFields [''role'', ''permission''] ''authz_role_permission_unique'']]\<rparr>"

text \<open>The data migrations leave the schema as it is.\<close>

definition data_migration :: "string \<Rightarrow> string \<Rightarrow> migration" where
  "data_migration nm dep = \<lparr>mg_name = (''authz'', nm), mg_dependencies = [(''authz'', dep)],
     mg_operations = [RunPython]\<rparr>"

definition authz_0002 :: migration where
  "authz_0002 = data_migration ''0002_seed_roles_and_permissions'' ''0001_initial''"

definition authz_0005 :: migration where
  "authz_0005 = data_migration ''0005_remove_default_user_admin_permission'' ''0004_refresh_token''"

definition authz_0006 :: migration where
  "authz_0006 = data_migration ''0006_add_audit_read_permission''
     ''0005_remove_default_user_admin_permission''"

definition authz_0003 :: migration where
  "authz_0003 = \<lparr>mg_name = (''authz'', ''0003_remove_redundant_composite_indexes''),
     mg_dependencies = [(''authz'', ''0002_seed_roles_and_permissions'')],
     mg_operations = [RemoveIndex ''authz.userrole'' ''authz_userrole_user_role_idx'',
       RemoveIndex ''authz.rolepermission'' ''authz_roleperm_role_perm_idx'']\<rparr>"

definition authz_0004 :: migration where
  "authz_0004 = \<lparr>mg_name = (''authz'', ''0004_refresh_token''),
     mg_dependencies = [(''authz'', ''0003_remove_redundant_composite_indexes''), user_first],
     mg_operations = [CreateModel ''authz.refreshtoken'' [(''id'', plain BigAutoField),
         (''token_hash'', (plain (CharField 64))\<lparr>fl_unique := True\<rparr>),
         (''family_id'', (plain UUIDField)\<lparr>fl_index := True, fl_default := Some DUuid4\<rparr>),
         (''expires_at'', plain DateTimeField),
         (''revoked_at'', optional_field DateTimeField),
         (''parent'', optional_field (ForeignKey ''authz.refreshtoken'' SET_NULL ''children'')),
         (''user'', plain (ForeignKey ''accounts.user'' CASCADE ''refresh_tokens''))]
         [([''family_id'', ''revoked_at''], ''authz_refresh_family_rev_idx'')] []]\<rparr>"

definition authz_0007 :: migration where
  "authz_0007 = \<lparr>mg_name = (''authz'', ''0007_refreshtoken_device_hash_refreshtoken_issued_ip''),
     mg_dependencies = [(''authz'', ''0006_add_audit_read_permission'')],
     mg_operations = [
       AddField ''authz.refreshtoken'' ''device_hash'' (optional_field (CharField 64)),
       AddField ''authz.refreshtoken'' ''issued_ip'' (optional_field GenericIPAddressField)]\<rparr>"

definition audit_0001 :: migration where
  "audit_0001 = \<lparr>mg_name = (''audit'', ''0001_initial''), mg_dependencies = [],
     mg_operations = [CreateModel ''audit.auditlog'' [(''id'', plain BigAutoField),
         (''created_at'', (plain DateTimeField)\<lparr>fl_auto_now_add := True, fl_index := True\<rparr>),
         (''action'', plain (CharField 64)),
         (''actor_id'', optional_field BigIntegerField),
         (''actor_email'', optional_field (EmailField 254)),
         (''target_type'', optional_field (CharField 64)),
         (''target_id'', optional_field (CharField 255)),
         (''outcome'', (plain (CharField 16))\<lparr>fl_default := Some (DStr ''success'')\<rparr>),
         (''ip'', optional_field GenericIPAddressField),
         (''user_agent'', optional_field (CharField 512)),
         (''metadata'', (plain JSONField)\<lparr>fl_default := Some DDict\<rparr>)]
         [([''actor_id'', ''created_at''], ''audit_actor_created_idx''),
          ([''action'', ''created_at''], ''audit_action_created_idx'')] []]\<rparr>"

definition authz_chain :: "migration list" where
  "authz_chain = [authz_0001, authz_0002, authz_0003, authz_0004, authz_0005, authz_0006, authz_0007]"

definition all_migrations :: "migration list" where
  "all_migrations = accounts_0001 # accounts_0002 # audit_0001 # authz_chain"

subsection \<open>The migrations build the models\<close>

text \<open>The fields Django's base classes give the user model, in any order.\<close>

definition base_user_fields :: "(string \<times> field) list" where
  "base_user_fields =
     [(''password'', plain (CharField 128)),
      (''last_login'', optional_field DateTimeField),
      (''is_superuser'', (plain BooleanField)\<lparr>fl_default := Some DFalse\<rparr>),
      (''groups'', (plain (ManyToManyField ''auth.group''))\<lparr>fl_blank := True\<rparr>),
      (''user_permissions'', (plain (ManyToManyField ''auth.permission''))\<lparr>fl_blank := True\<rparr>)]"

definition django_user_fields :: "(string \<times> field) list \<Rightarrow> bool" where
  "django_user_fields inherited \<longleftrightarrow> mset inherited = mset base_user_fields"

text \<open>The order of fields, indexes and constraints within a model does not matter.\<close>

definition same_model :: "model \<Rightarrow> model \<Rightarrow> bool" where
  "same_model m n \<longleftrightarrow> mset (md_fields m) = mset (md_fields n) \<and>
     mset (md_indexes m) = mset (md_indexes n) \<and> mset (md_constraints m) = mset (md_constraints n)"

definition same_schema :: "schema \<Rightarrow> schema \<Rightarrow> bool" where
  "same_schema s t \<longleftrightarrow> mset (map fst s) = mset (map fst t) \<and> distinct (map fst s) \<and>
     list_all (\<lambda>(k, m). case map_of t k of Some n \<Rightarrow> same_model m n | None \<Rightarrow> False) s"

definition migrated_schema :: "exn + schema" where
  "migrated_schema =
     run_plan [(''auth'', ''0012_alter_user_first_name_max_length'')] all_migrations [] []"

definition the_schema :: schema where
  "the_schema = (case migrated_schema of Inr s \<Rightarrow> s | Inl _ \<Rightarrow> [])"

lemma migrated_schema_ok: "migrated_schema = Inr the_schema"
  by code_simp

lemma the_schema_same: "same_schema the_schema (declared_models base_user_fields)"
  by code_simp

lemma same_user_model:
  assumes "django_user_fields inherited"
  shows "same_model m (snd (user_model inherited)) \<longleftrightarrow> same_model m (snd (user_model base_user_fields))"
  using assms by (simp add: same_model_def user_model_def django_user_fields_def)

lemma map_of_declared:
  "map_of (declared_models inherited) k =
     (if k = ''accounts.user'' then Some (snd (user_model inherited))
      else map_of (declared_models base_user_fields) k)"
  by (simp add: declared_models_def user_model_def)

lemma same_schema_inherited:
  assumes "django_user_fields inherited"
  shows "same_schema s (declared_models inherited) \<longleftrightarrow> same_schema s (declared_models base_user_fields)"
proof -
  have keys: "map fst (declared_models inherited) = map fst (declared_models base_user_fields)"
    by (simp add: declared_models_def user_model_def)
  have one: "(case map_of (declared_models inherited) k of Some n \<Rightarrow> same_model m n | None \<Rightarrow> False) \<longleftrightarrow>
      (case map_of (declared_models base_user_fields) k of Some n \<Rightarrow> same_model m n | None \<Rightarrow> False)" for k m
  proof (cases "k = ''accounts.user''")
    case True
    have "map_of (declared_models fs) k = Some (snd (user_model fs))" for fs
      using map_of_declared [of fs k] True by simp
    then show ?thesis using same_user_model [OF assms, of m] by simp
  next
    case False
    then have "map_of (declared_models inherited) k = map_of (declared_models base_user_fields) k"
      using map_of_declared [of inherited k] by simp
    then show ?thesis by simp
  qed
  show ?thesis unfolding same_schema_def keys one ..
qed

text \<open>
  C37. The migrations build the schema that the models declare: applied in Django's order to an empty
  database, every migration finds its dependencies, models, fields and indexes in place, and the
  result has exactly the declared models with their fields (kinds, lengths, nullability, uniqueness,
  defaults, targets and deletion rules of foreign keys), indexes and constraints, so that no schema
  change is left unmigrated.
\<close>

theorem migrations_match_models:
  assumes "django_user_fields inherited"
  shows "\<exists>s. run_plan [(''auth'', ''0012_alter_user_first_name_max_length'')] all_migrations [] [] = Inr s \<and>
    same_schema s (declared_models inherited)"
  using migrated_schema_ok the_schema_same same_schema_inherited [OF assms]
  unfolding migrated_schema_def by blast

theorem migrations_match_models_witness:
  "\<exists>s. migrated_schema = Inr s \<and> same_schema s (declared_models (rev base_user_fields))"
  using migrations_match_models [of "rev base_user_fields"]
  by (simp add: django_user_fields_def migrated_schema_def)

text \<open>A plan that runs \<open>authz\<close> before \<open>accounts\<close> stops at its first migration.\<close>

lemma authz_needs_accounts:
  "run_plan [(''auth'', ''0012_alter_user_first_name_max_length'')] (authz_chain @ ms) [] [] =
     Inl (RuntimeError ''A dependency has not been applied'')"
  by (simp add: authz_chain_def authz_0001_def)

subsection \<open>The lengths the tables check\<close>

text \<open>The column checks of the database model are the lengths of this schema.\<close>

definition char_limit :: "schema \<Rightarrow> string \<Rightarrow> string \<Rightarrow> nat" where
  "char_limit s nm fnm = (case map_of s nm of
     None \<Rightarrow> 0
   | Some m \<Rightarrow> (case map_of (md_fields m) fnm of
       Some f \<Rightarrow> (case fl_kind f of CharField n \<Rightarrow> n | EmailField n \<Rightarrow> n | _ \<Rightarrow> 0) | None \<Rightarrow> 0))"

lemma schema_limits:
  "map (char_limit the_schema ''accounts.user'') [''email'', ''password''] = [254, 128]"
  "char_limit the_schema ''authz.role'' ''name'' = 50"
  "char_limit the_schema ''authz.permission'' ''code'' = 100"
  "map (char_limit the_schema ''authz.refreshtoken'') [''token_hash'', ''device_hash''] = [64, 64]"
  "map (char_limit the_schema ''audit.auditlog'')
     [''action'', ''actor_email'', ''target_type'', ''target_id'', ''outcome'', ''user_agent'']
   = [64, 254, 64, 255, 16, 512]"
  by code_simp+

lemma user_fits_schema:
  "user_fits u \<longleftrightarrow> length (u_email u) \<le> char_limit the_schema ''accounts.user'' ''email'' \<and>
     length (u_password u) \<le> char_limit the_schema ''accounts.user'' ''password''"
  using schema_limits(1) by (simp add: user_fits_def)

end
