(* ===== verification/UserAdmin.thy ===== *)
theory UserAdmin
  imports SchemaMigrations
begin

text \<open>
  The registration of the user model with Django's admin site, \<open>apps/accounts/admin.py\<close>: which fields
  the class names, where, and what the user model of \<open>apps/accounts/models.py\<close> has.

  Django's part is a parameter. \<open>form_declared\<close> is the names that the form class of a page declares
  itself (the password fields); \<open>editable\<close> is whether a model field can be edited in a form, of which
  the code relies on the documented fact that \<open>auto_now_add\<close> makes a field non-editable
  (\<open>editable_law\<close>).
\<close>

record fieldset =
  fs_title :: "string option"
  fs_classes :: "string list"
  fs_fields :: "string list"

record model_admin =
  ma_model :: string
  ma_ordering :: "string list"
  ma_list_display :: "string list"
  ma_search_fields :: "string list"
  ma_readonly_fields :: "string list"
  ma_fieldsets :: "fieldset list"
  ma_add_fieldsets :: "fieldset list"

text \<open>The class sets no \<open>readonly_fields\<close>, and its base class has none.\<close>

definition UserAdmin :: model_admin where
  "UserAdmin = \<lparr>ma_model = ''accounts.user'', ma_ordering = [''email''],
     ma_list_display = [''email'', ''is_staff'', ''is_active''], ma_search_fields = [''email''],
     ma_readonly_fields = [],
     ma_fieldsets =
       [\<lparr>fs_title = None, fs_classes = [], fs_fields = [''email'', ''password'']\<rparr>,
        \<lparr>fs_title = Some ''Permissions'', fs_classes = [],
          fs_fields = [''is_active'', ''is_staff'', ''is_superuser'', ''groups'', ''user_permissions'']\<rparr>,
        \<lparr>fs_title = Some ''Important dates'', fs_classes = [],
          fs_fields = [''last_login'', ''date_joined'']\<rparr>],
     ma_add_fieldsets =
       [\<lparr>fs_title = None, fs_classes = [''wide''],
          fs_fields = [''email'', ''password1'', ''password2'', ''is_active'', ''is_staff'']\<rparr>]\<rparr>"

definition flatten_fieldsets :: "fieldset list \<Rightarrow> string list" where
  "flatten_fieldsets fss = concat (map fs_fields fss)"

text \<open>The fields the form of a page is built with: those of its fieldsets that are not read-only.\<close>

definition form_fields :: "model_admin \<Rightarrow> fieldset list \<Rightarrow> string list" where
  "form_fields a fss = filter (\<lambda>f. f \<notin> set (ma_readonly_fields a)) (flatten_fieldsets fss)"

definition editable_law :: "(field \<Rightarrow> bool) \<Rightarrow> bool" where
  "editable_law editable \<longleftrightarrow> (\<forall>f. editable f \<longleftrightarrow> \<not> fl_auto_now_add f)"

text \<open>
  The fields a model form cannot be built with: names that are neither the form's own nor the
  model's, and fields of the model that are not editable.
\<close>

definition refused_fields ::
  "(field \<Rightarrow> bool) \<Rightarrow> string list \<Rightarrow> model \<Rightarrow> string list \<Rightarrow> string list" where
  "refused_fields editable form_declared m fs =
     filter (\<lambda>f. f \<notin> set form_declared \<and>
       (case map_of (md_fields m) f of None \<Rightarrow> True | Some fld \<Rightarrow> \<not> editable fld)) fs"

lemma map_of_mset:
  assumes "mset xs = mset ys" "distinct (map fst ys)"
  shows "map_of xs = map_of ys"
proof (rule map_of_inject_set [THEN iffD2])
  show "distinct (map fst ys)" by (rule assms(2))
  have "mset (map fst xs) = mset (map fst ys)" using assms(1) by simp
  then show "distinct (map fst xs)" using assms(2) mset_eq_imp_distinct_iff by blast
  show "set xs = set ys" using assms(1) by (rule mset_eq_setD)
qed

lemma user_model_fields:
  assumes "django_user_fields inherited"
  shows "map_of (md_fields (snd (user_model inherited))) =
    map_of (md_fields (snd (user_model base_user_fields)))"
proof (rule map_of_mset)
  show "mset (md_fields (snd (user_model inherited))) = mset (md_fields (snd (user_model base_user_fields)))"
    using assms by (simp add: user_model_def django_user_fields_def)
  show "distinct (map fst (md_fields (snd (user_model base_user_fields))))"
    by code_simp
qed

text \<open>
  C38. The admin pages of the user model: every field that the listing shows, sorts by or searches
  exists, the form that adds a user can be built, and the form that changes one cannot:
  \<open>date_joined\<close> is set by \<open>auto_now_add\<close> and so not editable, yet the page's fieldsets name it and no
  \<open>readonly_fields\<close> takes it out of the form.
\<close>

theorem user_admin_forms:
  assumes "django_user_fields inherited" "editable_law editable"
    and "''date_joined'' \<notin> set change_form" "{''password1'', ''password2''} \<subseteq> set add_form"
  shows "let m = snd (user_model inherited); a = UserAdmin in
    refused_fields editable change_form m (form_fields a (ma_fieldsets a)) = [''date_joined''] \<and>
    refused_fields editable add_form m (form_fields a (ma_add_fieldsets a)) = [] \<and>
    list_all (\<lambda>f. map_of (md_fields m) f \<noteq> None)
      (ma_ordering a @ ma_list_display a @ ma_search_fields a)"
  using assms(2-4) unfolding Let_def refused_fields_def user_model_fields [OF assms(1)]
  by (simp add: UserAdmin_def form_fields_def flatten_fieldsets_def user_model_def base_user_fields_def
      auto_id_def plain_def editable_law_def)

theorem user_admin_forms_witness:
  "refused_fields (\<lambda>f. \<not> fl_auto_now_add f) [''password''] (snd (user_model base_user_fields))
     (form_fields UserAdmin (ma_fieldsets UserAdmin)) = [''date_joined'']"
  using user_admin_forms [of base_user_fields "\<lambda>f. \<not> fl_auto_now_add f" "[''password'']"
      "[''password1'', ''password2'']"]
  by (simp add: Let_def django_user_fields_def editable_law_def)

end
