(* ===== verification/Urls.thy ===== *)
theory Urls
  imports Routers "HOL-Library.Sublist"
begin

text \<open>
  Which view a URL reaches: \<open>config/urls.py\<close>, the routers that \<open>config/api.py\<close> mounts, and the method and
  path of every operation in \<open>apps/authz/api/routers\<close> and \<open>apps/common/api/system.py\<close>, with the way
  Ninja and Django resolve a path: the first pattern that matches decides, a parameter takes one
  non-empty segment, and an operation of another method is no reason to go on.

  The pages that Ninja adds of its own (schema, documentation, root) come before the routers;
  \<open>own_page\<close> is a parameter, of which only the paths are relied on (\<open>own_pages_law\<close>). The text of a
  path parameter is validated as an integer by Pydantic (\<open>parse_int\<close>).
\<close>

subsection \<open>The operations of the routers\<close>

datatype http_method = GET | POST | PATCH | DELETE | OtherMethod string

datatype view =
    V_register | V_login | V_refresh | V_logout | V_logout_all | V_me
  | V_list_users | V_create_user | V_get_user | V_update_user | V_delete_user | V_assign_role
  | V_list_roles | V_list_permissions | V_list_audit_logs
  | V_health

record api_operation =
  op_method :: http_method
  op_path :: string
  op_view :: view

definition auth_router :: "api_operation list" where
  "auth_router =
     [\<lparr>op_method = POST, op_path = ''/register'', op_view = V_register\<rparr>,
      \<lparr>op_method = POST, op_path = ''/login'', op_view = V_login\<rparr>,
      \<lparr>op_method = POST, op_path = ''/refresh'', op_view = V_refresh\<rparr>,
      \<lparr>op_method = POST, op_path = ''/logout'', op_view = V_logout\<rparr>,
      \<lparr>op_method = POST, op_path = ''/logout-all'', op_view = V_logout_all\<rparr>,
      \<lparr>op_method = GET, op_path = ''/me'', op_view = V_me\<rparr>]"

definition admin_users_router :: "api_operation list" where
  "admin_users_router =
     [\<lparr>op_method = GET, op_path = '''', op_view = V_list_users\<rparr>,
      \<lparr>op_method = POST, op_path = '''', op_view = V_create_user\<rparr>,
      \<lparr>op_method = GET, op_path = ''/{user_id}'', op_view = V_get_user\<rparr>,
      \<lparr>op_method = PATCH, op_path = ''/{user_id}'', op_view = V_update_user\<rparr>,
      \<lparr>op_method = DELETE, op_path = ''/{user_id}'', op_view = V_delete_user\<rparr>,
      \<lparr>op_method = POST, op_path = ''/{user_id}/roles'', op_view = V_assign_role\<rparr>]"

definition admin_rbac_router :: "api_operation list" where
  "admin_rbac_router =
     [\<lparr>op_method = GET, op_path = ''/roles'', op_view = V_list_roles\<rparr>,
      \<lparr>op_method = GET, op_path = ''/permissions'', op_view = V_list_permissions\<rparr>,
      \<lparr>op_method = GET, op_path = ''/audit-logs'', op_view = V_list_audit_logs\<rparr>]"

definition system_router :: "api_operation list" where
  "system_router = [\<lparr>op_method = GET, op_path = ''/health'', op_view = V_health\<rparr>]"

definition api_routers :: "(string \<times> api_operation list) list" where
  "api_routers = [(''/v1/auth'', auth_router), (''/v1/admin/users'', admin_users_router),
     (''/v1/admin'', admin_rbac_router), (''/v1'', system_router)]"

subsection \<open>Ninja's patterns\<close>

text \<open>
  A router keeps its operations by path, in the order the paths first appear. The pattern of a path
  joins it to the prefix, with single slashes and none in front.
\<close>

definition path_operations :: "api_operation list \<Rightarrow> (string \<times> api_operation list) list" where
  "path_operations ops =
     map (\<lambda>p. (p, filter (\<lambda>oper. op_path oper = p) ops)) (rev (remdups (rev (map op_path ops))))"

fun normalize_path :: "string \<Rightarrow> string" where
  "normalize_path (c # d # cs) =
     (if c = CHR ''/'' \<and> d = CHR ''/'' then normalize_path (d # cs) else c # normalize_path (d # cs))"
| "normalize_path cs = cs"

definition url_pattern :: "string \<Rightarrow> string \<Rightarrow> string list" where
  "url_pattern pre p = split_on (CHR ''/'')
     (dropWhile (\<lambda>c. c = CHR ''/'') (normalize_path (join ''/'' (filter (\<lambda>s. s \<noteq> []) [pre, p]))))"

definition url_table :: "(string list \<times> api_operation list) list" where
  "url_table = concat (map (\<lambda>(pre, ops). map (\<lambda>(p, os). (url_pattern pre p, os)) (path_operations ops))
     api_routers)"

definition path_parameter :: "string \<Rightarrow> string option" where
  "path_parameter seg = (if 2 \<le> length seg \<and> hd seg = CHR ''{'' \<and> last seg = CHR ''}''
     then Some (butlast (tl seg)) else None)"

fun match_segments :: "string list \<Rightarrow> string list \<Rightarrow> (string \<times> string) list option" where
  "match_segments [] [] = Some []"
| "match_segments (t # ts) (s # ss) =
     (case path_parameter t of
        None \<Rightarrow> if s = t then match_segments ts ss else None
      | Some x \<Rightarrow> if s = [] then None else map_option (Cons (x, s)) (match_segments ts ss))"
| "match_segments _ _ = None"

subsection \<open>Resolving a path\<close>

datatype dispatched =
    ToView view "(string \<times> string) list"
  | MethodNotAllowed
  | OwnPage string
  | ToAdminSite string
  | NoRoute

fun resolve_in ::
  "(string list \<times> api_operation list) list \<Rightarrow> http_method \<Rightarrow> string list \<Rightarrow> dispatched" where
  "resolve_in [] m ss = NoRoute"
| "resolve_in ((pat, ops) # es) m ss =
     (case match_segments pat ss of
        None \<Rightarrow> resolve_in es m ss
      | Some args \<Rightarrow>
          (case first (\<lambda>oper. op_method oper = m) ops of
             None \<Rightarrow> MethodNotAllowed
           | Some oper \<Rightarrow> ToView (op_view oper) args))"

definition resolve_api :: "(string \<Rightarrow> bool) \<Rightarrow> http_method \<Rightarrow> string \<Rightarrow> dispatched" where
  "resolve_api own_page m p =
     (if own_page p then OwnPage p else resolve_in url_table m (split_on (CHR ''/'') p))"

datatype mounted = AdminSite | Api

definition urlpatterns :: "(string \<times> mounted) list" where
  "urlpatterns = [(''admin/'', AdminSite), (''api/'', Api)]"

text \<open>The admin site answers every path below its own; Ninja's patterns may fail to match.\<close>

fun resolve_mounted :: "(string \<Rightarrow> bool) \<Rightarrow> http_method \<Rightarrow> (string \<times> mounted) list \<Rightarrow> string \<Rightarrow> dispatched" where
  "resolve_mounted own_page m [] p = NoRoute"
| "resolve_mounted own_page m ((pre, target) # us) p =
     (if prefix pre p
      then case target of
          AdminSite \<Rightarrow> ToAdminSite (drop (length pre) p)
        | Api \<Rightarrow>
            (case resolve_api own_page m (drop (length pre) p) of
               NoRoute \<Rightarrow> resolve_mounted own_page m us p
             | d \<Rightarrow> d)
      else resolve_mounted own_page m us p)"

definition dispatch :: "(string \<Rightarrow> bool) \<Rightarrow> http_method \<Rightarrow> string \<Rightarrow> dispatched" where
  "dispatch own_page m path =
     (case path of
        [] \<Rightarrow> NoRoute
      | c # p \<Rightarrow> if c = CHR ''/'' then resolve_mounted own_page m urlpatterns p else NoRoute)"

definition own_pages_law :: "(string \<Rightarrow> bool) \<Rightarrow> bool" where
  "own_pages_law own_page \<longleftrightarrow> (\<forall>p. own_page p \<longrightarrow> \<not> prefix ''v1/'' p)"

subsection \<open>The views\<close>

fun view_of :: "api_call \<Rightarrow> view" where
  "view_of (PostRegister _ _) = V_register"
| "view_of (PostLogin _ _) = V_login"
| "view_of (PostRefresh _) = V_refresh"
| "view_of (PostLogout _) = V_logout"
| "view_of PostLogoutAll = V_logout_all"
| "view_of GetMe = V_me"
| "view_of (GetUsers _ _) = V_list_users"
| "view_of (PostUsers _ _) = V_create_user"
| "view_of (GetUser _) = V_get_user"
| "view_of (PatchUser _ _ _ _) = V_update_user"
| "view_of (DeleteUser _) = V_delete_user"
| "view_of (PostUserRoles _ _) = V_assign_role"
| "view_of (GetRoles _ _) = V_list_roles"
| "view_of (GetPermissions _ _) = V_list_permissions"
| "view_of (GetAuditLogs _ _ _ _ _ _ _) = V_list_audit_logs"
| "view_of GetHealth = V_health"

fun path_user :: "api_call \<Rightarrow> int option" where
  "path_user (GetUser i) = Some i"
| "path_user (PatchUser i _ _ _) = Some i"
| "path_user (DeleteUser i) = Some i"
| "path_user (PostUserRoles i _) = Some i"
| "path_user _ = None"

text \<open>Whether a request for a path may end in a call.\<close>

definition reaches ::
  "(string \<Rightarrow> bool) \<Rightarrow> (string \<Rightarrow> int option) \<Rightarrow> http_method \<Rightarrow> string \<Rightarrow> api_call \<Rightarrow> bool" where
  "reaches own_page parse_int m path call =
     (case dispatch own_page m path of
        ToView v args \<Rightarrow> view_of call = v \<and>
          (case path_user call of
             None \<Rightarrow> True
           | Some i \<Rightarrow> (case map_of args ''user_id'' of
               None \<Rightarrow> False
             | Some s \<Rightarrow> parse_int s = Some i))
      | _ \<Rightarrow> False)"

text \<open>The method and the URL a view is documented under.\<close>

fun method_of :: "view \<Rightarrow> http_method" where
  "method_of V_me = GET"
| "method_of V_list_users = GET"
| "method_of V_get_user = GET"
| "method_of V_update_user = PATCH"
| "method_of V_delete_user = DELETE"
| "method_of V_list_roles = GET"
| "method_of V_list_permissions = GET"
| "method_of V_list_audit_logs = GET"
| "method_of V_health = GET"
| "method_of _ = POST"

fun url_for :: "view \<Rightarrow> (string \<times> string) list \<Rightarrow> string" where
  "url_for V_register _ = ''/api/v1/auth/register''"
| "url_for V_login _ = ''/api/v1/auth/login''"
| "url_for V_refresh _ = ''/api/v1/auth/refresh''"
| "url_for V_logout _ = ''/api/v1/auth/logout''"
| "url_for V_logout_all _ = ''/api/v1/auth/logout-all''"
| "url_for V_me _ = ''/api/v1/auth/me''"
| "url_for V_list_users _ = ''/api/v1/admin/users''"
| "url_for V_create_user _ = ''/api/v1/admin/users''"
| "url_for V_get_user args = ''/api/v1/admin/users/'' @ concat (map snd args)"
| "url_for V_update_user args = ''/api/v1/admin/users/'' @ concat (map snd args)"
| "url_for V_delete_user args = ''/api/v1/admin/users/'' @ concat (map snd args)"
| "url_for V_assign_role args = ''/api/v1/admin/users/'' @ concat (map snd args) @ ''/roles''"
| "url_for V_list_roles _ = ''/api/v1/admin/roles''"
| "url_for V_list_permissions _ = ''/api/v1/admin/permissions''"
| "url_for V_list_audit_logs _ = ''/api/v1/admin/audit-logs''"
| "url_for V_health _ = ''/api/v1/health''"

definition takes_user :: "view \<Rightarrow> bool" where
  "takes_user v \<longleftrightarrow> v \<in> {V_get_user, V_update_user, V_delete_user, V_assign_role}"

definition args_ok :: "view \<Rightarrow> (string \<times> string) list \<Rightarrow> bool" where
  "args_ok v args \<longleftrightarrow>
     (if takes_user v
      then (case args of
          [(x, s)] \<Rightarrow> x = ''user_id'' \<and> s \<noteq> [] \<and> CHR ''/'' \<notin> set s
        | _ \<Rightarrow> False)
      else args = [])"

definition public_urls :: "(http_method \<times> string) set" where
  "public_urls = {(POST, ''/api/v1/auth/register''), (POST, ''/api/v1/auth/login''),
     (POST, ''/api/v1/auth/refresh''), (GET, ''/api/v1/health'')}"

subsection \<open>The table\<close>

lemma url_table_rows:
  "map (\<lambda>(p, os). (p, map (\<lambda>oper. (op_method oper, op_view oper)) os)) url_table =
     [([''v1'', ''auth'', ''register''], [(POST, V_register)]),
      ([''v1'', ''auth'', ''login''], [(POST, V_login)]),
      ([''v1'', ''auth'', ''refresh''], [(POST, V_refresh)]),
      ([''v1'', ''auth'', ''logout''], [(POST, V_logout)]),
      ([''v1'', ''auth'', ''logout-all''], [(POST, V_logout_all)]),
      ([''v1'', ''auth'', ''me''], [(GET, V_me)]),
      ([''v1'', ''admin'', ''users''], [(GET, V_list_users), (POST, V_create_user)]),
      ([''v1'', ''admin'', ''users'', ''{user_id}''],
        [(GET, V_get_user), (PATCH, V_update_user), (DELETE, V_delete_user)]),
      ([''v1'', ''admin'', ''users'', ''{user_id}'', ''roles''], [(POST, V_assign_role)]),
      ([''v1'', ''admin'', ''roles''], [(GET, V_list_roles)]),
      ([''v1'', ''admin'', ''permissions''], [(GET, V_list_permissions)]),
      ([''v1'', ''admin'', ''audit-logs''], [(GET, V_list_audit_logs)]),
      ([''v1'', ''health''], [(GET, V_health)])]"
  by code_simp

text \<open>Resolution needs no more of an operation than its method and its view.\<close>

fun resolve_rows ::
  "(string list \<times> (http_method \<times> view) list) list \<Rightarrow> http_method \<Rightarrow> string list \<Rightarrow> dispatched" where
  "resolve_rows [] m ss = NoRoute"
| "resolve_rows ((pat, ops) # es) m ss =
     (case match_segments pat ss of
        None \<Rightarrow> resolve_rows es m ss
      | Some args \<Rightarrow> (case map_of ops m of None \<Rightarrow> MethodNotAllowed | Some v \<Rightarrow> ToView v args))"

lemma map_of_operations:
  "map_of (map (\<lambda>oper. (op_method oper, op_view oper)) ops) m =
    map_option op_view (first (\<lambda>oper. op_method oper = m) ops)"
  by (induction ops) auto

lemma resolve_in_rows:
  "resolve_in tbl m ss =
    resolve_rows (map (\<lambda>(p, os). (p, map (\<lambda>oper. (op_method oper, op_view oper)) os)) tbl) m ss"
  by (induction tbl m ss rule: resolve_in.induct) (simp_all add: map_of_operations split: option.split)

lemma match_segments_literal:
  "\<forall>t \<in> set ts. path_parameter t = None \<Longrightarrow> match_segments ts ss = (if ss = ts then Some [] else None)"
  by (induction ts ss rule: match_segments.induct) auto

lemma path_parameter_user: "path_parameter ''{user_id}'' = Some ''user_id''"
  by code_simp

lemma match_user:
  "match_segments [''v1'', ''admin'', ''users'', ''{user_id}''] ss =
     (case ss of [a, b, c, s] \<Rightarrow>
        if a = ''v1'' \<and> b = ''admin'' \<and> c = ''users'' \<and> s \<noteq> [] then Some [(''user_id'', s)] else None
      | _ \<Rightarrow> None)"
  by (auto simp: path_parameter_def split: list.split)

lemma match_user_roles:
  "match_segments [''v1'', ''admin'', ''users'', ''{user_id}'', ''roles''] ss =
     (case ss of [a, b, c, s, d] \<Rightarrow>
        if a = ''v1'' \<and> b = ''admin'' \<and> c = ''users'' \<and> s \<noteq> [] \<and> d = ''roles''
        then Some [(''user_id'', s)] else None
      | _ \<Rightarrow> None)"
  by (auto simp: path_parameter_def split: list.split)

lemma path_parameter_none: "hd t \<noteq> CHR ''{'' \<Longrightarrow> path_parameter t = None"
  by (simp add: path_parameter_def)

lemmas match_rows = match_user match_user_roles match_segments_literal path_parameter_none

text \<open>The table as one cascade over the segments of the path.\<close>

definition one_of :: "(http_method \<times> view) list \<Rightarrow> (string \<times> string) list \<Rightarrow> http_method \<Rightarrow> dispatched" where
  "one_of ops args m = (case map_of ops m of None \<Rightarrow> MethodNotAllowed | Some v \<Rightarrow> ToView v args)"

lemma one_of_ToView: "one_of ops args m = ToView v args' \<longleftrightarrow> map_of ops m = Some v \<and> args' = args"
  by (auto simp: one_of_def split: option.split)

definition user_segment :: "string list \<Rightarrow> string option" where
  "user_segment ss = (case ss of [a, b, c, s] \<Rightarrow>
     if a = ''v1'' \<and> b = ''admin'' \<and> c = ''users'' \<and> s \<noteq> [] then Some s else None | _ \<Rightarrow> None)"

definition roles_segment :: "string list \<Rightarrow> string option" where
  "roles_segment ss = (case ss of [a, b, c, s, d] \<Rightarrow>
     if a = ''v1'' \<and> b = ''admin'' \<and> c = ''users'' \<and> s \<noteq> [] \<and> d = ''roles'' then Some s else None
   | _ \<Rightarrow> None)"

definition row ::
  "string list \<Rightarrow> (http_method \<times> view) list \<Rightarrow> http_method \<Rightarrow> string list \<Rightarrow> dispatched \<Rightarrow> dispatched" where
  "row pat ops m ss rest =
     (case match_segments pat ss of None \<Rightarrow> rest | Some args \<Rightarrow> one_of ops args m)"

lemma resolve_rows_Cons: "resolve_rows ((pat, ops) # es) m ss = row pat ops m ss (resolve_rows es m ss)"
  by (simp add: row_def one_of_def split: option.split)

lemma row_literal:
  "list_all (\<lambda>t. path_parameter t = None) pat \<Longrightarrow>
    row pat ops m ss rest = (if ss = pat then one_of ops [] m else rest)"
  by (simp add: row_def match_segments_literal list_all_iff)

lemma row_user:
  "row [''v1'', ''admin'', ''users'', ''{user_id}''] ops m ss rest =
    (case user_segment ss of None \<Rightarrow> rest | Some s \<Rightarrow> one_of ops [(''user_id'', s)] m)"
  unfolding row_def match_user user_segment_def by (simp split: list.split)

lemma row_roles:
  "row [''v1'', ''admin'', ''users'', ''{user_id}'', ''roles''] ops m ss rest =
    (case roles_segment ss of None \<Rightarrow> rest | Some s \<Rightarrow> one_of ops [(''user_id'', s)] m)"
  unfolding row_def match_user_roles roles_segment_def by (simp split: list.split)

lemma resolve_cascade:
  "resolve_in url_table m ss =
    (if ss = [''v1'', ''auth'', ''register''] then one_of [(POST, V_register)] [] m
     else if ss = [''v1'', ''auth'', ''login''] then one_of [(POST, V_login)] [] m
     else if ss = [''v1'', ''auth'', ''refresh''] then one_of [(POST, V_refresh)] [] m
     else if ss = [''v1'', ''auth'', ''logout''] then one_of [(POST, V_logout)] [] m
     else if ss = [''v1'', ''auth'', ''logout-all''] then one_of [(POST, V_logout_all)] [] m
     else if ss = [''v1'', ''auth'', ''me''] then one_of [(GET, V_me)] [] m
     else if ss = [''v1'', ''admin'', ''users'']
       then one_of [(GET, V_list_users), (POST, V_create_user)] [] m
     else (case user_segment ss of Some s \<Rightarrow>
         one_of [(GET, V_get_user), (PATCH, V_update_user), (DELETE, V_delete_user)] [(''user_id'', s)] m
     | None \<Rightarrow> (case roles_segment ss of Some s \<Rightarrow> one_of [(POST, V_assign_role)] [(''user_id'', s)] m
     | None \<Rightarrow>
       if ss = [''v1'', ''admin'', ''roles''] then one_of [(GET, V_list_roles)] [] m
       else if ss = [''v1'', ''admin'', ''permissions''] then one_of [(GET, V_list_permissions)] [] m
       else if ss = [''v1'', ''admin'', ''audit-logs''] then one_of [(GET, V_list_audit_logs)] [] m
       else if ss = [''v1'', ''health''] then one_of [(GET, V_health)] [] m
       else NoRoute)))"
  unfolding resolve_in_rows url_table_rows resolve_rows_Cons
  by (simp add: row_literal row_user row_roles path_parameter_none split del: if_split)

text \<open>A resolved path, as the method, the segments and the arguments of its view.\<close>

fun segments_for :: "view \<Rightarrow> (string \<times> string) list \<Rightarrow> string list" where
  "segments_for V_register _ = [''v1'', ''auth'', ''register'']"
| "segments_for V_login _ = [''v1'', ''auth'', ''login'']"
| "segments_for V_refresh _ = [''v1'', ''auth'', ''refresh'']"
| "segments_for V_logout _ = [''v1'', ''auth'', ''logout'']"
| "segments_for V_logout_all _ = [''v1'', ''auth'', ''logout-all'']"
| "segments_for V_me _ = [''v1'', ''auth'', ''me'']"
| "segments_for V_list_users _ = [''v1'', ''admin'', ''users'']"
| "segments_for V_create_user _ = [''v1'', ''admin'', ''users'']"
| "segments_for V_assign_role args = [''v1'', ''admin'', ''users'', concat (map snd args), ''roles'']"
| "segments_for V_list_roles _ = [''v1'', ''admin'', ''roles'']"
| "segments_for V_list_permissions _ = [''v1'', ''admin'', ''permissions'']"
| "segments_for V_list_audit_logs _ = [''v1'', ''admin'', ''audit-logs'']"
| "segments_for V_health _ = [''v1'', ''health'']"
| "segments_for _ args = [''v1'', ''admin'', ''users'', concat (map snd args)]"

lemma user_segment_Some: "user_segment ss = Some s \<longleftrightarrow> ss = [''v1'', ''admin'', ''users'', s] \<and> s \<noteq> []"
  by (auto simp: user_segment_def split: list.splits if_splits)

lemma roles_segment_Some:
  "roles_segment ss = Some s \<longleftrightarrow> ss = [''v1'', ''admin'', ''users'', s, ''roles''] \<and> s \<noteq> []"
  by (auto simp: roles_segment_def split: list.splits if_splits)

lemma segments_none:
  "length ss \<noteq> 4 \<Longrightarrow> user_segment ss = None" "length ss \<noteq> 5 \<Longrightarrow> roles_segment ss = None"
  by (auto simp: user_segment_def roles_segment_def split: list.split)

definition segment_args :: "view \<Rightarrow> (string \<times> string) list \<Rightarrow> bool" where
  "segment_args v args \<longleftrightarrow>
     (if takes_user v then (case args of [(x, s)] \<Rightarrow> x = ''user_id'' \<and> s \<noteq> [] | _ \<Rightarrow> False) else args = [])"

lemma single_pair:
  "(case xs of [(x, s)] \<Rightarrow> P x s | _ \<Rightarrow> False) \<longleftrightarrow> (\<exists>x s. xs = [(x, s)] \<and> P x s)"
  by (cases xs; cases "tl xs") auto

lemma segment_args_cases:
  assumes "segment_args v args"
  obtains s where "takes_user v" "args = [(''user_id'', s)]" "s \<noteq> []" | "\<not> takes_user v" "args = []"
  using assms by (auto simp: segment_args_def single_pair split: if_splits)

lemma resolve_sound:
  assumes "resolve_in url_table m ss = ToView v args"
  shows "m = method_of v \<and> segment_args v args \<and> ss = segments_for v args"
  using assms unfolding resolve_cascade
  by (auto simp: one_of_ToView segment_args_def takes_user_def user_segment_Some roles_segment_Some
      split: if_split_asm option.split_asm)

lemma resolve_complete:
  assumes "m = method_of v" "segment_args v args" "ss = segments_for v args"
  shows "resolve_in url_table m ss = ToView v args"
  using assms(2)
proof (cases rule: segment_args_cases)
  case (1 s)
  then have "user_segment [''v1'', ''admin'', ''users'', s] = Some s"
    "roles_segment [''v1'', ''admin'', ''users'', s, ''roles''] = Some s"
    by (simp_all add: user_segment_Some roles_segment_Some)
  with 1 show ?thesis
    unfolding resolve_cascade assms(1,3)
    by (cases v) (simp_all add: one_of_def takes_user_def segments_none)
next
  case 2
  then show ?thesis
    unfolding resolve_cascade assms(1,3)
    by (cases v) (simp_all add: one_of_def takes_user_def segments_none)
qed

text \<open>The path of a view, split at its slashes.\<close>

lemma args_ok_cases:
  assumes "args_ok v args"
  obtains s where "takes_user v" "args = [(''user_id'', s)]" "s \<noteq> []" "CHR ''/'' \<notin> set s"
    | "\<not> takes_user v" "args = []"
  using assms by (auto simp: args_ok_def single_pair split: if_splits)

lemma args_ok_segment: "args_ok v args \<Longrightarrow> segment_args v args"
  by (auto simp: args_ok_def segment_args_def single_pair split: if_splits)

lemma url_for_segments:
  assumes "args_ok v args"
  shows "url_for v args = ''/api/'' @ join ''/'' (segments_for v args)"
    "\<forall>s \<in> set (segments_for v args). CHR ''/'' \<notin> set s" "segments_for v args \<noteq> []"
    "prefix ''v1/'' (join ''/'' (segments_for v args))"
  using assms by (cases rule: args_ok_cases; cases v; simp add: takes_user_def)+

text \<open>Only the API is mounted at \<open>/api/\<close>.\<close>

lemma dispatch_api:
  "dispatch own_page m (''/api/'' @ p) = resolve_api own_page m p"
  by (simp add: dispatch_def urlpatterns_def split: dispatched.split)

lemma dispatch_ToView:
  assumes "dispatch own_page m path = ToView v args"
  obtains p where "path = ''/api/'' @ p" "\<not> own_page p"
    "resolve_in url_table m (split_on (CHR ''/'') p) = ToView v args"
proof -
  obtain q where q: "path = CHR ''/'' # q" "resolve_mounted own_page m urlpatterns q = ToView v args"
    using assms by (auto simp: dispatch_def split: list.splits if_splits)
  then have "prefix ''api/'' q" "resolve_api own_page m (drop 4 q) = ToView v args"
    by (auto simp: urlpatterns_def eval_nat_numeral split: if_splits dispatched.splits)
  then obtain p where "q = ''api/'' @ p" "resolve_api own_page m p = ToView v args"
    by (auto elim!: prefixE)
  then show thesis
    using that [of p] q(1) by (simp add: resolve_api_def split: if_splits)
qed

lemma dispatch_sound:
  assumes "dispatch own_page m path = ToView v args"
  shows "m = method_of v \<and> args_ok v args \<and> path = url_for v args"
proof -
  from assms obtain p where p: "path = ''/api/'' @ p"
    "resolve_in url_table m (split_on (CHR ''/'') p) = ToView v args"
    by (rule dispatch_ToView)
  note sound = resolve_sound [OF p(2)]
  have seg: "\<forall>s \<in> set (segments_for v args). CHR ''/'' \<notin> set s"
    using sound split_on_parts by metis
  have "args_ok v args"
    using sound seg by (cases v) (auto simp: args_ok_def segment_args_def takes_user_def single_pair)
  moreover have "p = join ''/'' (segments_for v args)" using sound join_split_on by metis
  ultimately show "m = method_of v \<and> args_ok v args \<and> path = url_for v args"
    using sound p(1) by (simp add: url_for_segments)
qed

lemma dispatch_complete:
  assumes "own_pages_law own_page" and ok: "args_ok v args"
  shows "dispatch own_page (method_of v) (url_for v args) = ToView v args"
proof -
  note u = url_for_segments [OF ok]
  have "\<not> own_page (join ''/'' (segments_for v args))"
    using assms(1) u(4) unfolding own_pages_law_def by blast
  then have "resolve_api own_page (method_of v) (join ''/'' (segments_for v args)) = ToView v args"
    using resolve_complete [OF refl args_ok_segment [OF ok] refl]
    by (simp add: resolve_api_def split_on_join [OF u(3,2)])
  then show ?thesis unfolding u(1) using dispatch_api by metis
qed

text \<open>What the URL of a view says about its calls.\<close>

lemma url_needs_auth:
  "(method_of (view_of call), url_for (view_of call) args) \<notin> public_urls \<Longrightarrow> needs_auth call"
  by (cases call) (simp_all add: public_urls_def)

lemma url_needs_permission:
  "prefix ''/api/v1/admin/'' (url_for (view_of call) args) \<Longrightarrow> \<exists>c. route_permission call = Some c"
  by (cases call) simp_all

text \<open>
  C30. URLs and views: a method and a path reach a view exactly when the method is the view's and the
  path is the URL of the view with its arguments, where a user id is any non-empty text without a
  slash. So every view can be reached, no pattern hides another, and no two views share a method and
  a path.
\<close>

theorem urls_resolve:
  assumes "own_pages_law own_page"
  shows "dispatch own_page m path = ToView v args \<longleftrightarrow>
    m = method_of v \<and> args_ok v args \<and> path = url_for v args"
  using dispatch_sound dispatch_complete [OF assms] by metis

definition sample_pages :: "string \<Rightarrow> bool" where
  "sample_pages p \<longleftrightarrow> p \<in> {[], ''docs'', ''openapi.json''}"

lemma sample_pages_law: "own_pages_law sample_pages"
  by (simp add: own_pages_law_def sample_pages_def)

theorem urls_resolve_witness:
  "dispatch sample_pages PATCH ''/api/v1/admin/users/42'' = ToView V_update_user [(''user_id'', ''42'')]"
  using urls_resolve [OF sample_pages_law, of PATCH "''/api/v1/admin/users/42''" V_update_user
      "[(''user_id'', ''42'')]"]
  by (simp add: args_ok_def takes_user_def)

text \<open>
  C2. The surface of the service: but for the four public URLs (registration, login, refresh, health),
  no path of the API reaches a view that does anything for a request without a valid bearer token,
  and below \<open>/api/v1/admin/\<close> the token must carry the permission of the view: the database and Redis
  stay exactly as they are, and the response is a failure without data.
\<close>

theorem url_space_guarded:
  assumes "reaches own_page parse_int m path call" "(m, path) \<notin> public_urls"
    and "\<nexists>p. jwt_call env io request w = Inr (Some p) \<and>
      (prefix ''/api/v1/admin/'' path \<longrightarrow> route_permission call \<in> Some ` pr_permissions p)"
  shows "\<exists>r. serve env io allowed request call w = (r, w) \<and>
    (\<forall>st b. r = Some (st, b) \<longrightarrow> \<not> success b \<and> data b = None)"
proof -
  from assms(1) obtain v args where d: "dispatch own_page m path = ToView v args" "view_of call = v"
    by (auto simp: reaches_def split: dispatched.splits)
  note url = dispatch_sound [OF d(1)]
  have "needs_auth call" using assms(2) url d(2) url_needs_auth by metis
  moreover have "\<nexists>p. jwt_call env io request w = Inr (Some p) \<and>
      (\<forall>c. route_permission call = Some c \<longrightarrow> c \<in> pr_permissions p)"
    using assms(3) url d(2) url_needs_permission by (metis imageI)
  ultimately show ?thesis using serve_refused by blast
qed

theorem url_space_guarded_witness:
  "\<exists>r. serve jwt_env (sample_io ''u'') True (peer ''10.0.0.9'' None) PostLogoutAll (session_world None) =
      (r, session_world None) \<and> (\<forall>st b. r = Some (st, b) \<longrightarrow> \<not> success b \<and> data b = None)"
proof -
  have "reaches sample_pages int_of_str POST ''/api/v1/auth/logout-all'' PostLogoutAll"
    by code_simp
  moreover have "(POST, ''/api/v1/auth/logout-all'') \<notin> public_urls" by (simp add: public_urls_def)
  moreover have "\<nexists>p. jwt_call jwt_env (sample_io ''u'') (peer ''10.0.0.9'' None) (session_world None) =
      Inr (Some p) \<and> (prefix ''/api/v1/admin/'' ''/api/v1/auth/logout-all'' \<longrightarrow>
        route_permission PostLogoutAll \<in> Some ` pr_permissions p)"
    by (simp add: jwt_call_def peer_def)
  ultimately show ?thesis by (rule url_space_guarded)
qed

end
