(* ===== verification/Spec2Isabelle.thy ===== *)
theory Spec2Isabelle
  imports System TokenUse Requests Overlaps Wiring UserAdmin Urls
begin

text \<open>
  A model of django-ninja-rbac-authentication: a Django Ninja service that registers users, logs them
  in with a password, issues short-lived JWT access tokens and rotating refresh tokens, guards its
  administrative routes by permissions that users get through roles, and keeps an audit trail.

  \<^bold>\<open>The parts and how they interact.\<close> A request reaches a route (\<open>apps/authz/api/routers\<close>). Ninja runs the
  bearer callback and the permission guard (\<open>apps/authz/api/auth.py\<close>), then the route calls a service
  (\<open>apps/authz/services/auth.py\<close>, \<open>apps/accounts/services/admin.py\<close>). The services read and write
  through repositories (\<open>apps/*/repositories\<close>), sign and check access tokens
  (\<open>apps/authz/security/jwt.py\<close>), store revocations in Redis (\<open>apps/authz/security/blocklist.py\<close>) and
  record audit events (\<open>apps/audit\<close>), whose client address \<open>apps/audit/context.py\<close> derives. Failures are
  domain exceptions (\<open>apps/common/exceptions.py\<close>) that \<open>config/api.py\<close> turns into responses.

  \<^bold>\<open>Theories and sources.\<close>
  \<^item> \<open>Prelude\<close>, \<open>PyStr\<close>: results as sums, lists and pages; Python's string operations.
  \<^item> \<open>Errors\<close>: \<open>common/exceptions.py\<close>, \<open>common/api/schemas.py\<close>, the handlers of \<open>config/api.py\<close>.
  \<^item> \<open>Db\<close>, \<open>Integrity\<close>: the rows of \<open>*/models.py\<close> as records, a table as its rows and its id sequence,
    the ORM calls the repositories make with the constraints they check, the transaction bridge of
    \<open>common/db.py\<close>; \<open>db_ok\<close>, the integrity of the database (keys, uniqueness, foreign keys, and the
    lengths of the \<open>varchar\<close> columns of every table), and that every call keeps it.
  \<^item> \<open>Users\<close>, \<open>Rbac\<close>, \<open>RefreshTokens\<close>, \<open>AuditTrail\<close>: the repositories, one definition per method.
    \<open>Binding\<close> holds the digests of \<open>authz/security/binding.py\<close> and of a refresh token.
  \<^item> \<open>TokenFamilies\<close>, \<open>TokenUse\<close>: the step relation of the token table, with the family ids \<open>acreate\<close> may be
    called with as a parameter; its invariant (one owner and at most one live token per family, when
    every \<open>acreate\<close> starts a family of its own, as a login does), the refinement of rotation by a
    one-use token store.
  \<^item> \<open>Jwt\<close>, \<open>Blocklist\<close>: \<open>security/jwt.py\<close>, \<open>security/passwords.py\<close>, \<open>security/blocklist.py\<close>,
    \<open>common/redis.py\<close>; the world is the database with the keys of Redis and their expiry.
  \<^item> \<open>Ip\<close>, \<open>IpText\<close>, \<open>AuditContext\<close>: Python's \<open>ipaddress\<close> on 32 and 128-bit words, its texts and their
    round trips; \<open>audit/context.py\<close> and the address mask.
  \<^item> \<open>Sanitize\<close>: the metadata redaction of \<open>audit/services.py\<close>; the redacted keys are described a second
    time by the parts of the key, without the code's word list and its two expressions.
  \<^item> \<open>AuthService\<close>, \<open>AdminService\<close>: the use cases, the whole of each with its audit events.
  \<^item> \<open>ApiAuth\<close>, \<open>Routers\<close>: authentication, the guard, the schemas and every route; \<open>serve\<close> is the
    response to a request together with the world it leaves.
  \<^item> \<open>Urls\<close>: \<open>config/urls.py\<close>, the routers of \<open>config/api.py\<close> and the paths of their operations: which
    view a method and a path reach.
  \<^item> \<open>Commands\<close>, \<open>Asgi\<close>, \<open>Settings\<close>: the management commands, the lifespan loop of \<open>config/asgi.py\<close>,
    the environment of \<open>config/settings\<close> and the throttles of \<open>common/throttling.py\<close>.
  \<^item> \<open>Deployment\<close>: the settings modules \<open>base.py\<close>, \<open>dev.py\<close>, \<open>prod.py\<close> as the values they give Django,
    the configuration the services get from them, the dispatch and database check of \<open>asgi.py\<close>.
  \<^item> \<open>UserAdmin\<close>: the admin registration of \<open>accounts/admin.py\<close> against the user model.
  \<^item> \<open>Migrations\<close>, \<open>SchemaMigrations\<close>: the data and the schema migrations.
  \<^item> \<open>System\<close>: the worlds the service can reach, under an assumption \<open>A\<close> on the random values of the
    requests that is a parameter of \<open>service_step\<close> and \<open>reachable\<close>, and what holds in all of them.
  \<^item> \<open>Procs\<close>, \<open>Concurrency\<close>, \<open>Races\<close>, \<open>Epochs\<close>, \<open>Schedules\<close>: a process is a chain of atomic steps; the use cases of
    the two services as processes, each proved to do alone what its use case does; what every step
    guarantees for the database and for the epochs in Redis; the properties of arbitrary schedules.
  \<^item> \<open>Overlaps\<close>: the races that remain, in every world with a live token: a schedule of a revocation and
    a rotation after which the replacement is live, and an epoch that is taken back.
  \<^item> \<open>Requests\<close>: every route as a process, from the bearer callback and the guard to the response, each
    proved to do alone what \<open>serve\<close> does; the properties of arbitrary schedules of requests, and of
    sequences of served requests (\<open>serve_all\<close>).
  \<^item> \<open>Wiring\<close>: the constructors of the services as an object graph, the application configurations of
    the \<open>apps.py\<close> files, and the entry points \<open>manage.py\<close> and \<open>asgi.py\<close> up to the settings module.
  \<^item> \<open>Samples\<close>: a small database the witnesses use.

  \<^bold>\<open>State and errors.\<close> An operation takes the state and returns its result with the new state; a result
  is \<open>Inl e\<close> for the exception \<open>e\<close> and \<open>Inr x\<close> for a value. Every raise of the source is a branch,
  and so are the exceptions of the database, of Redis and of the standard library that the source
  meets. A failed insertion advances the id sequence as PostgreSQL does; a transaction that fails
  restores the rows. What a call draws from its surroundings is an argument (\<open>io\<close>): clock readings,
  random tokens and identifiers, whether Redis and the audit queries answer.

  \<^bold>\<open>What the lemmas show.\<close> The data invariant and its preservation (\<open>inv_pres\<close>), what an operation
  leaves alone (\<open>frame\<close>), case rules with one case per outcome (\<open>arotate_cases\<close>,
  \<open>create_with_role_cases\<close>, \<open>update_user_cases\<close>), then the properties: single use of refresh tokens
  and the fate of a replayed family; credentials, deactivation and logout; who passes the guard and
  who gets a role; round trips of access tokens; the client address behind proxies; redaction at
  any depth; bounded pages and the response envelope; idempotence of the bootstrap; consistency of
  all reachable worlds, permissions as the roles' alone and the append-only trail; migrations against
  models; what a production start has established. For concurrent requests: one winner per refresh token
  and per address, consistency at every point, no trace of a refused request (\<open>refused_invisible\<close>), and
  how far a revocation reaches; \<open>replay_race\<close>, \<open>logout_all_race\<close> and \<open>epoch_taken_back\<close> say what it does not
  reach. Most of these are proved for the use cases (\<open>Schedules\<close>) and for the requests around them
  (\<open>Requests\<close>).

  \<^bold>\<open>Concurrency.\<close> Every \<open>await\<close> on the database or on Redis is an atomic step; a schedule is any list
  of process numbers, each naming who moves next. The isolation level is READ COMMITTED: a transaction
  that locks its row or inserts under a unique index takes effect at its commit; an update of many
  rows has two steps, the snapshot of the rows it works on and the update. The deletion of a user with
  its cascade and a get-or-create are one step each. A step stands for a statement or a transaction that
  has got its row locks: the wait for the row lock of \<open>_rotate\<close> or of a bulk update, and the deadlocks
  that PostgreSQL ends by aborting a transaction, are collapsed into the instant at which the step is
  taken, so nothing is claimed about how long a request waits. A request reads the clock at times of
  its own.
  Authentication reads Redis once and is the first step of a request that needs it; the page and the
  total of a listing are two queries.

  \<^bold>\<open>Interfaces.\<close> Where a client relies on a provider, a locale states what is promised and the model
  interprets it: among them the audit trail (\<open>AuditTrail\<close>), and the storage contract of \<open>System\<close>
  (\<open>session_contract\<close>, extended by \<open>storage_contract\<close>), under which every route is shown once to
  keep a predicate and which is interpreted for integrity, families, addresses, the catalog, the
  trail and the roles held. \<open>step_contract\<close> of \<open>Concurrency\<close> is its counterpart for single steps; \<open>Races\<close>
  interprets it for consistency, for spent tokens and for taken addresses, \<open>Epochs\<close> for refused access
  tokens.

  \<^bold>\<open>Parameters and assumptions.\<close> Third-party code is an argument, its documented behaviour a named
  hypothesis where a property needs it: the digest (\<open>digest_law\<close>: a fixed length), PyJWT (\<open>jwt_law\<close>,
  \<open>jwt_honest\<close>: a signed payload is decoded under its key from its \<open>iat\<close> until its \<open>exp\<close>),
  Django's password hashers and domain normalization, PostgreSQL's \<open>inet\<close> check, Pydantic's \<open>EmailStr\<close>,
  booleans and integers, \<open>dj_database_url\<close>, the answer of Ninja's throttle and the paths of its own
  pages (\<open>own_pages_law\<close>), the fields Django gives a user (\<open>django_user_fields\<close>) and whether a form may
  edit a field (\<open>editable_law\<close>). The effect of an ORM call, of a migration operation and the order in
  which Ninja runs authentication, throttle, validation and view are written out as documented.
  Strings are Latin-1 without NUL characters, as far as the code inspects them; an instant is a whole
  number of microseconds; a stored address is read back as written; the main database answers (only
  Redis and auditing may fail). That a login draws a family id which no stored token has is no
  assumption of the model but a premise of the theorems on families (\<open>fresh_family\<close>, \<open>new_family\<close>).

  \<^bold>\<open>Loops.\<close> Everything recurses structurally or by a measure but the polling loop of \<open>wait_for_db\<close>, a
  \<open>partial_function (option)\<close>: \<open>None\<close> is a loop that does not return. It is shown to return whenever
  the clock reaches the deadline, and not to return for a NaN deadline on a dead connection. The
  lifespan loop is a step relation. A use case has at most seven steps (\<open>within_proc_of\<close>) and a
  request at most eight (\<open>within_request_proc\<close>). No definition uses fuel.

  \<^bold>\<open>Not modelled.\<close> The pages of Django's admin site, its start-up and command line, console output of the
  commands, logging, the parsing of JSON bodies and query strings by Pydantic, the counting of Ninja's
  throttle and Django's handling of an HTTP scope are third-party. The tests under \<open>tests\<close> are not part
  of the program.
\<close>

end
